(* ===== verification/Prelude.thy ===== *)
theory Prelude
  imports Main "HOL-Library.Word"
begin

text \<open>
  Shared vocabulary of the development: exceptions as values, the C string
  functions and the \<open>std::string\<close> searches the sources call, decimal and
  hexadecimal rendering, and the interface of the keyed containers that most
  components are built on.

  Conventions used everywhere below.
  \<^item> An exception is a value of type \<open>exn\<close> that holds the text it was thrown with;
    \<open>what()\<close> returns it as a C string.  A C++ function that may throw returns \<open>exn + 'a\<close>.
  \<^item> \<open>std::string\<close> and \<open>basis::DataBlock\<close> are lists of bytes (\<open>char list\<close>), which
    may hold NUL bytes; \<open>c_str\<close> is the prefix a C function sees.
  \<^item> \<open>std::string::npos\<close> is \<open>None\<close>.
\<close>

section \<open>Exceptions as values\<close>

datatype exn =
    RuntimeException string
  | ResourceUnavailableException string
  | InvalidDataException string
  | DatabaseException string

fun message :: "exn \<Rightarrow> string" where
  "message (RuntimeException s) = s"
| "message (ResourceUnavailableException s) = s"
| "message (InvalidDataException s) = s"
| "message (DatabaseException s) = s"

text \<open>
  \<open>catch (basis::RuntimeException&)\<close> catches the runtime exceptions and
  \<open>InvalidDataException\<close>, which inherits from it; \<open>dbms::DatabaseException\<close> and
  \<open>balance::ResourceUnavailableException\<close> inherit from \<open>basis::Exception\<close> only and pass
  through such a handler.
\<close>

fun is_runtime :: "exn \<Rightarrow> bool" where
  "is_runtime (DatabaseException s) = False"
| "is_runtime (ResourceUnavailableException s) = False"
| "is_runtime _ = True"

type_synonym 'a outcome = "exn + 'a"

fun is_ok :: "'a outcome \<Rightarrow> bool" where
  "is_ok (Inl e) = False"
| "is_ok (Inr x) = True"

fun to_option :: "'a outcome \<Rightarrow> 'a option" where
  "to_option (Inl e) = None"
| "to_option (Inr x) = Some x"

lemma is_ok_iff: "is_ok r \<longleftrightarrow> (\<exists>x. r = Inr x)"
  by (cases r) auto

lemma to_option_Some [simp]: "to_option r = Some x \<longleftrightarrow> r = Inr x"
  by (cases r) auto

lemma to_option_None [simp]: "to_option r = None \<longleftrightarrow> (\<exists>e. r = Inl e)"
  by (cases r) auto

section \<open>Fact collections\<close>

named_theorems registry_simps \<open>how the keyed containers react to an insertion or a lookup\<close>
named_theorems invariants \<open>preservation of the component invariants by one operation\<close>

section \<open>Characters and C strings\<close>

abbreviation NUL :: char where "NUL \<equiv> CHR 0x00"
abbreviation CR :: char where "CR \<equiv> CHR 0x0D"
abbreviation LF :: char where "LF \<equiv> CHR 0x0A"

definition isdigit :: "char \<Rightarrow> bool" where
  "isdigit c = (c \<in> set ''0123456789'')"

definition ord :: "char \<Rightarrow> nat" where
  "ord c = of_char c"

definition tolower :: "char \<Rightarrow> char" where
  "tolower c = (if 65 \<le> ord c \<and> ord c \<le> 90 then char_of (ord c + 32) else c)"

definition toupper :: "char \<Rightarrow> char" where
  "toupper c = (if 97 \<le> ord c \<and> ord c \<le> 122 then char_of (ord c - 32) else c)"

definition isprint :: "char \<Rightarrow> bool" where
  "isprint c = (32 \<le> ord c \<and> ord c \<le> 126)"

definition c_str :: "string \<Rightarrow> string" where
  "c_str s = takeWhile (\<lambda>c. c \<noteq> NUL) s"

text \<open>\<open>what ()\<close> is the C string of the text.\<close>

definition what :: "exn \<Rightarrow> string" where
  "what e = c_str (message e)"

text \<open>\<open>strcasecmp (a, b) == 0\<close> and \<open>strncasecmp (a, b, n) == 0\<close>.\<close>

definition strcaseeq :: "string \<Rightarrow> string \<Rightarrow> bool" where
  "strcaseeq a b = (map tolower (c_str a) = map tolower (c_str b))"

definition strncaseeq :: "nat \<Rightarrow> string \<Rightarrow> string \<Rightarrow> bool" where
  "strncaseeq n a b = (map tolower (take n (c_str a)) = map tolower (take n (c_str b)))"

text \<open>The sign of \<open>strcmp\<close> (bytes compared as \<open>unsigned char\<close>).\<close>

fun bytes_cmp :: "string \<Rightarrow> string \<Rightarrow> int" where
  "bytes_cmp [] [] = 0"
| "bytes_cmp [] (b # bs) = -1"
| "bytes_cmp (a # as) [] = 1"
| "bytes_cmp (a # as) (b # bs) =
     (if ord a < ord b then -1 else if ord b < ord a then 1 else bytes_cmp as bs)"

definition strcmp :: "string \<Rightarrow> string \<Rightarrow> int" where
  "strcmp a b = bytes_cmp (c_str a) (c_str b)"

lemma c_str_id [simp]: "NUL \<notin> set s \<Longrightarrow> c_str s = s"
  by (auto simp: c_str_def takeWhile_eq_all_conv)

lemma NUL_c_str [simp]: "NUL \<notin> set (c_str s)"
  by (auto simp: c_str_def dest: set_takeWhileD)

lemma c_str_idem [simp]: "c_str (c_str s) = c_str s"
  by simp

lemma ord_inj: "ord a = ord b \<longleftrightarrow> a = b"
  by (simp add: ord_def)

lemma ord_less_256: "ord c < 256"
  by (simp add: ord_def)

lemma bytes_cmp_0: "bytes_cmp a b = 0 \<longleftrightarrow> a = b"
  by (induction a b rule: bytes_cmp.induct) (auto simp: ord_inj [symmetric])

lemma bytes_cmp_antisym: "bytes_cmp a b = - bytes_cmp b a"
  by (induction a b rule: bytes_cmp.induct) auto

lemma bytes_cmp_trans:
  "bytes_cmp a b < 0 \<Longrightarrow> bytes_cmp b c < 0 \<Longrightarrow> bytes_cmp a c < 0"
proof (induction a c arbitrary: b rule: bytes_cmp.induct)
  case 1
  then show ?case by (cases b) auto
next
  case (2 c cs)
  then show ?case by simp
next
  case (3 a as)
  then show ?case by (cases b) auto
next
  case (4 a as c cs)
  then show ?case by (cases b) (auto split: if_splits)
qed

lemma strcmp_refl [simp]: "strcmp a a = 0"
  by (simp add: strcmp_def bytes_cmp_0)

lemma strcmp_antisym: "strcmp a b = - strcmp b a"
  unfolding strcmp_def by (rule bytes_cmp_antisym)

lemma strcaseeq_refl [simp]: "strcaseeq a a"
  by (simp add: strcaseeq_def)

lemma strcaseeq_sym: "strcaseeq a b \<longleftrightarrow> strcaseeq b a"
  by (auto simp: strcaseeq_def)

section \<open>Searching strings\<close>

text \<open>\<open>s.find(c, pos)\<close>; a position past the end finds nothing.\<close>

fun index_of :: "char \<Rightarrow> string \<Rightarrow> nat option" where
  "index_of c [] = None"
| "index_of c (x # xs) = (if x = c then Some 0 else map_option Suc (index_of c xs))"

definition find_char :: "string \<Rightarrow> char \<Rightarrow> nat \<Rightarrow> nat option" where
  "find_char s c pos = map_option (\<lambda>i. pos + i) (index_of c (drop pos s))"

text \<open>\<open>s.find(p, pos)\<close> for a string \<open>p\<close>.\<close>

fun index_of_str :: "string \<Rightarrow> string \<Rightarrow> nat option" where
  "index_of_str p [] = (if p = [] then Some 0 else None)"
| "index_of_str p (x # xs) =
     (if take (length p) (x # xs) = p then Some 0 else map_option Suc (index_of_str p xs))"

definition find_str :: "string \<Rightarrow> string \<Rightarrow> nat \<Rightarrow> nat option" where
  "find_str s p pos =
     (if pos \<le> length s then map_option (\<lambda>i. pos + i) (index_of_str p (drop pos s)) else None)"

lemma index_of_None: "index_of c s = None \<longleftrightarrow> c \<notin> set s"
  by (induction s) auto

lemma index_of_append:
  "c \<notin> set xs \<Longrightarrow> index_of c (xs @ c # ys) = Some (length xs)"
  by (induction xs) auto

lemma index_of_append2:
  "c \<notin> set xs \<Longrightarrow> index_of c (xs @ ys) = map_option (\<lambda>i. length xs + i) (index_of c ys)"
proof (induction xs)
  case Nil
  then show ?case by (cases "index_of c ys") auto
next
  case (Cons a xs)
  then show ?case by (cases "index_of c ys") auto
qed

lemma index_of_Some:
  "index_of c s = Some i \<Longrightarrow> i < length s \<and> s ! i = c \<and> c \<notin> set (take i s)"
proof (induction s arbitrary: i)
  case Nil
  then show ?case by simp
next
  case (Cons x xs)
  then show ?case by (cases i) (auto split: if_splits)
qed

lemma find_char_Some:
  "find_char s c pos = Some i \<Longrightarrow> pos \<le> i \<and> i < length s \<and> s ! i = c"
  by (auto simp: find_char_def dest!: index_of_Some)

lemma index_of_str_Some:
  "index_of_str p s = Some i \<Longrightarrow> i + length p \<le> length s \<and> take (length p) (drop i s) = p"
proof (induction s arbitrary: i)
  case Nil
  then show ?case by (auto split: if_splits)
next
  case (Cons x xs)
  show ?case
  proof (cases "take (length p) (x # xs) = p")
    case True
    then have "length p \<le> length (x # xs)"
      by (metis length_take min.cobounded1)
    with True Cons.prems show ?thesis by simp
  next
    case False
    with Cons.prems obtain j where j: "index_of_str p xs = Some j" and i: "i = Suc j"
      by auto
    from Cons.IH [OF j] i show ?thesis by simp
  qed
qed

section \<open>Decimal and hexadecimal rendering\<close>

definition digit_char :: "nat \<Rightarrow> char" where
  "digit_char d = ''0123456789abcdef'' ! d"

fun nat_to_base :: "nat \<Rightarrow> nat \<Rightarrow> string" where
  "nat_to_base b n =
     (if b < 2 \<or> n < b then [digit_char n] else nat_to_base b (n div b) @ [digit_char (n mod b)])"

declare nat_to_base.simps [simp del]

abbreviation dec :: "nat \<Rightarrow> string" where "dec n \<equiv> nat_to_base 10 n"
abbreviation hex :: "nat \<Rightarrow> string" where "hex n \<equiv> nat_to_base 16 n"

text \<open>\<open>printf("%d")\<close> and \<open>std::to_string\<close>.\<close>

definition int_to_string :: "int \<Rightarrow> string" where
  "int_to_string i = (if i < 0 then CHR ''-'' # dec (nat (- i)) else dec (nat i))"

text \<open>The value of the longest prefix of digits, as \<open>strtol\<close> computes it before saturation.\<close>

definition digit_val :: "char \<Rightarrow> nat" where
  "digit_val c = ord c - 48"

fun digits_value :: "nat \<Rightarrow> string \<Rightarrow> nat" where
  "digits_value acc [] = acc"
| "digits_value acc (c # cs) =
     (if isdigit c then digits_value (10 * acc + digit_val c) cs else acc)"

text \<open>
  \<open>atol\<close> on a string of digits: \<open>strtol\<close> saturates at \<open>LONG_MAX\<close>; \<open>atoi\<close> is its
  conversion to \<open>int\<close>.  Every caller in the sources has checked the string with
  \<open>isNumeric\<close>, so neither sign nor leading blanks occur.
\<close>

definition atol :: "string \<Rightarrow> nat" where
  "atol s = min (digits_value 0 (c_str s)) (2 ^ 63 - 1)"

definition atoi :: "string \<Rightarrow> 32 word" where
  "atoi s = of_nat (atol s)"

lemma digit_char_props:
  assumes "d < 10"
  shows "isdigit (digit_char d)" "digit_val (digit_char d) = d" "digit_char d \<noteq> NUL"
proof -
  have "d \<in> {0, 1, 2, 3, 4, 5, 6, 7, 8, 9}" using assms by auto
  then show "isdigit (digit_char d)" "digit_val (digit_char d) = d" "digit_char d \<noteq> NUL"
    by (auto simp: digit_char_def isdigit_def digit_val_def ord_def)
qed

lemma nat_to_base_nonempty [simp]: "nat_to_base b n \<noteq> []"
  by (subst nat_to_base.simps) simp

lemma dec_digits: "c \<in> set (dec n) \<Longrightarrow> isdigit c"
proof (induction "10 :: nat" n rule: nat_to_base.induct)
  case (1 n)
  show ?case
  proof (cases "n < 10")
    case True
    with 1 show ?thesis
      by (subst (asm) (2) nat_to_base.simps) (auto intro: digit_char_props)
  next
    case False
    then have "dec n = dec (n div 10) @ [digit_char (n mod 10)]"
      by (subst nat_to_base.simps) simp
    with 1 False show ?thesis by (auto intro: digit_char_props)
  qed
qed

lemma digits_value_append:
  "\<forall>c \<in> set xs. isdigit c \<Longrightarrow> digits_value acc (xs @ ys) = digits_value (digits_value acc xs) ys"
  by (induction xs arbitrary: acc) auto

lemma digits_value_dec [simp]: "digits_value 0 (dec n) = n"
proof (induction "10 :: nat" n rule: nat_to_base.induct)
  case (1 n)
  show ?case
  proof (cases "n < 10")
    case True
    then show ?thesis
      by (subst nat_to_base.simps) (simp add: digit_char_props)
  next
    case False
    then have eq: "dec n = dec (n div 10) @ [digit_char (n mod 10)]"
      by (subst nat_to_base.simps) simp
    from 1 False have "digits_value 0 (dec (n div 10)) = n div 10" by simp
    then show ?thesis
      by (simp add: eq digits_value_append dec_digits digit_char_props)
  qed
qed

lemma isdigit_not_special:
  assumes "isdigit c"
  shows "c \<noteq> NUL" "c \<noteq> CR" "c \<noteq> LF" "c \<noteq> CHR '':''" "c \<noteq> CHR ''/''" "c \<noteq> CHR ''.''"
    "c \<noteq> CHR '' ''" "c \<noteq> CHR '',''" "c \<noteq> CHR ''-''"
  using assms by (auto simp: isdigit_def)

lemma NUL_dec [simp]: "NUL \<notin> set (dec n)"
  using dec_digits isdigit_not_special(1) by blast

lemma dec_inj [simp]: "dec m = dec n \<longleftrightarrow> m = n"
  by (metis digits_value_dec)

lemma atol_dec: "n < 2 ^ 63 \<Longrightarrow> atol (dec n) = n"
  by (simp add: atol_def)

end
