(* ===== verification/Basis.thy ===== *)
theory Basis
  imports Prelude
begin

text \<open>
  \<open>coffee.basis\<close>: rendering of values as text (\<open>AsString\<close>, \<open>AsHexString\<close>,
  \<open>StreamString\<close>), the exception classes, \<open>DataBlock\<close>, \<open>NamedObject\<close>,
  \<open>Average<long>\<close> and \<open>Semaphore\<close>.  The \<open>%f\<close> and \<open>%e\<close> renderings of the floating point
  types are those of the C library and stay outside the model.
\<close>

section \<open>AsString and AsHexString\<close>

type_synonym cint = "32 word"
type_synonym cuint = "32 word"
type_synonym clong = "64 word"
type_synonym culong = "64 word"

definition as_string_int :: "cint \<Rightarrow> string" where
  "as_string_int n = int_to_string (sint n)"

definition as_string_uint :: "cuint \<Rightarrow> string" where
  "as_string_uint n = dec (unat n)"

definition as_string_int64 :: "clong \<Rightarrow> string" where
  "as_string_int64 n = int_to_string (sint n)"

definition as_string_uint64 :: "culong \<Rightarrow> string" where
  "as_string_uint64 n = dec (unat n)"

definition as_string_bool :: "bool \<Rightarrow> string" where
  "as_string_bool b = (if b then ''true'' else ''false'')"

definition as_string_seconds :: "clong \<Rightarrow> string" where
  "as_string_seconds v = as_string_int64 v @ '' sec''"

definition as_string_milliseconds :: "clong \<Rightarrow> string" where
  "as_string_milliseconds v = as_string_int64 v @ '' ms''"

definition as_string_microseconds :: "clong \<Rightarrow> string" where
  "as_string_microseconds v = as_string_int64 v @ '' us''"

definition as_hex_int :: "cint \<Rightarrow> string" where
  "as_hex_int n = ''0x'' @ hex (unat n)"

definition as_hex_uint :: "cuint \<Rightarrow> string" where
  "as_hex_uint n = ''0x'' @ hex (unat n)"

definition as_hex_int64 :: "clong \<Rightarrow> string" where
  "as_hex_int64 n = ''0x'' @ hex (unat n)"

definition as_hex_uint64 :: "culong \<Rightarrow> string" where
  "as_hex_uint64 n = ''0x'' @ hex (unat n)"

text \<open>
  The dump of a data block.  Each line starts with \<open>sprintf (aux, "%4zd: ", i)\<close> into an
  8-byte buffer, and each byte is \<open>sprintf (aux, "%02x ", c)\<close>.  A formatted text that does
  not fit the buffer with its terminator is a buffer overrun, for which the model has no
  result (\<open>None\<close>).
\<close>

definition pad_left :: "nat \<Rightarrow> char \<Rightarrow> string \<Rightarrow> string" where
  "pad_left w c s = replicate (w - length s) c @ s"

definition aux_size :: nat where "aux_size = 8"

definition sprintf_aux :: "string \<Rightarrow> string option" where
  "sprintf_aux s = (if length s < aux_size then Some s else None)"

definition line_header :: "nat \<Rightarrow> string option" where
  "line_header i = sprintf_aux (pad_left 4 CHR '' '' (dec i) @ '': '')"

definition hex_byte :: "char \<Rightarrow> string option" where
  "hex_byte c = sprintf_aux (pad_left 2 CHR ''0'' (hex (ord c)) @ '' '')"

definition printable :: "char \<Rightarrow> char" where
  "printable c = (if isprint c then c else CHR ''.'')"

text \<open>
  The loop over the bytes, with the accumulated \<open>result\<close>, \<open>numbers\<close> and \<open>characters\<close>;
  \<open>i\<close> is the index of the next byte.
\<close>

fun dump_loop :: "nat \<Rightarrow> nat \<Rightarrow> string \<Rightarrow> string \<Rightarrow> string \<Rightarrow> string \<Rightarrow> (string \<times> string \<times> string) option" where
  "dump_loop perLine i [] result numbers characters = Some (result, numbers, characters)"
| "dump_loop perLine i (c # cs) result numbers characters =
     (let newline = (i mod perLine = 0);
          result' = (if newline \<and> i > 0 then result @ [LF] @ numbers @ '' '' @ characters else result);
          characters' = (if newline \<and> i > 0 then [] else characters)
      in case (if newline then line_header i else Some numbers) of
           None \<Rightarrow> None
         | Some numbers' \<Rightarrow>
             (case hex_byte c of
                None \<Rightarrow> None
              | Some h \<Rightarrow>
                  dump_loop perLine (Suc i) cs result' (numbers' @ h) (characters' @ [printable c])))"

definition as_string_datablock :: "nat \<Rightarrow> string \<Rightarrow> string option" where
  "as_string_datablock perLine block =
     (if block = [] then Some ''<null>''
      else case dump_loop perLine 0 block '' ():'' [] [] of
             None \<Rightarrow> None
           | Some (result, numbers, characters) \<Rightarrow>
               (let fill = (perLine - length block mod perLine) mod perLine
                in Some (result @ [LF] @ numbers @ concat (replicate fill ''   '') @ ''  '' @ characters)))"

subsection \<open>When the dump is safe\<close>

lemma length_base_le:
  "1 < b \<Longrightarrow> n < b ^ k \<Longrightarrow> 0 < k \<Longrightarrow> length (nat_to_base b n) \<le> k"
proof (induction k arbitrary: n)
  case 0
  then show ?case by simp
next
  case (Suc k)
  show ?case
  proof (cases "n < b")
    case True
    then show ?thesis by (subst nat_to_base.simps) simp
  next
    case False
    have "n div b < b ^ k"
      using Suc.prems by (simp add: less_mult_imp_div_less mult.commute)
    moreover have "0 < k"
      using False Suc.prems by (cases k) auto
    ultimately have "length (nat_to_base b (n div b)) \<le> k"
      using Suc.IH Suc.prems(1) by blast
    with False Suc.prems(1) show ?thesis by (subst nat_to_base.simps) simp
  qed
qed

lemma length_base_ge:
  "1 < b \<Longrightarrow> b ^ k \<le> n \<Longrightarrow> Suc k \<le> length (nat_to_base b n)"
proof (induction k arbitrary: n)
  case 0
  then show ?case by (cases "nat_to_base b n") auto
next
  case (Suc k)
  then have ge: "b \<le> n"
    by (metis One_nat_def Suc_lessD le_trans mult_le_mono2 nat_mult_1_right one_le_power
        order_less_imp_le power_Suc)
  have "b ^ k \<le> n div b"
    using Suc.prems by (simp add: less_eq_div_iff_mult_less_eq mult.commute)
  then have "Suc k \<le> length (nat_to_base b (n div b))"
    using Suc.IH Suc.prems(1) by blast
  with ge Suc.prems(1) show ?case by (subst nat_to_base.simps) simp
qed

lemma hex_byte_fits: "hex_byte c \<noteq> None"
proof -
  have "ord c < 16 ^ 2" using ord_less_256 [of c] by simp
  then have "length (hex (ord c)) \<le> 2" using length_base_le [of 16 "ord c" 2] by simp
  then show ?thesis by (simp add: hex_byte_def sprintf_aux_def pad_left_def aux_size_def)
qed

definition index_limit :: nat where "index_limit = 100000"

lemma line_header_fits: "line_header i \<noteq> None \<longleftrightarrow> i < index_limit"
proof -
  have "i < 100000 \<Longrightarrow> length (dec i) \<le> 5" using length_base_le [of 10 i 5] by simp
  moreover have "\<not> i < 100000 \<Longrightarrow> 6 \<le> length (dec i)" using length_base_ge [of 10 5 i] by simp
  moreover have "length (pad_left 4 CHR '' '' (dec i) @ '': '') < aux_size \<longleftrightarrow> length (dec i) < 6"
    by (simp add: pad_left_def aux_size_def) arith
  ultimately show ?thesis
    by (cases "i < 100000") (auto simp: line_header_def sprintf_aux_def index_limit_def)
qed

definition headers_fit :: "nat \<Rightarrow> nat \<Rightarrow> nat \<Rightarrow> bool" where
  "headers_fit perLine i n \<longleftrightarrow> (\<forall>j. i \<le> j \<and> j < i + n \<and> j mod perLine = 0 \<longrightarrow> j < index_limit)"

lemma headers_fit_Suc:
  "headers_fit perLine i (Suc n) \<longleftrightarrow>
     (i mod perLine = 0 \<longrightarrow> i < index_limit) \<and> headers_fit perLine (Suc i) n"
  (is "?all \<longleftrightarrow> ?first \<and> ?rest")
proof
  assume ?all
  then have all: "\<And>j. i \<le> j \<Longrightarrow> j < i + Suc n \<Longrightarrow> j mod perLine = 0 \<Longrightarrow> j < index_limit"
    by (simp add: headers_fit_def)
  have ?first using all [of i] by simp
  moreover have ?rest
    unfolding headers_fit_def using all by (metis Suc_leD add_Suc add_Suc_right)
  ultimately show "?first \<and> ?rest" by blast
next
  assume r: "?first \<and> ?rest"
  show ?all
    unfolding headers_fit_def
  proof (intro allI impI)
    fix j
    assume j: "i \<le> j \<and> j < i + Suc n \<and> j mod perLine = 0"
    show "j < index_limit"
    proof (cases "j = i")
      case True
      with r j show ?thesis by simp
    next
      case False
      with j have "Suc i \<le> j \<and> j < Suc i + n \<and> j mod perLine = 0" by simp
      with r show ?thesis by (simp add: headers_fit_def)
    qed
  qed
qed

lemma dump_loop_safe:
  "dump_loop perLine i cs r n ch \<noteq> None \<longleftrightarrow> headers_fit perLine i (length cs)"
proof (induction cs arbitrary: i r n ch)
  case Nil
  then show ?case by (simp add: headers_fit_def)
next
  case (Cons c cs)
  obtain h where h: "hex_byte c = Some h" using hex_byte_fits by blast
  show ?case
  proof (cases "i mod perLine = 0")
    case False
    then show ?thesis by (simp add: h headers_fit_Suc Cons.IH del: not_None_eq)
  next
    case True
    show ?thesis
    proof (cases "line_header i")
      case None
      then have "\<not> i < index_limit" using line_header_fits by blast
      with None True show ?thesis by (simp add: headers_fit_Suc)
    next
      case (Some hd')
      then have "i < index_limit" using line_header_fits by blast
      with Some True h show ?thesis
        by (simp add: headers_fit_Suc Cons.IH Let_def del: not_None_eq)
    qed
  qed
qed

lemma headers_fit_16: "headers_fit 16 0 n \<longleftrightarrow> n \<le> 100000"
proof
  assume fit: "headers_fit 16 0 n"
  have "(100000 :: nat) mod 16 = 0" by simp
  with fit show "n \<le> 100000"
    unfolding headers_fit_def index_limit_def
    by (metis add_0 le0 less_irrefl linorder_not_less)
next
  assume "n \<le> 100000"
  then show "headers_fit 16 0 n"
    unfolding headers_fit_def index_limit_def by auto
qed

lemma as_string_datablock_safe:
  "as_string_datablock perLine block \<noteq> None \<longleftrightarrow> headers_fit perLine 0 (length block)"
proof (cases "block = []")
  case True
  then show ?thesis by (simp add: as_string_datablock_def headers_fit_def)
next
  case False
  then have "as_string_datablock perLine block \<noteq> None \<longleftrightarrow>
      dump_loop perLine 0 block '' ():'' [] [] \<noteq> None"
    by (auto simp: as_string_datablock_def Let_def split: option.splits)
  then show ?thesis by (simp only: dump_loop_safe)
qed

section \<open>StreamString\<close>

record stream_string =
  chars :: string
  show_null :: bool

definition stream_string :: "string option \<Rightarrow> bool \<Rightarrow> stream_string" where
  "stream_string str flag =
     \<lparr>chars = (case str of None \<Rightarrow> (if flag then ''<null>'' else []) | Some s \<Rightarrow> s), show_null = flag\<rparr>"

definition put_char :: "stream_string \<Rightarrow> char \<Rightarrow> stream_string" where
  "put_char ss c = ss\<lparr>chars := chars ss @ [c]\<rparr>"

definition put_cstring :: "stream_string \<Rightarrow> string option \<Rightarrow> stream_string" where
  "put_cstring ss vv =
     (case vv of
        None \<Rightarrow> (if show_null ss then ss\<lparr>chars := chars ss @ ''<null>''\<rparr> else ss)
      | Some s \<Rightarrow> ss\<lparr>chars := chars ss @ c_str s\<rparr>)"

definition put_string :: "stream_string \<Rightarrow> string \<Rightarrow> stream_string" where
  "put_string ss s = ss\<lparr>chars := chars ss @ s\<rparr>"

definition put_int :: "stream_string \<Rightarrow> cint \<Rightarrow> stream_string" where
  "put_int ss n = put_string ss (as_string_int n)"

definition put_uint :: "stream_string \<Rightarrow> cuint \<Rightarrow> stream_string" where
  "put_uint ss n = put_string ss (as_string_uint n)"

definition put_bool :: "stream_string \<Rightarrow> bool \<Rightarrow> stream_string" where
  "put_bool ss b = put_string ss (as_string_bool b)"

definition put_int64 :: "stream_string \<Rightarrow> clong \<Rightarrow> stream_string" where
  "put_int64 ss n = put_string ss (as_string_int64 n)"

definition put_uint64 :: "stream_string \<Rightarrow> culong \<Rightarrow> stream_string" where
  "put_uint64 ss n = put_string ss (as_string_uint64 n)"

definition put_microseconds :: "stream_string \<Rightarrow> clong \<Rightarrow> stream_string" where
  "put_microseconds ss n = put_string ss (as_string_microseconds n)"

definition put_milliseconds :: "stream_string \<Rightarrow> clong \<Rightarrow> stream_string" where
  "put_milliseconds ss n = put_string ss (as_string_milliseconds n)"

definition put_seconds :: "stream_string \<Rightarrow> clong \<Rightarrow> stream_string" where
  "put_seconds ss n = put_string ss (as_string_seconds n)"

definition to_upper :: "stream_string \<Rightarrow> stream_string" where
  "to_upper ss = ss\<lparr>chars := map toupper (chars ss)\<rparr>"

definition to_lower :: "stream_string \<Rightarrow> stream_string" where
  "to_lower ss = ss\<lparr>chars := map tolower (chars ss)\<rparr>"

text \<open>The assignment operators clear the text first and keep the flags.\<close>

definition assign_int :: "stream_string \<Rightarrow> cint \<Rightarrow> stream_string" where
  "assign_int ss n = put_int (ss\<lparr>chars := []\<rparr>) n"

definition assign_cstring :: "stream_string \<Rightarrow> string option \<Rightarrow> stream_string" where
  "assign_cstring ss vv = put_cstring (ss\<lparr>chars := []\<rparr>) vv"

section \<open>NamedObject and the exceptions\<close>

definition named_as_string :: "string \<Rightarrow> string" where
  "named_as_string name = ''basis.NamedObject {Name='' @ name @ ''}''"

definition is_equal_name :: "string \<Rightarrow> string \<Rightarrow> bool" where
  "is_equal_name a b = (a = b)"

definition remove_path_before_coffee :: "string \<Rightarrow> string" where
  "remove_path_before_coffee path =
     (case index_of_str ''/coffee/'' path of None \<Rightarrow> path | Some i \<Rightarrow> drop (i + 1) path)"

record throw_site =
  from_method :: string
  from_file :: string
  from_line :: cuint

definition throw_at :: "string \<Rightarrow> string \<Rightarrow> cuint \<Rightarrow> throw_site" where
  "throw_at method file line =
     \<lparr>from_method = method, from_file = remove_path_before_coffee file, from_line = line\<rparr>"

definition file_position :: "throw_site \<Rightarrow> string" where
  "file_position t =
     ''['' @ from_file t @ ''('' @ as_string_uint (from_line t) @ ''): '' @ from_method t @ ''] ''"

definition null_error_code :: cint where "null_error_code = -1"

definition runtime_exception_as_string :: "throw_site \<Rightarrow> cint \<Rightarrow> string \<Rightarrow> string" where
  "runtime_exception_as_string t code text =
     file_position t
     @ (if code \<noteq> null_error_code then ''ErrorCode: '' @ as_string_int code @ '' | '' else [])
     @ text"

section \<open>DataBlock\<close>

definition datablock_at :: "string \<Rightarrow> nat \<Rightarrow> char outcome" where
  "datablock_at block index =
     (if index \<ge> length block
      then Inl (RuntimeException (''Index '' @ dec index @ '' out of range [0,'' @ dec (length block) @ '')''))
      else Inr (block ! index))"

text \<open>The writable \<open>at\<close>: the position the returned reference names is overwritten.\<close>

definition datablock_set :: "string \<Rightarrow> nat \<Rightarrow> char \<Rightarrow> string outcome" where
  "datablock_set block index c =
     (if index \<ge> length block
      then Inl (RuntimeException (''Index '' @ dec index @ '' out of range [0,'' @ dec (length block) @ '')''))
      else Inr (block[index := c]))"

section \<open>Average of long samples\<close>

text \<open>
  \<open>Average<long>\<close>, the instance the statements use for their elapsed times.  The sum is a
  64-bit signed word with the usual wrap-around (the code detects the wrap by comparing
  with the value before the addition), the counter a 32-bit unsigned word.
\<close>

record average =
  accumulator :: clong
  samples :: cuint

definition average_new :: average where
  "average_new = \<lparr>accumulator = 0, samples = 0\<rparr>"

definition average_is_empty :: "average \<Rightarrow> bool" where
  "average_is_empty a = (samples a = 0)"

definition average_is_zero :: "average \<Rightarrow> bool" where
  "average_is_zero a = (samples a = 0 \<or> accumulator a = 0)"

definition trunc_div :: "int \<Rightarrow> int \<Rightarrow> int" where
  "trunc_div a b = sgn a * sgn b * (\<bar>a\<bar> div \<bar>b\<bar>)"

definition average_value :: "average \<Rightarrow> clong" where
  "average_value a =
     (if average_is_empty a then 0
      else word_of_int (trunc_div (sint (accumulator a)) (uint (samples a))))"

definition average_set_value :: "clong \<Rightarrow> cuint \<Rightarrow> average" where
  "average_set_value v n = \<lparr>accumulator = v, samples = n\<rparr>"

definition average_assign :: "clong \<Rightarrow> average" where
  "average_assign v = \<lparr>accumulator = v, samples = 1\<rparr>"

definition average_add :: "average \<Rightarrow> clong \<Rightarrow> average" where
  "average_add a v =
     (let sum = accumulator a + v
      in if sum <s accumulator a then \<lparr>accumulator = v, samples = 1\<rparr>
         else \<lparr>accumulator = sum, samples = samples a + 1\<rparr>)"

definition average_sub :: "average \<Rightarrow> clong \<Rightarrow> average" where
  "average_sub a v =
     (if v <s accumulator a \<and> samples a > 1
      then \<lparr>accumulator = accumulator a - v, samples = samples a - 1\<rparr>
      else \<lparr>accumulator = 0, samples = 0\<rparr>)"

definition average_as_string :: "string \<Rightarrow> string \<Rightarrow> average \<Rightarrow> string" where
  "average_as_string name measureName a =
     (let unit = (if measureName = [] then [] else '' '' @ measureName)
      in name @ '' { Accumulator:'' @ as_string_int64 (accumulator a) @ unit
         @ '' | N='' @ as_string_uint (samples a)
         @ '' | Value='' @ as_string_int64 (average_value a) @ unit @ '' }'')"

section \<open>Semaphore\<close>

text \<open>
  \<open>wait\<close> returns once the counter is not zero, and leaves it as it is; \<open>None\<close> is a
  call that blocks.  \<open>signal\<close> increments the counter.
\<close>

type_synonym semaphore = cint

definition sem_wait :: "semaphore \<Rightarrow> semaphore option" where
  "sem_wait counter = (if counter = 0 then None else Some counter)"

definition sem_signal :: "semaphore \<Rightarrow> semaphore" where
  "sem_signal counter = counter + 1"

end
