(* ===== verification/LruCache.thy ===== *)
theory LruCache
  imports Basis "HOL-Library.AList"
begin

text \<open>
  \<open>basis/pattern/lru/Cache.hpp\<close>.  The class keeps two structures: \<open>m_values\<close>, a
  \<open>std::list\<close> of pairs from the least to the most recently used, and \<open>m_quickAccess\<close>, a
  hash table from keys to iterators of that list.  A list iterator is modelled by the
  identity of the list node it points to: a node is created with a fresh identity and
  keeps it until it is erased.  Keys are compared with \<open>=\<close> (\<open>std::equal_to\<close>).

  Dereferencing an iterator whose node is gone, or taking the front of an empty list, is
  undefined behaviour: such an operation has no result (\<open>None\<close>).  The invariant below
  rules both out, except for a cache of capacity zero.
\<close>

record ('k, 'v) cache =
  max_size :: cint
  pairs :: "(nat \<times> 'k \<times> 'v) list"
  quick_access :: "('k \<times> nat) list"
  next_node :: nat

definition cache_new :: "cint \<Rightarrow> ('k, 'v) cache" where
  "cache_new maxSize = \<lparr>max_size = maxSize, pairs = [], quick_access = [], next_node = 0\<rparr>"

text \<open>\<open>size_t == int\<close>: the \<open>int\<close> is converted to the 64-bit unsigned type.\<close>

definition as_size :: "cint \<Rightarrow> nat" where
  "as_size n = unat (scast n :: 64 word)"

definition cache_size :: "('k, 'v) cache \<Rightarrow> nat" where
  "cache_size c = length (quick_access c)"

definition kkvv :: "('k, 'v) cache \<Rightarrow> nat \<Rightarrow> ('k \<times> 'v) option" where
  "kkvv c node = map_of (pairs c) node"

definition cache_key :: "('k, 'v) cache \<Rightarrow> nat \<Rightarrow> 'k option" where
  "cache_key c node = map_option fst (kkvv c node)"

definition cache_value :: "('k, 'v) cache \<Rightarrow> nat \<Rightarrow> 'v option" where
  "cache_value c node = map_option snd (kkvv c node)"

definition last_value :: "('k, 'v) cache \<Rightarrow> nat option" where
  "last_value c = (if pairs c = [] then None else Some (fst (last (pairs c))))"

definition erase_node :: "nat \<Rightarrow> (nat \<times> 'k \<times> 'v) list \<Rightarrow> (nat \<times> 'k \<times> 'v) list" where
  "erase_node node ps = filter (\<lambda>p. fst p \<noteq> node) ps"

definition push_back :: "'k \<Rightarrow> 'v \<Rightarrow> ('k, 'v) cache \<Rightarrow> ('k, 'v) cache" where
  "push_back k v c = c\<lparr>pairs := pairs c @ [(next_node c, k, v)], next_node := Suc (next_node c)\<rparr>"

text \<open>\<open>updateAccess\<close> gets the entry of the hash table, here the key and its iterator.\<close>

definition update_access :: "'k \<Rightarrow> nat \<Rightarrow> ('k, 'v) cache \<Rightarrow> (('k, 'v) cache \<times> nat) option" where
  "update_access k node c =
     (if last_value c = Some node then Some (c, node)
      else case kkvv c node of
             None \<Rightarrow> None
           | Some (bk, bv) \<Rightarrow>
               (let c1 = c\<lparr>pairs := erase_node node (pairs c)\<rparr>;
                    c2 = push_back bk bv c1;
                    new = next_node c1
                in Some (c2\<lparr>quick_access := AList.update k new (quick_access c2)\<rparr>, new)))"

text \<open>\<open>find\<close>: the iterator of the pair, or \<open>end()\<close>, which is \<open>None\<close> inside the result.\<close>

definition cache_find :: "'k \<Rightarrow> ('k, 'v) cache \<Rightarrow> (('k, 'v) cache \<times> nat option) option" where
  "cache_find k c =
     (case map_of (quick_access c) k of
        None \<Rightarrow> Some (c, None)
      | Some node \<Rightarrow> map_option (\<lambda>(c', n). (c', Some n)) (update_access k node c))"

definition replace_value :: "nat \<Rightarrow> 'v \<Rightarrow> (nat \<times> 'k \<times> 'v) list \<Rightarrow> (nat \<times> 'k \<times> 'v) list" where
  "replace_value node v ps = map (\<lambda>(n, k, w). (n, k, if n = node then v else w)) ps"

definition cache_set :: "'k \<Rightarrow> 'v \<Rightarrow> ('k, 'v) cache \<Rightarrow> ('k, 'v) cache option" where
  "cache_set k v c =
     (case map_of (quick_access c) k of
        None \<Rightarrow>
          (let full = (cache_size c = as_size (max_size c))
           in if full \<and> pairs c = [] then None
              else
                let c1 = (if full
                          then c\<lparr>pairs := tl (pairs c),
                                 quick_access := AList.delete (fst (snd (hd (pairs c)))) (quick_access c)\<rparr>
                          else c);
                    c2 = push_back k v c1
                in Some (c2\<lparr>quick_access := AList.update k (next_node c1) (quick_access c2)\<rparr>))
      | Some node \<Rightarrow>
          (if kkvv c node = None then None
           else map_option fst
                  (update_access k node (c\<lparr>pairs := replace_value node v (pairs c)\<rparr>))))"

definition cache_erase :: "'k \<Rightarrow> ('k, 'v) cache \<Rightarrow> ('k, 'v) cache \<times> bool" where
  "cache_erase k c =
     (case map_of (quick_access c) k of
        None \<Rightarrow> (c, False)
      | Some node \<Rightarrow>
          (c\<lparr>pairs := erase_node node (pairs c), quick_access := AList.delete k (quick_access c)\<rparr>, True))"

definition cache_as_string :: "('k, 'v) cache \<Rightarrow> string" where
  "cache_as_string c =
     ''pattern.lru.Cache { MaxSize='' @ as_string_int (max_size c)
     @ '' | Size='' @ dec (cache_size c) @ '' }''"

section \<open>The invariant that ties the two structures\<close>

definition cache_inv :: "('k, 'v) cache \<Rightarrow> bool" where
  "cache_inv c \<longleftrightarrow>
     distinct (map fst (pairs c)) \<and>
     distinct (map (\<lambda>p. fst (snd p)) (pairs c)) \<and>
     (\<forall>p \<in> set (pairs c). fst p < next_node c) \<and>
     distinct (map fst (quick_access c)) \<and>
     set (quick_access c) = (\<lambda>(n, k, v). (k, n)) ` set (pairs c)"

text \<open>The specification: an association list in the order of use, oldest first.\<close>

definition recency :: "('k, 'v) cache \<Rightarrow> ('k \<times> 'v) list" where
  "recency c = map snd (pairs c)"

definition touch :: "'k \<Rightarrow> ('k \<times> 'v) list \<Rightarrow> ('k \<times> 'v) list" where
  "touch k xs = (case map_of xs k of
     None \<Rightarrow> xs | Some v \<Rightarrow> filter (\<lambda>p. fst p \<noteq> k) xs @ [(k, v)])"

definition store :: "nat \<Rightarrow> 'k \<Rightarrow> 'v \<Rightarrow> ('k \<times> 'v) list \<Rightarrow> ('k \<times> 'v) list" where
  "store cap k v xs =
     (if k \<in> fst ` set xs then filter (\<lambda>p. fst p \<noteq> k) xs @ [(k, v)]
      else (if length xs = cap then tl xs else xs) @ [(k, v)])"

lemma cache_inv_new: "cache_inv (cache_new m)"
  by (simp add: cache_inv_def cache_new_def)

lemma inv_quick:
  assumes "cache_inv c"
  shows "map_of (quick_access c) k = Some n \<longleftrightarrow> (\<exists>v. (n, k, v) \<in> set (pairs c))"
proof -
  have "map_of (quick_access c) k = Some n \<longleftrightarrow> (k, n) \<in> set (quick_access c)"
    using assms by (simp add: cache_inv_def)
  also have "\<dots> \<longleftrightarrow> (\<exists>v. (n, k, v) \<in> set (pairs c))"
    using assms by (force simp: cache_inv_def)
  finally show ?thesis .
qed

lemma inv_kkvv:
  assumes "cache_inv c"
  shows "kkvv c n = Some (k, v) \<longleftrightarrow> (n, k, v) \<in> set (pairs c)"
  using assms by (simp add: cache_inv_def kkvv_def)

lemma recency_keys: "fst ` set (recency c) = (\<lambda>p. fst (snd p)) ` set (pairs c)"
  by (simp add: recency_def image_image)

lemma inv_distinct_recency: "cache_inv c \<Longrightarrow> distinct (map fst (recency c))"
  by (simp add: cache_inv_def recency_def comp_def)

lemma map_of_recency:
  assumes "cache_inv c"
  shows "map_of (recency c) k = Some v \<longleftrightarrow> (\<exists>n. (n, k, v) \<in> set (pairs c))"
  using inv_distinct_recency [OF assms] by (force simp: recency_def)

lemma inv_quick_recency:
  assumes "cache_inv c"
  shows "map_of (quick_access c) k = None \<longleftrightarrow> map_of (recency c) k = None"
  using inv_quick [OF assms, of k] map_of_recency [OF assms, of k]
  by (metis not_None_eq)

lemma inv_same_node:
  assumes "cache_inv c" "(n, k, v) \<in> set (pairs c)"
  shows "(m, k, w) \<in> set (pairs c) \<Longrightarrow> m = n \<and> w = v"
    and "(n, j, w) \<in> set (pairs c) \<Longrightarrow> j = k \<and> w = v"
  using assms unfolding cache_inv_def
  by (force simp: distinct_map inj_on_def)+

lemma same_node_key:
  assumes "cache_inv c" "(n, k, v) \<in> set (pairs c)" "p \<in> set (pairs c)"
  shows "fst (snd p) \<noteq> k \<longleftrightarrow> fst p \<noteq> n"
proof (cases p)
  case (fields m j w)
  with assms show ?thesis
    using inv_same_node(1) [OF assms(1,2), of m w] inv_same_node(2) [OF assms(1,2), of j w] by auto
qed

lemma erase_node_recency:
  assumes "cache_inv c" "(n, k, v) \<in> set (pairs c)"
  shows "map snd (erase_node n (pairs c)) = filter (\<lambda>p. fst p \<noteq> k) (recency c)"
proof -
  have "filter (\<lambda>p. fst p \<noteq> n) (pairs c) = filter (\<lambda>p. fst (snd p) \<noteq> k) (pairs c)"
    by (simp add: same_node_key [OF assms] cong: filter_cong)
  then show ?thesis
    by (simp add: erase_node_def recency_def filter_map comp_def)
qed

lemma update_fresh: "k \<notin> fst ` set q \<Longrightarrow> AList.update k x q = q @ [(k, x)]"
  by (induction q) auto

lemma set_update:
  "distinct (map fst q) \<Longrightarrow>
   set (AList.update k x q) = insert (k, x) (set (filter (\<lambda>p. fst p \<noteq> k) q))"
proof (induction q)
  case Nil
  then show ?case by simp
next
  case (Cons p q)
  show ?case
  proof (cases "fst p = k")
    case True
    with Cons.prems have "k \<notin> fst ` set q" by auto
    then have "filter (\<lambda>p. fst p \<noteq> k) q = q" by (intro filter_True) auto
    with True show ?thesis by (cases p) simp
  next
    case False
    with Cons show ?thesis by (cases p) auto
  qed
qed

lemma set_delete: "set (AList.delete k q) = {x \<in> set q. fst x \<noteq> k}"
  by (auto simp: AList.delete_eq)

lemma update_delete_set:
  "distinct (map fst q) \<Longrightarrow>
   set (AList.update k x (AList.delete k q)) = set (AList.update k x q)"
  by (simp add: set_update AList.distinct_delete set_delete)

text \<open>Erasing a node and appending a fresh one keeps the two structures in step.\<close>

lemma inv_erase:
  assumes "cache_inv c" "(n, k, v) \<in> set (pairs c)"
  shows "cache_inv (c\<lparr>pairs := erase_node n (pairs c), quick_access := AList.delete k (quick_access c)\<rparr>)"
proof -
  have q: "set (quick_access c) = (\<lambda>(n, k, v). (k, n)) ` set (pairs c)"
    using assms(1) by (simp add: cache_inv_def)
  have "set (AList.delete k (quick_access c)) = {x \<in> set (quick_access c). fst x \<noteq> k}"
    by (rule set_delete)
  also have "\<dots> = (\<lambda>(n, k, v). (k, n)) ` {p \<in> set (pairs c). fst (snd p) \<noteq> k}"
    unfolding q by force
  also have "{p \<in> set (pairs c). fst (snd p) \<noteq> k} = {p \<in> set (pairs c). fst p \<noteq> n}"
    using same_node_key [OF assms] by blast
  finally have "set (AList.delete k (quick_access c)) =
      (\<lambda>(n, k, v). (k, n)) ` set (erase_node n (pairs c))"
    by (simp add: erase_node_def)
  moreover have "distinct (map fst (AList.delete k (quick_access c)))"
    using assms(1) by (simp add: cache_inv_def AList.distinct_delete)
  moreover have "distinct (map fst (erase_node n (pairs c)))"
    "distinct (map (\<lambda>p. fst (snd p)) (erase_node n (pairs c)))"
    using assms(1) by (simp_all add: cache_inv_def erase_node_def distinct_map_filter)
  moreover have "\<forall>p \<in> set (erase_node n (pairs c)). fst p < next_node c"
    using assms(1) by (simp add: cache_inv_def erase_node_def)
  ultimately show ?thesis by (simp add: cache_inv_def)
qed

lemma inv_push:
  assumes "cache_inv c" "k \<notin> fst ` set (recency c)"
  shows "cache_inv ((push_back k v c)\<lparr>quick_access := AList.update k (next_node c) (quick_access c)\<rparr>)"
proof -
  have fresh: "k \<notin> fst ` set (quick_access c)"
  proof
    assume "k \<in> fst ` set (quick_access c)"
    then obtain n where "(k, n) \<in> set (quick_access c)" by auto
    then obtain v where "(n, k, v) \<in> set (pairs c)"
      using assms(1) by (force simp: cache_inv_def)
    then show False using assms(2) by (force simp: recency_keys)
  qed
  have new: "next_node c \<notin> fst ` set (pairs c)"
    using assms(1) by (auto simp: cache_inv_def)
  have "distinct (map (\<lambda>p. fst (snd p)) (pairs c @ [(next_node c, k, v)]))"
    using assms by (simp add: cache_inv_def recency_keys)
  moreover have "distinct (map fst (pairs c @ [(next_node c, k, v)]))"
    using assms(1) new by (simp add: cache_inv_def)
  moreover have "distinct (map fst (quick_access c @ [(k, next_node c)]))"
    using assms(1) fresh by (simp add: cache_inv_def)
  moreover have "\<forall>p \<in> set (pairs c @ [(next_node c, k, v)]). fst p < Suc (next_node c)"
    using assms(1) by (auto simp: cache_inv_def)
  ultimately show ?thesis
    using assms(1) by (simp add: cache_inv_def push_back_def update_fresh [OF fresh])
qed

lemma recency_push: "recency ((push_back k v c)\<lparr>quick_access := q\<rparr>) = recency c @ [(k, v)]"
  by (simp add: recency_def push_back_def)

text \<open>The invariant and the specification depend on neither the capacity nor the hash order.\<close>

lemma filter_replace:
  "\<forall>p \<in> set ps. fst (snd p) \<noteq> k \<longrightarrow> fst p \<noteq> n \<Longrightarrow>
   map snd (filter (\<lambda>p. fst (snd p) \<noteq> k) (replace_value n v ps)) =
   map snd (filter (\<lambda>p. fst (snd p) \<noteq> k) ps)"
  by (induction ps) (auto simp: replace_value_def)

lemma inv_replace:
  assumes "cache_inv c" "(n, k, u) \<in> set (pairs c)"
  shows "cache_inv (c\<lparr>pairs := replace_value n v (pairs c)\<rparr>)"
    and "(n, k, v) \<in> set (replace_value n v (pairs c))"
    and "filter (\<lambda>p. fst p \<noteq> k) (recency (c\<lparr>pairs := replace_value n v (pairs c)\<rparr>)) =
         filter (\<lambda>p. fst p \<noteq> k) (recency c)"
proof -
  have nodes: "map fst (replace_value n v (pairs c)) = map fst (pairs c)"
    and keys: "map (\<lambda>p. fst (snd p)) (replace_value n v (pairs c)) = map (\<lambda>p. fst (snd p)) (pairs c)"
    by (simp_all add: replace_value_def case_prod_beta comp_def)
  have "(\<lambda>(n, k, w). (k, n)) ` set (replace_value n v (pairs c)) = (\<lambda>(n, k, w). (k, n)) ` set (pairs c)"
    by (simp add: replace_value_def image_image case_prod_beta)
  moreover have "\<forall>p \<in> set (replace_value n v (pairs c)). fst p < next_node c"
    using assms(1) by (auto simp: cache_inv_def replace_value_def)
  ultimately show "cache_inv (c\<lparr>pairs := replace_value n v (pairs c)\<rparr>)"
    using assms(1) nodes keys by (simp add: cache_inv_def)
  show "(n, k, v) \<in> set (replace_value n v (pairs c))"
    using assms(2) by (force simp: replace_value_def)
  have "map snd (filter (\<lambda>p. fst (snd p) \<noteq> k) (replace_value n v (pairs c))) =
      map snd (filter (\<lambda>p. fst (snd p) \<noteq> k) (pairs c))"
    by (rule filter_replace) (simp add: same_node_key [OF assms])
  then show "filter (\<lambda>p. fst p \<noteq> k) (recency (c\<lparr>pairs := replace_value n v (pairs c)\<rparr>)) =
         filter (\<lambda>p. fst p \<noteq> k) (recency c)"
    by (simp add: recency_def filter_map comp_def)
qed

section \<open>The operations refine the specification\<close>

lemma update_access_refines:
  assumes "cache_inv c" "(n, k, v) \<in> set (pairs c)"
  obtains c' m where "update_access k n c = Some (c', m)" "cache_inv c'"
    "recency c' = filter (\<lambda>p. fst p \<noteq> k) (recency c) @ [(k, v)]"
    "max_size c' = max_size c" "(m, k, v) \<in> set (pairs c')"
proof (cases "last_value c = Some n")
  case True
  then have ne: "pairs c \<noteq> []" and l: "fst (last (pairs c)) = n"
    by (auto simp: last_value_def split: if_splits)
  have "last (pairs c) = (n, k, v)"
    using inv_same_node(2) [OF assms] l ne last_in_set [OF ne] by (cases "last (pairs c)") auto
  then have rec: "recency c = map snd (butlast (pairs c)) @ [(k, v)]"
    using ne by (simp add: recency_def) (metis append_butlast_last_id list.simps(8,9) map_append snd_conv)
  have "k \<notin> fst ` set (map snd (butlast (pairs c)))"
    using inv_distinct_recency [OF assms(1)] unfolding rec by (simp del: map_map)
  then have "filter (\<lambda>p. fst p \<noteq> k) (map snd (butlast (pairs c))) = map snd (butlast (pairs c))"
    by (intro filter_True) auto
  then have "recency c = filter (\<lambda>p. fst p \<noteq> k) (recency c) @ [(k, v)]"
    by (simp add: rec)
  then show ?thesis
    using True assms by (intro that [of c n]) (simp_all add: update_access_def)
next
  case False
  let ?e = "c\<lparr>pairs := erase_node n (pairs c), quick_access := AList.delete k (quick_access c)\<rparr>"
  let ?r = "(push_back k v (c\<lparr>pairs := erase_node n (pairs c)\<rparr>))
      \<lparr>quick_access := AList.update k (next_node c) (quick_access c)\<rparr>"
  have step: "update_access k n c = Some (?r, next_node c)"
    using False inv_kkvv [OF assms(1), of n k v] assms(2)
    by (simp add: update_access_def push_back_def Let_def)
  have e: "cache_inv ?e" by (rule inv_erase [OF assms])
  have re: "recency ?e = filter (\<lambda>p. fst p \<noteq> k) (recency c)"
    using erase_node_recency [OF assms] by (simp add: recency_def)
  have "cache_inv ((push_back k v ?e)\<lparr>quick_access := AList.update k (next_node ?e) (quick_access ?e)\<rparr>)"
    by (rule inv_push [OF e]) (auto simp: re)
  then have "cache_inv ?r"
    using assms(1) by (simp add: cache_inv_def push_back_def AList.distinct_update update_delete_set)
  then show ?thesis
    using step re by (intro that [of ?r "next_node c"]) (simp_all add: recency_def push_back_def)
qed


text \<open>
  \<open>find\<close> gives the stored value and makes its key the most recent one; it never
  dereferences a dead iterator.
\<close>

lemma cache_find_refines:
  assumes "cache_inv c"
  obtains c' r where "cache_find k c = Some (c', r)" "cache_inv c'"
    "recency c' = touch k (recency c)" "max_size c' = max_size c"
    "(case r of None \<Rightarrow> None | Some n \<Rightarrow> cache_value c' n) = map_of (recency c) k"
proof (cases "map_of (quick_access c) k")
  case None
  then have "map_of (recency c) k = None" using inv_quick_recency [OF assms] by simp
  with None show ?thesis
    using assms by (intro that [of c None]) (simp_all add: cache_find_def touch_def)
next
  case (Some n)
  then obtain v where v: "(n, k, v) \<in> set (pairs c)" using inv_quick [OF assms] by auto
  then have r: "map_of (recency c) k = Some v" using map_of_recency [OF assms] by auto
  obtain c' m where u: "update_access k n c = Some (c', m)" "cache_inv c'"
    "recency c' = filter (\<lambda>p. fst p \<noteq> k) (recency c) @ [(k, v)]"
    "max_size c' = max_size c" "(m, k, v) \<in> set (pairs c')"
    using update_access_refines [OF assms v] by metis
  have "cache_value c' m = Some v"
    using inv_kkvv [OF u(2), of m k v] u(5) by (simp add: cache_value_def)
  with u Some r show ?thesis
    by (intro that [of c' "Some m"]) (simp_all add: cache_find_def touch_def)
qed

lemma size_recency: "cache_inv c \<Longrightarrow> cache_size c = length (recency c)"
proof -
  assume inv: "cache_inv c"
  then have d: "distinct (quick_access c)" "distinct (pairs c)"
    by (simp_all add: cache_inv_def distinct_map)
  have "length (quick_access c) = card (set (quick_access c))"
    by (simp add: distinct_card [OF d(1)])
  also have "\<dots> = card ((\<lambda>(n, k, v). (k, n)) ` set (pairs c))"
    using inv by (simp add: cache_inv_def)
  also have "\<dots> = card (set (pairs c))"
    by (intro card_image inj_onI) (auto dest: inv_same_node [OF inv])
  also have "\<dots> = length (pairs c)"
    by (simp add: distinct_card [OF d(2)])
  finally show ?thesis by (simp add: cache_size_def recency_def)
qed

lemma set_tl: "set (tl xs) \<subseteq> set xs"
  by (cases xs) auto

lemma inv_drop_oldest:
  assumes "cache_inv c" "pairs c \<noteq> []"
  shows "cache_inv (c\<lparr>pairs := tl (pairs c),
                      quick_access := AList.delete (fst (snd (hd (pairs c)))) (quick_access c)\<rparr>)"
proof -
  obtain n k v ps where p: "pairs c = (n, k, v) # ps"
    using assms(2) by (metis list.exhaust prod.exhaust)
  have "erase_node n (pairs c) = ps"
  proof -
    have "n \<notin> fst ` set ps" using assms(1) by (auto simp: cache_inv_def p)
    then have "filter (\<lambda>p. fst p \<noteq> n) ps = ps" by (intro filter_True) auto
    then show ?thesis by (simp add: erase_node_def p)
  qed
  then show ?thesis
    using inv_erase [OF assms(1), of n k v] by (simp add: p)
qed

text \<open>
  \<open>set\<close> stores the value as the most recent one, evicting the least recently used pair
  when the cache is full.  Its only undefined case is a cache of capacity zero.
\<close>

lemma cache_set_refines:
  assumes "cache_inv c" "0 < as_size (max_size c)"
  obtains c' where "cache_set k v c = Some c'" "cache_inv c'"
    "recency c' = store (as_size (max_size c)) k v (recency c)" "max_size c' = max_size c"
proof (cases "map_of (quick_access c) k")
  case None
  then have new: "k \<notin> fst ` set (recency c)"
    using inv_quick_recency [OF assms(1), of k] by (simp add: map_of_eq_None_iff)
  note size = size_recency [OF assms(1)]
  show ?thesis
  proof (cases "cache_size c = as_size (max_size c)")
    case False
    with None new size assms show ?thesis
      by (intro that [OF _ inv_push [OF assms(1) new, of v]])
        (simp_all add: cache_set_def Let_def push_back_def store_def recency_def)
  next
    case True
    with assms(2) size have ne: "pairs c \<noteq> []" by (auto simp: recency_def)
    let ?d = "c\<lparr>pairs := tl (pairs c),
                quick_access := AList.delete (fst (snd (hd (pairs c)))) (quick_access c)\<rparr>"
    have d: "cache_inv ?d" by (rule inv_drop_oldest [OF assms(1) ne])
    have rd: "recency ?d = tl (recency c)" by (simp add: recency_def map_tl)
    have "k \<notin> fst ` set (recency ?d)"
      using new set_tl [of "recency c"] unfolding rd by blast
    from inv_push [OF d this, of v] True None ne new size rd show ?thesis
      by (intro that [of "(push_back k v ?d)\<lparr>quick_access := AList.update k (next_node ?d) (quick_access ?d)\<rparr>"])
        (simp_all add: cache_set_def Let_def push_back_def store_def recency_def)
  qed
next
  case (Some n)
  then obtain u where u: "(n, k, u) \<in> set (pairs c)" using inv_quick [OF assms(1)] by auto
  then have ku: "kkvv c n = Some (k, u)" using inv_kkvv [OF assms(1)] by simp
  have kin: "k \<in> fst ` set (recency c)" using u by (force simp: recency_keys)
  let ?c1 = "c\<lparr>pairs := replace_value n v (pairs c)\<rparr>"
  have i: "cache_inv ?c1" and m: "(n, k, v) \<in> set (pairs ?c1)"
    using inv_replace [OF assms(1) u] by simp_all
  obtain c' j where s: "update_access k n ?c1 = Some (c', j)" "cache_inv c'"
    "recency c' = filter (\<lambda>p. fst p \<noteq> k) (recency ?c1) @ [(k, v)]" "max_size c' = max_size ?c1"
    using update_access_refines [OF i m] by metis
  with Some ku kin inv_replace(3) [OF assms(1) u] show ?thesis
    by (intro that [of c']) (simp_all add: cache_set_def store_def)
qed

lemma cache_erase_refines:
  assumes "cache_inv c"
  shows "cache_inv (fst (cache_erase k c))"
    and "recency (fst (cache_erase k c)) = filter (\<lambda>p. fst p \<noteq> k) (recency c)"
    and "snd (cache_erase k c) \<longleftrightarrow> map_of (recency c) k \<noteq> None"
    and "max_size (fst (cache_erase k c)) = max_size c"
proof -
  have "cache_inv (fst (cache_erase k c)) \<and>
    recency (fst (cache_erase k c)) = filter (\<lambda>p. fst p \<noteq> k) (recency c) \<and>
    (snd (cache_erase k c) \<longleftrightarrow> map_of (recency c) k \<noteq> None) \<and>
    max_size (fst (cache_erase k c)) = max_size c"
  proof (cases "map_of (quick_access c) k")
    case None
    then have n: "map_of (recency c) k = None" using inv_quick_recency [OF assms] by simp
    then have "filter (\<lambda>p. fst p \<noteq> k) (recency c) = recency c"
      by (intro filter_True) (auto simp: map_of_eq_None_iff)
    with None n assms show ?thesis by (simp add: cache_erase_def)
  next
    case (Some n)
    then obtain v where v: "(n, k, v) \<in> set (pairs c)" using inv_quick [OF assms] by auto
    then have "map_of (recency c) k = Some v" using map_of_recency [OF assms] by auto
    with Some inv_erase [OF assms v] erase_node_recency [OF assms v] show ?thesis
      by (simp add: cache_erase_def recency_def)
  qed
  then show "cache_inv (fst (cache_erase k c))"
    "recency (fst (cache_erase k c)) = filter (\<lambda>p. fst p \<noteq> k) (recency c)"
    "snd (cache_erase k c) \<longleftrightarrow> map_of (recency c) k \<noteq> None"
    "max_size (fst (cache_erase k c)) = max_size c"
    by simp_all
qed

lemma map_of_without: "map_of (filter (\<lambda>p. fst p \<noteq> k) xs) = (map_of xs)(k := None)"
  by (induction xs) (auto simp: fun_eq_iff)

lemma map_of_snoc: "map_of xs k = None \<Longrightarrow> map_of (xs @ [(k, v)]) = (map_of xs)(k \<mapsto> v)"
  by (auto simp: fun_eq_iff map_add_def split: option.splits)

lemma map_of_touch [simp]: "map_of (touch k xs) = map_of xs"
proof (cases "map_of xs k")
  case (Some v)
  then show ?thesis
    by (simp add: touch_def map_of_snoc map_of_without fun_upd_idem del: map_of_append)
qed (simp add: touch_def)

lemma map_of_store_key [simp]: "map_of (store n k v xs) k = Some v"
proof (cases "k \<in> fst ` set xs")
  case True
  then show ?thesis by (simp add: store_def map_of_snoc map_of_without del: map_of_append)
next
  case False
  have "map_of (if length xs = n then tl xs else xs) k = None"
    using False set_tl [of xs] by (auto simp: map_of_eq_None_iff)
  then show ?thesis using False by (simp add: store_def map_of_snoc del: map_of_append)
qed

lemma length_without: "length xs \<le> n \<Longrightarrow> length (filter (\<lambda>p. fst p \<noteq> k) xs) \<le> n"
  using length_filter_le order_trans by blast

lemma length_without_in: "k \<in> fst ` set xs \<Longrightarrow> length (filter (\<lambda>p. fst p \<noteq> k) xs) < length xs"
  by (auto intro!: length_filter_less)

lemma length_touch: "length (touch k xs) \<le> length xs"
proof (cases "map_of xs k")
  case (Some v)
  then have "k \<in> fst ` set xs" using map_of_SomeD image_iff by fastforce
  from length_without_in [OF this] Some show ?thesis by (simp add: touch_def)
qed (simp add: touch_def)

lemma length_store:
  assumes "length xs \<le> n" "0 < n"
  shows "length (store n k v xs) \<le> n"
proof (cases "k \<in> fst ` set xs")
  case True
  from length_without_in [OF this] True assms show ?thesis by (simp add: store_def)
next
  case False
  with assms show ?thesis by (auto simp: store_def)
qed

section \<open>The contract a client of a cache relies on\<close>

text \<open>
  \<open>view\<close> is what the cache holds, oldest first; \<open>get\<close> and \<open>ins\<close> have no result where the
  code's behaviour is undefined.
\<close>

locale object_cache =
  fixes ok :: "'s \<Rightarrow> bool"
    and view :: "'s \<Rightarrow> ('k \<times> 'v) list"
    and cap :: "'s \<Rightarrow> nat"
    and get :: "'k \<Rightarrow> 's \<Rightarrow> ('s \<times> 'v option) option"
    and ins :: "'k \<Rightarrow> 'v \<Rightarrow> 's \<Rightarrow> 's option"
    and rem :: "'k \<Rightarrow> 's \<Rightarrow> 's"
  assumes ok_distinct: "ok s \<Longrightarrow> distinct (map fst (view s))"
    and get_law: "ok s \<Longrightarrow>
      \<exists>s'. get k s = Some (s', map_of (view s) k) \<and> ok s' \<and> view s' = touch k (view s) \<and> cap s' = cap s"
    and ins_law: "ok s \<Longrightarrow> 0 < cap s \<Longrightarrow>
      \<exists>s'. ins k v s = Some s' \<and> ok s' \<and> view s' = store (cap s) k v (view s) \<and> cap s' = cap s"
    and rem_law: "ok s \<Longrightarrow>
      ok (rem k s) \<and> view (rem k s) = filter (\<lambda>p. fst p \<noteq> k) (view s) \<and> cap (rem k s) = cap s"
begin

lemma get_same: "ok s \<Longrightarrow> get k s = Some (s', r) \<Longrightarrow> map_of (view s') = map_of (view s) \<and> r = map_of (view s) k"
  using get_law [of s k] by auto

lemma ins_get: "ok s \<Longrightarrow> 0 < cap s \<Longrightarrow> ins k v s = Some s' \<Longrightarrow> \<exists>s''. get k s' = Some (s'', Some v)"
  using ins_law [of s k v] get_law [of s' k] by auto

lemma rem_get: "ok s \<Longrightarrow> \<exists>s'. get k (rem k s) = Some (s', None)"
  using rem_law [of s k] get_law [of "rem k s" k] by (auto simp: map_of_without)

lemma bounded_ins:
  "ok s \<Longrightarrow> 0 < cap s \<Longrightarrow> length (view s) \<le> cap s \<Longrightarrow> ins k v s = Some s' \<Longrightarrow> length (view s') \<le> cap s'"
  using ins_law [of s k v] by (auto intro: length_store)

lemma bounded_get: "ok s \<Longrightarrow> length (view s) \<le> cap s \<Longrightarrow> get k s = Some (s', r) \<Longrightarrow> length (view s') \<le> cap s'"
  using get_law [of s k] length_touch [of k "view s"] by auto

lemma bounded_rem: "ok s \<Longrightarrow> length (view s) \<le> cap s \<Longrightarrow> length (view (rem k s)) \<le> cap (rem k s)"
  using rem_law [of s k] length_without [of "view s" "cap s" k] by auto

end

text \<open>\<open>find\<close> followed by the dereference of the iterator, as the client uses it.\<close>

definition cache_get :: "'k \<Rightarrow> ('k, 'v) cache \<Rightarrow> (('k, 'v) cache \<times> 'v option) option" where
  "cache_get k c =
     map_option (\<lambda>(c', r). (c', case r of None \<Rightarrow> None | Some n \<Rightarrow> cache_value c' n)) (cache_find k c)"

definition capacity :: "('k, 'v) cache \<Rightarrow> nat" where
  "capacity c = as_size (max_size c)"

interpretation lru: object_cache cache_inv recency capacity cache_get cache_set "\<lambda>k c. fst (cache_erase k c)"
proof (unfold_locales, goal_cases)
  case (1 c)
  then show ?case by (rule inv_distinct_recency)
next
  case (2 c k)
  obtain c' r where "cache_find k c = Some (c', r)" "cache_inv c'"
    "recency c' = touch k (recency c)" "max_size c' = max_size c"
    "(case r of None \<Rightarrow> None | Some n \<Rightarrow> cache_value c' n) = map_of (recency c) k"
    by (rule cache_find_refines [OF 2])
  then show ?case by (simp add: cache_get_def capacity_def)
next
  case (3 c k v)
  from 3(2) have "0 < as_size (max_size c)" by (simp add: capacity_def)
  then obtain c' where "cache_set k v c = Some c'" "cache_inv c'"
    "recency c' = store (as_size (max_size c)) k v (recency c)" "max_size c' = max_size c"
    by (rule cache_set_refines [OF 3(1)])
  then show ?case by (simp add: capacity_def)
next
  case (4 c k)
  then show ?case by (simp add: cache_erase_refines capacity_def)
qed

section \<open>A cache after any sequence of calls\<close>

datatype ('k, 'v) cache_op = Find 'k | Set 'k 'v | Erase 'k

fun run_op :: "('k, 'v) cache_op \<Rightarrow> ('k, 'v) cache \<Rightarrow> ('k, 'v) cache option" where
  "run_op (Find k) c = map_option fst (cache_get k c)"
| "run_op (Set k v) c = cache_set k v c"
| "run_op (Erase k) c = Some (fst (cache_erase k c))"

fun run_ops :: "('k, 'v) cache_op list \<Rightarrow> ('k, 'v) cache \<Rightarrow> ('k, 'v) cache option" where
  "run_ops [] c = Some c"
| "run_ops (x # xs) c = (case run_op x c of None \<Rightarrow> None | Some c' \<Rightarrow> run_ops xs c')"

fun spec_op :: "nat \<Rightarrow> ('k, 'v) cache_op \<Rightarrow> ('k \<times> 'v) list \<Rightarrow> ('k \<times> 'v) list" where
  "spec_op n (Find k) xs = touch k xs"
| "spec_op n (Set k v) xs = store n k v xs"
| "spec_op n (Erase k) xs = filter (\<lambda>p. fst p \<noteq> k) xs"

lemma run_op_refines:
  assumes "cache_inv c" "0 < capacity c" "length (recency c) \<le> capacity c"
  shows "\<exists>c'. run_op x c = Some c' \<and> cache_inv c' \<and> capacity c' = capacity c \<and>
     recency c' = spec_op (capacity c) x (recency c) \<and> length (recency c') \<le> capacity c"
proof (cases x)
  case (Find k)
  then show ?thesis using lru.get_law [OF assms(1), of k] length_touch [of k "recency c"] assms(3)
    by fastforce
next
  case (Set k v)
  then show ?thesis using lru.ins_law [OF assms(1,2), of k v] length_store [OF assms(3,2), of k v]
    by fastforce
next
  case (Erase k)
  then show ?thesis
    using lru.rem_law [OF assms(1), of k] length_without [of "recency c" "capacity c" k] assms(3) by auto
qed

lemma run_ops_refines:
  assumes "cache_inv c" "0 < capacity c" "length (recency c) \<le> capacity c"
  shows "\<exists>c'. run_ops xs c = Some c' \<and> cache_inv c' \<and>
     recency c' = fold (spec_op (capacity c)) xs (recency c) \<and> cache_size c' \<le> capacity c"
  using assms
proof (induction xs arbitrary: c)
  case Nil
  then show ?case by (simp add: size_recency)
next
  case (Cons x xs)
  from run_op_refines [OF Cons.prems, of x] obtain c1 where c1: "run_op x c = Some c1" "cache_inv c1"
    "capacity c1 = capacity c" "recency c1 = spec_op (capacity c) x (recency c)"
    "length (recency c1) \<le> capacity c" by auto
  with Cons.prems Cons.IH [of c1] show ?case by simp
qed

text \<open>
  C2: a cache of positive capacity, after any sequence of \<open>find\<close>, \<open>set\<close> and \<open>erase\<close> calls,
  is the least-recently-used list that the sequence specifies: no call ever dereferences a
  dangling iterator or takes the front of an empty list, the list of pairs and the hash table
  stay in step, and the number of entries never exceeds the capacity.
\<close>

theorem lru_run_correct:
  fixes xs :: "('a, 'b) cache_op list"
  assumes "0 < as_size m"
  shows "\<exists>c. run_ops xs (cache_new m) = Some c \<and> cache_inv c \<and>
     recency c = fold (spec_op (as_size m)) xs [] \<and> cache_size c \<le> as_size m"
proof -
  let ?c = "cache_new m :: ('a, 'b) cache"
  have "capacity ?c = as_size m" "recency ?c = []"
    by (simp_all add: capacity_def recency_def cache_new_def)
  then show ?thesis
    using run_ops_refines [of ?c xs] assms by (simp add: cache_inv_new)
qed

lemma lru_run_correct_witness:
  "\<exists>c. run_ops [Set 1 ''a'', Set 2 ''b'', Find 1, Set (3 :: nat) ''c''] (cache_new 2) = Some c \<and>
     cache_inv c \<and> recency c = [(1, ''a''), (3, ''c'')] \<and> cache_size c \<le> 2"
proof -
  have "as_size 2 = 2" by (simp add: as_size_def)
  then show ?thesis
    using lru_run_correct [of 2 "[Set 1 ''a'', Set 2 ''b'', Find 1, Set (3 :: nat) ''c'']"]
    by (simp add: touch_def store_def)
qed

end
