(* ===== verification/Registry.thy ===== *)
theory Registry
  imports Prelude "HOL-Library.Multiset"
begin

text \<open>
  The interface of the keyed containers.  A resource list, a service's requirements, an
  application's services, a database's connections and statements, a data set, a storage
  repository, the servlets of an HTTP service and the observers of a subject are all the
  same thing seen from their clients: a collection of entries with pairwise different
  keys, into which an entry can be put unless its key is taken, and in which an entry is
  looked up by key.  Each component interprets the locale on its own operations.

  \<open>put\<close> is \<open>None\<close> when the operation refuses (it throws, or returns \<open>false\<close>).
\<close>

definition distinct_keys :: "('e \<Rightarrow> 'k) \<Rightarrow> 'e list \<Rightarrow> bool" where
  "distinct_keys key es = distinct (map key es)"

lemma distinct_keys_Nil [simp]: "distinct_keys key []"
  by (simp add: distinct_keys_def)

lemma distinct_keys_mset:
  "mset es = add_mset e (mset ds) \<Longrightarrow>
   distinct_keys key es \<longleftrightarrow> distinct_keys key ds \<and> key e \<notin> key ` set ds"
proof -
  assume m: "mset es = add_mset e (mset ds)"
  then have "mset es = mset (e # ds)" by simp
  then have "mset (map key es) = mset (map key (e # ds))"
    by (metis mset_map)
  then have "distinct (map key es) \<longleftrightarrow> distinct (map key (e # ds))"
    by (rule mset_eq_imp_distinct_iff)
  then show ?thesis by (auto simp: distinct_keys_def)
qed

lemma distinct_keys_unique:
  "distinct_keys key es \<Longrightarrow> a \<in> set es \<Longrightarrow> b \<in> set es \<Longrightarrow> key a = key b \<Longrightarrow> a = b"
  by (auto simp: distinct_keys_def distinct_map inj_on_def)

section \<open>The generic first-match search\<close>

text \<open>The loop \<open>for (...) if (it->getName() == name) return *it;\<close>.\<close>

fun lookup_by :: "('e \<Rightarrow> 'k) \<Rightarrow> 'k \<Rightarrow> 'e list \<Rightarrow> 'e option" where
  "lookup_by key k [] = None"
| "lookup_by key k (e # es) = (if key e = k then Some e else lookup_by key k es)"

lemma lookup_by_None [simp]: "lookup_by key k es = None \<longleftrightarrow> k \<notin> key ` set es"
  by (induction es) auto

lemma lookup_by_Some: "lookup_by key k es = Some e \<Longrightarrow> e \<in> set es \<and> key e = k"
  by (induction es) (auto split: if_splits)

lemma lookup_by_append:
  "lookup_by key k (es @ ds) =
     (case lookup_by key k es of None \<Rightarrow> lookup_by key k ds | Some e \<Rightarrow> Some e)"
  by (induction es) auto

lemma lookup_by_in:
  "distinct_keys key es \<Longrightarrow> e \<in> set es \<Longrightarrow> lookup_by key (key e) es = Some e"
  by (induction es) (auto simp: distinct_keys_def image_iff)

section \<open>The interface\<close>

locale registry =
  fixes items :: "'s \<Rightarrow> 'e list"
    and key :: "'e \<Rightarrow> 'k"
    and put :: "'e \<Rightarrow> 's \<Rightarrow> 's option"
    and look :: "'k \<Rightarrow> 's \<Rightarrow> 'e option"
  assumes put_fresh: "put e s = Some s' \<Longrightarrow> key e \<notin> key ` set (items s)"
    and put_items: "put e s = Some s' \<Longrightarrow> mset (items s') = add_mset e (mset (items s))"
    and look_Some: "look k s = Some e \<Longrightarrow> e \<in> set (items s) \<and> key e = k"
    and look_None: "look k s = None \<Longrightarrow> k \<notin> key ` set (items s)"
begin

abbreviation keys_ok :: "'s \<Rightarrow> bool" where
  "keys_ok s \<equiv> distinct_keys key (items s)"

lemma set_put: "put e s = Some s' \<Longrightarrow> set (items s') = insert e (set (items s))"
  by (metis put_items set_mset_add_mset_insert set_mset_mset)

lemma length_put: "put e s = Some s' \<Longrightarrow> length (items s') = Suc (length (items s))"
  by (metis put_items size_add_mset size_mset)

lemma put_keys_ok: "put e s = Some s' \<Longrightarrow> keys_ok s \<Longrightarrow> keys_ok s'"
  using distinct_keys_mset [OF put_items] put_fresh by metis

lemma put_taken: "key e \<in> key ` set (items s) \<Longrightarrow> put e s = None"
  using put_fresh by (cases "put e s") auto

lemma put_again: "put e s = Some s' \<Longrightarrow> key d = key e \<Longrightarrow> put d s' = None"
  by (rule put_taken) (simp add: set_put)

lemma look_iff: "keys_ok s \<Longrightarrow> look k s = Some e \<longleftrightarrow> e \<in> set (items s) \<and> key e = k"
proof
  assume ok: "keys_ok s" and e: "e \<in> set (items s) \<and> key e = k"
  show "look k s = Some e"
  proof (cases "look k s")
    case None
    with e show ?thesis by (auto dest: look_None)
  next
    case (Some d)
    then have "d \<in> set (items s)" "key d = k" by (auto dest: look_Some)
    with ok e have "d = e" by (auto intro: distinct_keys_unique)
    with Some show ?thesis by simp
  qed
qed (rule look_Some)

lemma look_put_same: "put e s = Some s' \<Longrightarrow> keys_ok s \<Longrightarrow> look (key e) s' = Some e"
  by (simp add: look_iff put_keys_ok set_put)

lemma look_put_other:
  assumes "put e s = Some s'" "keys_ok s" "k \<noteq> key e"
  shows "look k s' = look k s"
proof (cases "look k s")
  case None
  then have "k \<notin> key ` set (items s')"
    using assms by (auto simp: set_put dest: look_None)
  then have "look k s' = None" using look_Some by (cases "look k s'") force+
  with None show ?thesis by simp
next
  case (Some d)
  then have "d \<in> set (items s)" "key d = k" by (auto dest: look_Some)
  then have "look k s' = Some d"
    using assms by (simp add: look_iff [OF put_keys_ok] set_put)
  with Some show ?thesis by simp
qed

fun put_all :: "'e list \<Rightarrow> 's \<Rightarrow> 's option" where
  "put_all [] s = Some s"
| "put_all (e # es) s = (case put e s of None \<Rightarrow> None | Some s' \<Rightarrow> put_all es s')"

lemma put_all_keys_ok: "put_all es s = Some s' \<Longrightarrow> keys_ok s \<Longrightarrow> keys_ok s'"
  by (induction es arbitrary: s) (auto split: option.splits dest: put_keys_ok)

lemma put_all_items: "put_all es s = Some s' \<Longrightarrow> mset (items s') = mset es + mset (items s)"
  by (induction es arbitrary: s) (auto split: option.splits dest: put_items)

end

text \<open>A container that refuses an entry only because its key is taken.\<close>

locale open_registry = registry +
  assumes put_accepts: "key e \<notin> key ` set (items s) \<Longrightarrow> put e s \<noteq> None"
begin

lemma put_iff_look: "put e s = None \<longleftrightarrow> look (key e) s \<noteq> None"
proof
  assume "put e s = None"
  then have "key e \<in> key ` set (items s)" using put_accepts by blast
  then show "look (key e) s \<noteq> None" using look_None by metis
next
  assume "look (key e) s \<noteq> None"
  then obtain d where "look (key e) s = Some d" by auto
  then have "d \<in> set (items s) \<and> key d = key e" by (rule look_Some)
  then have "key e \<in> key ` set (items s)" by (metis imageI)
  then show "put e s = None" by (rule put_taken)
qed

lemma put_all_accepts:
  "distinct_keys key es \<Longrightarrow> key ` set es \<inter> key ` set (items s) = {} \<Longrightarrow> \<exists>s'. put_all es s = Some s'"
proof (induction es arbitrary: s)
  case Nil
  then show ?case by simp
next
  case (Cons e es)
  then obtain s1 where s1: "put e s = Some s1" using put_accepts by fastforce
  have "key ` set es \<inter> key ` set (items s1) = {}"
    using Cons.prems by (auto simp: set_put [OF s1] distinct_keys_def)
  with Cons.IH [of s1] Cons.prems obtain s' where "put_all es s1 = Some s'"
    by (auto simp: distinct_keys_def)
  with s1 show ?case by auto
qed

end

text \<open>A container from which an entry can be taken out again by its key.\<close>

locale erasable_registry = open_registry items key put look
  for items :: "'s \<Rightarrow> 'e list"
    and key :: "'e \<Rightarrow> 'k"
    and put :: "'e \<Rightarrow> 's \<Rightarrow> 's option"
    and look :: "'k \<Rightarrow> 's \<Rightarrow> 'e option" +
  fixes del :: "'k \<Rightarrow> 's \<Rightarrow> 's"
  assumes del_items: "mset (items (del k s)) = filter_mset (\<lambda>e. key e \<noteq> k) (mset (items s))"
begin

lemma set_del: "set (items (del k s)) = {e \<in> set (items s). key e \<noteq> k}"
  by (metis del_items set_mset_filter set_mset_mset)

lemma del_keys_ok: "keys_ok s \<Longrightarrow> keys_ok (del k s)"
proof -
  assume ok: "keys_ok s"
  have "mset (items (del k s)) = mset (filter (\<lambda>e. key e \<noteq> k) (items s))"
    by (simp add: del_items)
  then have "mset (map key (items (del k s))) = mset (map key (filter (\<lambda>e. key e \<noteq> k) (items s)))"
    by (metis mset_map)
  then have "distinct (map key (items (del k s))) \<longleftrightarrow>
      distinct (map key (filter (\<lambda>e. key e \<noteq> k) (items s)))"
    by (rule mset_eq_imp_distinct_iff)
  with ok show ?thesis by (auto simp: distinct_keys_def distinct_map inj_on_def)
qed

lemma look_del_same: "look k (del k s) = None"
proof (cases "look k (del k s)")
  case (Some e)
  then have "e \<in> set (items (del k s)) \<and> key e = k" by (rule look_Some)
  then show ?thesis by (simp add: set_del)
qed

lemma look_del_other: "keys_ok s \<Longrightarrow> j \<noteq> k \<Longrightarrow> look j (del k s) = look j s"
proof (cases "look j s")
  case None
  assume "keys_ok s" "j \<noteq> k"
  from None have "j \<notin> key ` set (items (del k s))"
    by (auto simp: set_del dest: look_None)
  then have "look j (del k s) = None" using look_Some by (cases "look j (del k s)") force+
  with None show ?thesis by simp
next
  case (Some e)
  assume ok: "keys_ok s" "j \<noteq> k"
  from Some have "e \<in> set (items s)" "key e = j" by (auto dest: look_Some)
  then have "look j (del k s) = Some e"
    using ok by (simp add: look_iff [OF del_keys_ok] set_del)
  with Some show ?thesis by simp
qed

lemma put_after_del: "\<exists>s'. put e (del (key e) s) = Some s'"
proof -
  have "key e \<notin> key ` set (items (del (key e) s))" by (auto simp: set_del)
  then show ?thesis using put_accepts by blast
qed

end

end
