(* ===== verification/HttpUrl.thy ===== *)
theory HttpUrl
  imports Basis Registry
begin

text \<open>
  \<open>http/url\<close> and the string helpers of \<open>http/protocol/defines.cc\<close>: the components of an
  URL, the parser (\<open>URLParser\<close>), the builder (\<open>URLBuilder\<close>) and \<open>URL::encode\<close>.  Positions
  are indices of the whole text, as in the code, and \<open>find\<close> looks for the delimiters one
  after the other, in the order in which the code names them.
\<close>

section \<open>http/protocol/defines.cc\<close>

text \<open>\<open>separate\<close>: what is before and after the first delimiter.\<close>

definition separate :: "string \<Rightarrow> char \<Rightarrow> string \<times> string" where
  "separate s delim =
     (case find_char s delim 0 of
        Some pos \<Rightarrow> (take pos s, drop (pos + 1) s)
      | None \<Rightarrow> (s, []))"

text \<open>
  \<open>split\<close> runs \<open>strtok_r\<close> over the C string of its argument: empty items are skipped and a
  NUL byte ends the text.  \<open>strtok_r\<close> overwrites the delimiter after every item with a NUL,
  in the caller's string: the second component is what it leaves there.
\<close>

function split_loop :: "char \<Rightarrow> string \<Rightarrow> string list \<times> string" where
  "split_loop delim s =
     (let lead = takeWhile (\<lambda>c. c = delim) s;
          r = dropWhile (\<lambda>c. c = delim) s
      in if r = [] then ([], s)
         else
           let item = takeWhile (\<lambda>c. c \<noteq> delim) r
           in case dropWhile (\<lambda>c. c \<noteq> delim) r of
                [] \<Rightarrow> ([item], lead @ item)
              | _ # rest \<Rightarrow>
                  (let (items, rest') = split_loop delim rest
                   in (item # items, lead @ item @ NUL # rest')))"
  by pat_completeness auto
termination
proof (relation "measure (\<lambda>(delim, s). length s)", goal_cases)
  case 1
  then show ?case by simp
next
  case (2 delim s x xa xb xc xd)
  have "length (dropWhile (\<lambda>c. c \<noteq> delim) xa) \<le> length s"
    using 2 by (metis le_trans length_dropWhile_le)
  with 2 show ?case by simp
qed

declare split_loop.simps [simp del]

definition split :: "string \<Rightarrow> char \<Rightarrow> string list \<times> string" where
  "split s delim =
     (let (items, cs) = split_loop delim (c_str s)
      in (items, cs @ drop (length (c_str s)) s))"

definition isNumeric :: "string \<Rightarrow> bool" where
  "isNumeric s = (s \<noteq> [] \<and> list_all isdigit s)"

section \<open>Components and URLs\<close>

datatype component_name = Scheme | User | Password | Host | Port | Path | Fragment

fun component_index :: "component_name \<Rightarrow> nat" where
  "component_index Scheme = 0"
| "component_index User = 1"
| "component_index Password = 2"
| "component_index Host = 3"
| "component_index Port = 4"
| "component_index Path = 5"
| "component_index Fragment = 6"

definition component_name_as_string :: "component_name \<Rightarrow> string" where
  "component_name_as_string c =
     [''Scheme'', ''User'', ''Password'', ''Host'', ''Port'', ''Path'', ''Fragment''] ! component_index c"

type_synonym key_value = "string \<times> string"

record url =
  components :: "component_name \<Rightarrow> string option"
  query :: "key_value list"

definition hasComponent :: "url \<Rightarrow> component_name \<Rightarrow> bool" where
  "hasComponent u c = (components u c \<noteq> None)"

definition getComponent :: "url \<Rightarrow> component_name \<Rightarrow> string outcome" where
  "getComponent u c =
     (case components u c of
        None \<Rightarrow> Inl (RuntimeException (''URL does not contain component '' @ component_name_as_string c))
      | Some v \<Rightarrow> Inr v)"

definition hasQuery :: "url \<Rightarrow> bool" where
  "hasQuery u = (query u \<noteq> [])"

text \<open>
  \<open>encode\<close>: every \<open>getComponent\<close> call is guarded by \<open>hasComponent\<close>, so none of them throws;
  \<open>component_text\<close> is the guarded insertion, with what precedes and follows the value.
\<close>

definition component_text :: "url \<Rightarrow> string \<Rightarrow> component_name \<Rightarrow> string \<Rightarrow> string" where
  "component_text u before c after =
     (if hasComponent u c then
        (case getComponent u c of Inl e \<Rightarrow> [] | Inr v \<Rightarrow> before @ v @ after)
      else [])"

definition key_value_text :: "key_value \<Rightarrow> string" where
  "key_value_text p = fst p @ (if snd p \<noteq> [] then ''='' @ snd p else [])"

fun query_loop :: "bool \<Rightarrow> key_value list \<Rightarrow> string" where
  "query_loop isFirst [] = []"
| "query_loop isFirst (p # ps) =
     (if isFirst then ''?'' else ''&'') @ key_value_text p @ query_loop False ps"

definition encode_user :: "url \<Rightarrow> string" where
  "encode_user u =
     component_text u [] User [] @ component_text u '':'' Password []
     @ (if hasComponent u User \<or> hasComponent u Password then ''@'' else [])"

definition encode_authority :: "url \<Rightarrow> string" where
  "encode_authority u = encode_user u @ component_text u [] Host [] @ component_text u '':'' Port []"

definition encode_query :: "url \<Rightarrow> string" where
  "encode_query u = (if query u \<noteq> [] then query_loop True (query u) else [])"

definition encode :: "url \<Rightarrow> string" where
  "encode u =
     component_text u [] Scheme ''://'' @ encode_authority u @ component_text u [] Path []
     @ encode_query u @ component_text u [] Fragment []"

section \<open>URLBuilder\<close>

record url_builder =
  b_components :: "component_name \<Rightarrow> string option"
  b_keyValues :: "key_value list"

definition url_builder_new :: url_builder where
  "url_builder_new = \<lparr>b_components = Map.empty, b_keyValues = []\<rparr>"

definition setComponent :: "component_name \<Rightarrow> string \<Rightarrow> url_builder \<Rightarrow> url_builder outcome" where
  "setComponent c v b =
     (if b_components b c \<noteq> None
      then Inl (RuntimeException (dec (component_index c) @ '' already defined''))
      else Inr (b\<lparr>b_components := (b_components b)(c \<mapsto> v)\<rparr>))"

definition addKeyValue :: "string \<Rightarrow> string \<Rightarrow> url_builder \<Rightarrow> url_builder" where
  "addKeyValue k v b = b\<lparr>b_keyValues := b_keyValues b @ [(k, v)]\<rparr>"

definition builder_build :: "url_builder \<Rightarrow> url outcome" where
  "builder_build b =
     (if b_components b Scheme = None then Inl (RuntimeException ''URLBuilder should contain the Scheme'')
      else if b_components b Host = None then Inl (RuntimeException ''URLBuilder should contain the Host'')
      else Inr \<lparr>components = b_components b, query = b_keyValues b\<rparr>)"

section \<open>URLParser\<close>

record url_parser =
  m_url :: string
  p_components :: "component_name \<Rightarrow> string option"
  p_keyValues :: "key_value list"

definition url_parser_new :: "string \<Rightarrow> url_parser" where
  "url_parser_new s = \<lparr>m_url = s, p_components = Map.empty, p_keyValues = []\<rparr>"

definition addMandatoryComponent :: "component_name \<Rightarrow> string \<Rightarrow> url_parser \<Rightarrow> url_parser outcome" where
  "addMandatoryComponent c v p =
     (if v = [] then Inl (RuntimeException (m_url p @ '' does not contain any '' @ component_name_as_string c))
      else Inr (p\<lparr>p_components := (p_components p)(c \<mapsto> v)\<rparr>))"

definition addOptionalComponent :: "component_name \<Rightarrow> string \<Rightarrow> url_parser \<Rightarrow> url_parser" where
  "addOptionalComponent c v p =
     (if v \<noteq> [] then p\<lparr>p_components := (p_components p)(c \<mapsto> v)\<rparr> else p)"

definition verifyPortIsNumeric :: "string \<Rightarrow> string outcome" where
  "verifyPortIsNumeric v =
     (if v = [] then Inr v
      else if \<not> isNumeric v then Inl (RuntimeException (''Port '' @ v @ '' should be a numeric value''))
      else Inr v)"

text \<open>The delimiters are tried in order; the first one found anywhere ends the token.\<close>

fun find_delims :: "string \<Rightarrow> nat \<Rightarrow> string \<Rightarrow> nat option" where
  "find_delims s pos [] = None"
| "find_delims s pos (d # ds) =
     (case find_char s d pos of Some e \<Rightarrow> Some e | None \<Rightarrow> find_delims s pos ds)"

definition extractToken :: "string \<Rightarrow> nat \<Rightarrow> string \<Rightarrow> string \<times> nat" where
  "extractToken s initpos finalDelims =
     (case find_delims s initpos finalDelims of
        None \<Rightarrow> (drop initpos s, length s)
      | Some e \<Rightarrow> (take (e - initpos) (drop initpos s), e))"

definition addEndPoint :: "string \<Rightarrow> url_parser \<Rightarrow> url_parser outcome" where
  "addEndPoint endPoint p =
     (let (host, port) = separate endPoint CHR '':''
      in case addMandatoryComponent Host host p of
           Inl e \<Rightarrow> Inl e
         | Inr p1 \<Rightarrow>
             (case verifyPortIsNumeric port of
                Inl e \<Rightarrow> Inl e
              | Inr v \<Rightarrow> Inr (addOptionalComponent Port v p1)))"

definition readAuthority :: "string \<Rightarrow> url_parser \<Rightarrow> (url_parser \<times> nat) outcome" where
  "readAuthority withoutScheme p =
     (let start = (case find_str withoutScheme ''//'' 0 of Some i \<Rightarrow> i + 2 | None \<Rightarrow> 0);
          (token, end) = extractToken withoutScheme start ''/?#''
      in if find_char token CHR ''@'' start = None
         then (case addEndPoint token p of Inl e \<Rightarrow> Inl e | Inr p1 \<Rightarrow> Inr (p1, end))
         else
           let (userInformation, endPoint) = separate token CHR ''@'';
               (user, password) = separate userInformation CHR '':'';
               p1 = addOptionalComponent Password password (addOptionalComponent User user p)
           in case addEndPoint endPoint p1 of Inl e \<Rightarrow> Inl e | Inr p2 \<Rightarrow> Inr (p2, end))"

definition readPath :: "string \<Rightarrow> nat \<Rightarrow> url_parser \<Rightarrow> url_parser \<times> nat" where
  "readPath withoutScheme endPrevious p =
     (if endPrevious = length withoutScheme then (p, endPrevious)
      else
        let (token, end) = extractToken withoutScheme endPrevious ''?#''
        in (addOptionalComponent Path token p, end))"

text \<open>The text of the error is the token after \<open>split\<close> has written into it.\<close>

fun read_pairs :: "string \<Rightarrow> string list \<Rightarrow> url_parser \<Rightarrow> url_parser outcome" where
  "read_pairs clobbered [] p = Inr p"
| "read_pairs clobbered (pair # pairs) p =
     (let keyValue = separate pair CHR ''=''
      in if fst keyValue = [] then Inl (RuntimeException (clobbered @ '' contains an empty key''))
         else read_pairs clobbered pairs (p\<lparr>p_keyValues := p_keyValues p @ [keyValue]\<rparr>))"

definition readQuery :: "string \<Rightarrow> nat \<Rightarrow> url_parser \<Rightarrow> (url_parser \<times> nat) outcome" where
  "readQuery withoutScheme endPrevious p =
     (if endPrevious = length withoutScheme then Inr (p, endPrevious)
      else if withoutScheme ! endPrevious \<noteq> CHR ''?'' then Inr (p, endPrevious)
      else
        let (token, end) = extractToken withoutScheme (endPrevious + 1) ''#'';
            (pairs, clobbered) = split token CHR ''&''
        in case read_pairs clobbered pairs p of Inl e \<Rightarrow> Inl e | Inr p1 \<Rightarrow> Inr (p1, end))"

definition readFragment :: "string \<Rightarrow> nat \<Rightarrow> url_parser \<Rightarrow> url_parser" where
  "readFragment withoutScheme endPrevious p =
     (if endPrevious = length withoutScheme then p
      else addOptionalComponent Fragment (drop endPrevious withoutScheme) p)"

definition readRest :: "string \<Rightarrow> nat \<Rightarrow> url_parser \<Rightarrow> url outcome" where
  "readRest withoutScheme endAuthority p =
     (let (p1, endPath) = readPath withoutScheme endAuthority p
      in case readQuery withoutScheme endPath p1 of
           Inl e \<Rightarrow> Inl e
         | Inr (p2, endQuery) \<Rightarrow>
             (let p3 = readFragment withoutScheme endQuery p2
              in Inr \<lparr>components = p_components p3, query = p_keyValues p3\<rparr>))"

text \<open>\<open>m_url[0]\<close> of an empty string is the NUL character.\<close>

definition parser_build :: "url_parser \<Rightarrow> url outcome" where
  "parser_build p =
     (if (case m_url p of [] \<Rightarrow> NUL | c # cs \<Rightarrow> c) = CHR ''/''
      then readRest (m_url p) 0 p
      else
        let (scheme, withoutScheme) = separate (m_url p) CHR '':''
        in case addMandatoryComponent Scheme scheme p of
             Inl e \<Rightarrow> Inl e
           | Inr p1 \<Rightarrow>
               (case readAuthority withoutScheme p1 of
                  Inl e \<Rightarrow> Inl e
                | Inr (p2, endAuthority) \<Rightarrow> readRest withoutScheme endAuthority p2))"

definition parse_url :: "string \<Rightarrow> url outcome" where
  "parse_url s = parser_build (url_parser_new s)"

section \<open>What the string helpers do\<close>

lemma find_char_0: "find_char s c 0 = index_of c s"
  by (simp add: find_char_def option.map_id0 [unfolded id_def])

lemma separate_append: "d \<notin> set a \<Longrightarrow> separate (a @ d # b) d = (a, b)"
  by (simp add: separate_def find_char_0 index_of_append)

lemma separate_none: "d \<notin> set a \<Longrightarrow> separate a d = (a, [])"
  using index_of_None [of d a] by (simp add: separate_def find_char_0)

lemma separate_join:
  assumes "separate s d = (a, b)"
  shows "d \<notin> set a" and "s = a @ (if d \<in> set s then d # b else [])"
proof -
  have "d \<notin> set a \<and> s = a @ (if d \<in> set s then d # b else [])"
  proof (cases "index_of d s")
    case None
    with assms index_of_None [of d s] show ?thesis by (simp add: separate_def find_char_0)
  next
    case (Some i)
    note i = index_of_Some [OF Some]
    have "s = take i s @ d # drop (Suc i) s"
      using i id_take_nth_drop [of i s] by simp
    with assms Some i show ?thesis
      by (auto simp: separate_def find_char_0 index_of_None [symmetric])
  qed
  then show "d \<notin> set a" "s = a @ (if d \<in> set s then d # b else [])" by simp_all
qed

lemma split_loop_last:
  "d \<notin> set a \<Longrightarrow> a \<noteq> [] \<Longrightarrow> fst (split_loop d a) = [a]"
proof -
  assume d: "d \<notin> set a" and a: "a \<noteq> []"
  have 1: "dropWhile (\<lambda>c. c = d) a = a" using d a by (cases a) auto
  have 2: "dropWhile (\<lambda>c. c \<noteq> d) a = []" "takeWhile (\<lambda>c. c \<noteq> d) a = a"
    using d by auto
  show ?thesis by (subst split_loop.simps) (simp add: 1 2 a Let_def)
qed

lemma split_loop_cons:
  assumes "d \<notin> set a" "a \<noteq> []"
  shows "fst (split_loop d (a @ d # b)) = a # fst (split_loop d b)"
proof -
  have 1: "dropWhile (\<lambda>c. c = d) (a @ d # b) = a @ d # b" using assms by (cases a) auto
  have 2: "takeWhile (\<lambda>c. c \<noteq> d) (a @ d # b) = a"
    "dropWhile (\<lambda>c. c \<noteq> d) (a @ d # b) = d # b"
    using assms by (auto simp: takeWhile_append dropWhile_append)
  show ?thesis
    by (subst split_loop.simps) (simp add: 1 2 assms Let_def case_prod_beta)
qed

text \<open>The items of a list of non-empty texts without the delimiter are those texts.\<close>

fun join_with :: "char \<Rightarrow> string list \<Rightarrow> string" where
  "join_with d [] = []"
| "join_with d [a] = a"
| "join_with d (a # b # as) = a @ d # join_with d (b # as)"

lemma split_join:
  "\<forall>a \<in> set as. a \<noteq> [] \<and> d \<notin> set a \<and> NUL \<notin> set a \<Longrightarrow> d \<noteq> NUL \<Longrightarrow>
   fst (split (join_with d as) d) = as"
proof -
  assume as: "\<forall>a \<in> set as. a \<noteq> [] \<and> d \<notin> set a \<and> NUL \<notin> set a" and d: "d \<noteq> NUL"
  have "NUL \<notin> set (join_with d as)"
    using as d by (induction d as rule: join_with.induct) auto
  moreover have "fst (split_loop d (join_with d as)) = as"
    using as
  proof (induction d as rule: join_with.induct)
    case (1 d)
    then show ?case by (subst split_loop.simps) simp
  next
    case (2 d a)
    then show ?case by (simp add: split_loop_last)
  next
    case (3 d a b as)
    then show ?case by (simp add: split_loop_cons)
  qed
  ultimately show ?thesis by (simp add: split_def case_prod_beta)
qed

lemma isNumeric_dec [simp]: "isNumeric (dec n)"
  by (simp add: isNumeric_def list_all_iff dec_digits)

lemma isNumeric_avoids:
  assumes "isNumeric s"
  shows "set ''/?#@:'' \<inter> set s = {}"
proof -
  have "\<not> isdigit CHR ''/''" "\<not> isdigit CHR ''?''" "\<not> isdigit CHR ''#''" "\<not> isdigit CHR ''@''"
    "\<not> isdigit CHR '':''"
    by (simp_all add: isdigit_def)
  then show ?thesis using assms by (auto simp: isNumeric_def list_all_iff)
qed

section \<open>Tokens\<close>

text \<open>
  What may follow a token so that the delimiter search stops right there: because the
  delimiters are tried in order, a delimiter of higher priority must not occur anywhere in
  the rest of the text.
\<close>

fun ends_token :: "string \<Rightarrow> string \<Rightarrow> bool" where
  "ends_token ds [] = True"
| "ends_token [] (c # r) = False"
| "ends_token (d # ds) (c # r) = (c = d \<or> (d \<notin> set (c # r) \<and> ends_token ds (c # r)))"

lemma find_delims_end:
  assumes "set ds \<inter> set tok = {}" "ends_token ds rest"
  shows "find_delims (pre @ tok @ rest) (length pre) ds =
     (if rest = [] then None else Some (length pre + length tok))"
  using assms
proof (induction ds)
  case Nil
  then show ?case by (cases rest) auto
next
  case (Cons d ds)
  have i: "index_of d (tok @ rest) = map_option ((+) (length tok)) (index_of d rest)"
    using Cons.prems(1) by (simp add: index_of_append2)
  show ?case
  proof (cases rest)
    case Nil
    with Cons i show ?thesis by (simp add: find_char_def)
  next
    case (Cons c r)
    show ?thesis
    proof (cases "c = d")
      case True
      with i Cons show ?thesis by (simp add: find_char_def)
    next
      case False
      with Cons Cons.prems have "d \<notin> set rest" "ends_token ds rest" by auto
      with i Cons Cons.IH Cons.prems show ?thesis
        using index_of_None [of d rest] by (simp add: find_char_def)
    qed
  qed
qed

lemma extractToken_end:
  assumes "set ds \<inter> set tok = {}" "ends_token ds rest"
  shows "extractToken (pre @ tok @ rest) (length pre) ds = (tok, length pre + length tok)"
  using find_delims_end [OF assms, of pre] by (auto simp: extractToken_def)

section \<open>Well-formed URLs and the round trip\<close>

abbreviation avoids :: "string \<Rightarrow> string \<Rightarrow> bool" where
  "avoids ds s \<equiv> set ds \<inter> set s = {}"

abbreviation text_of :: "url \<Rightarrow> component_name \<Rightarrow> string" where
  "text_of u c \<equiv> component_text u [] c []"

text \<open>A component is absent or its text is not empty and satisfies a condition.\<close>

definition wf_component :: "(string \<Rightarrow> bool) \<Rightarrow> string option \<Rightarrow> bool" where
  "wf_component P v = (case v of None \<Rightarrow> True | Some s \<Rightarrow> s \<noteq> [] \<and> P s)"

definition wf_key_value :: "key_value \<Rightarrow> bool" where
  "wf_key_value p = (fst p \<noteq> [] \<and> avoids (NUL # ''&=#'') (fst p) \<and> avoids (NUL # ''&#'') (snd p))"

definition wf_tail :: "url \<Rightarrow> bool" where
  "wf_tail u \<longleftrightarrow>
     wf_component (avoids ''?#'') (components u Path) \<and>
     list_all wf_key_value (query u) \<and>
     wf_component (\<lambda>s. hd s = CHR ''#'') (components u Fragment) \<and>
     ends_token ''?#'' (encode_query u @ text_of u Fragment)"

definition tail_text :: "url \<Rightarrow> string" where
  "tail_text u = text_of u Path @ encode_query u @ text_of u Fragment"

text \<open>
  An absolute URL.  Two conditions come from the parser: the text after the authority must
  not make the search for the end of the authority stop elsewhere, and the user information
  must be long enough for its \<open>@\<close> to be seen.
\<close>

definition wf_absolute :: "url \<Rightarrow> bool" where
  "wf_absolute u \<longleftrightarrow>
     components u Scheme \<noteq> None \<and> components u Host \<noteq> None \<and>
     wf_component (\<lambda>s. avoids '':'' s \<and> hd s \<noteq> CHR ''/'') (components u Scheme) \<and>
     wf_component (avoids ''/?#@:'') (components u User) \<and>
     wf_component (avoids ''/?#@'') (components u Password) \<and>
     wf_component (avoids ''/?#@:'') (components u Host) \<and>
     wf_component isNumeric (components u Port) \<and>
     (encode_user u = [] \<or> 3 \<le> length (encode_user u)) \<and>
     ends_token ''/?#'' (tail_text u) \<and> wf_tail u"

definition wf_relative :: "url \<Rightarrow> bool" where
  "wf_relative u \<longleftrightarrow>
     list_all (\<lambda>c. components u c = None) [Scheme, User, Password, Host, Port] \<and>
     components u Path \<noteq> None \<and> hd (text_of u Path) = CHR ''/'' \<and> wf_tail u"

definition wf_url :: "url \<Rightarrow> bool" where
  "wf_url u \<longleftrightarrow> wf_absolute u \<or> wf_relative u"

lemma text_of_simps [simp]:
  "components u c = None \<Longrightarrow> component_text u before c after = []"
  "components u c = Some v \<Longrightarrow> component_text u before c after = before @ v @ after"
  by (simp_all add: component_text_def hasComponent_def getComponent_def)

lemma add_optional_text:
  assumes "wf_component P (components u c)" "p_components p c = None"
  shows "addOptionalComponent c (text_of u c) p =
     p\<lparr>p_components := (p_components p)(c := components u c)\<rparr>"
proof (cases "components u c")
  case None
  with assms(2) have "(p_components p)(c := components u c) = p_components p" by (metis fun_upd_triv)
  then show ?thesis using None by (simp add: addOptionalComponent_def)
next
  case (Some v)
  with assms show ?thesis by (simp add: addOptionalComponent_def wf_component_def)
qed

lemma text_avoids:
  "wf_component P (components u c) \<Longrightarrow> (\<And>s. P s \<Longrightarrow> avoids ds s) \<Longrightarrow> avoids ds (text_of u c)"
  by (cases "components u c") (auto simp: wf_component_def)

lemma query_loop_join:
  "query_loop b (p # ps) = (if b then CHR ''?'' else CHR ''&'') # join_with CHR ''&'' (map key_value_text (p # ps))"
proof (induction ps arbitrary: p b)
  case (Cons q ps)
  show ?case using Cons.IH [of False q] by simp
qed simp

lemma encode_query_join:
  "query u \<noteq> [] \<Longrightarrow> encode_query u = CHR ''?'' # join_with CHR ''&'' (map key_value_text (query u))"
  by (cases "query u") (simp_all add: encode_query_def query_loop_join del: query_loop.simps)

lemma key_value_text_ok:
  "wf_key_value p \<Longrightarrow>
   key_value_text p \<noteq> [] \<and> CHR ''&'' \<notin> set (key_value_text p) \<and> NUL \<notin> set (key_value_text p) \<and>
   CHR ''#'' \<notin> set (key_value_text p) \<and> separate (key_value_text p) CHR ''='' = p"
proof -
  assume p: "wf_key_value p"
  have "separate (key_value_text p) CHR ''='' = p"
    using p by (cases p) (auto simp: wf_key_value_def key_value_text_def separate_none separate_append)
  with p show ?thesis by (auto simp: wf_key_value_def key_value_text_def)
qed

lemma read_pairs_text:
  "list_all wf_key_value kvs \<Longrightarrow>
   read_pairs cl (map key_value_text kvs) p = Inr (p\<lparr>p_keyValues := p_keyValues p @ kvs\<rparr>)"
proof (induction kvs arbitrary: p)
  case (Cons kv kvs)
  then show ?case using key_value_text_ok [of kv] by (simp add: wf_key_value_def)
qed simp

lemma join_avoids:
  "\<forall>a \<in> set as. x \<notin> set a \<Longrightarrow> x \<noteq> d \<Longrightarrow> x \<notin> set (join_with d as)"
  by (induction d as rule: join_with.induct) auto

lemma readPath_text:
  assumes "wf_component (avoids ''?#'') (components u Path)" "ends_token ''?#'' rest"
  shows "readPath (pre @ text_of u Path @ rest) (length pre) p =
     (addOptionalComponent Path (text_of u Path) p, length pre + length (text_of u Path))"
proof (cases "text_of u Path @ rest = []")
  case True
  then show ?thesis by (simp add: readPath_def addOptionalComponent_def)
next
  case False
  have "avoids ''?#'' (text_of u Path)" using assms(1) by (rule text_avoids) simp
  with False extractToken_end [OF this assms(2), of pre] show ?thesis
    by (auto simp: readPath_def)
qed

lemma readQuery_text:
  assumes "list_all wf_key_value (query u)" "frag = [] \<or> hd frag = CHR ''#''"
  shows "readQuery (pre @ encode_query u @ frag) (length pre) p =
     Inr (p\<lparr>p_keyValues := p_keyValues p @ query u\<rparr>, length pre + length (encode_query u))"
proof (cases "query u = []")
  case True
  then have e: "encode_query u = []" by (simp add: encode_query_def)
  show ?thesis
    using True e assms(2) by (cases frag) (auto simp: readQuery_def nth_append)
next
  case False
  let ?j = "join_with CHR ''&'' (map key_value_text (query u))"
  note e = encode_query_join [OF False]
  have ok: "\<forall>a \<in> set (map key_value_text (query u)). a \<noteq> [] \<and> CHR ''&'' \<notin> set a \<and> NUL \<notin> set a"
    and h: "\<forall>a \<in> set (map key_value_text (query u)). CHR ''#'' \<notin> set a"
    using assms(1) key_value_text_ok by (auto simp: list_all_iff)
  have "avoids ''#'' ?j" using join_avoids [OF h, of "CHR ''&''"] by simp
  moreover have "ends_token ''#'' frag" using assms(2) by (cases frag) auto
  ultimately have x: "extractToken ((pre @ ''?'') @ ?j @ frag) (length (pre @ ''?'')) ''#'' =
      (?j, length (pre @ ''?'') + length ?j)"
    by (rule extractToken_end)
  have s: "fst (split ?j CHR ''&'') = map key_value_text (query u)"
    by (rule split_join [OF ok]) simp
  show ?thesis
    using x s assms(1)
    by (simp add: readQuery_def e nth_append case_prod_beta read_pairs_text)
qed

lemma readRest_text:
  assumes "wf_tail u" "p_components p Path = None" "p_components p Fragment = None" "p_keyValues p = []"
  shows "readRest (pre @ tail_text u) (length pre) p =
     Inr \<lparr>components = (p_components p)(Path := components u Path, Fragment := components u Fragment),
          query = query u\<rparr>"
proof -
  let ?f = "text_of u Fragment"
  let ?pp = "pre @ text_of u Path"
  have wp: "wf_component (avoids ''?#'') (components u Path)"
    and wf: "wf_component (\<lambda>s. hd s = CHR ''#'') (components u Fragment)"
    and wq: "list_all wf_key_value (query u)"
    and et: "ends_token ''?#'' (encode_query u @ ?f)"
    using assms(1) by (simp_all add: wf_tail_def)
  have f: "?f = [] \<or> hd ?f = CHR ''#''"
    using wf by (cases "components u Fragment") (auto simp: wf_component_def)
  let ?p1 = "p\<lparr>p_components := (p_components p)(Path := components u Path)\<rparr>"
  have 1: "readPath (pre @ tail_text u) (length pre) p = (?p1, length ?pp)"
    using readPath_text [OF wp et, of pre p] add_optional_text [OF wp assms(2)]
    by (simp add: tail_text_def)
  have 2: "readQuery (pre @ tail_text u) (length ?pp) ?p1 =
      Inr (?p1\<lparr>p_keyValues := query u\<rparr>, length (?pp @ encode_query u))"
    using readQuery_text [OF wq f, of ?pp ?p1] assms(4) by (simp add: tail_text_def)
  have 3: "readFragment (pre @ tail_text u) (length (?pp @ encode_query u)) q =
      addOptionalComponent Fragment ?f q" for q
    by (cases "?f = []") (simp_all add: readFragment_def tail_text_def addOptionalComponent_def)
  show ?thesis
    using add_optional_text [OF wf, of "?p1\<lparr>p_keyValues := query u\<rparr>"] assms(3)
    by (simp add: readRest_def 1 2 [simplified] 3 [simplified])
qed

lemma relative_roundtrip: "wf_relative u \<Longrightarrow> parse_url (encode u) = Inr u"
proof -
  assume w: "wf_relative u"
  then have n: "components u Scheme = None" "components u User = None" "components u Password = None"
    "components u Host = None" "components u Port = None"
    by (simp_all add: wf_relative_def)
  then have e: "encode u = tail_text u"
    by (simp add: encode_def encode_authority_def encode_user_def tail_text_def hasComponent_def)
  obtain v where v: "components u Path = Some v" "v \<noteq> []" "hd v = CHR ''/''"
    using w by (auto simp: wf_relative_def wf_tail_def wf_component_def)
  then obtain vs where vs: "v = CHR ''/'' # vs" by (cases v) auto
  have c: "components u = Map.empty(Path := components u Path, Fragment := components u Fragment)"
  proof
    fix x show "components u x = (Map.empty(Path := components u Path, Fragment := components u Fragment)) x"
      by (cases x) (simp_all add: n)
  qed
  have "parse_url (encode u) = readRest ([] @ tail_text u) (length ([] :: string)) (url_parser_new (encode u))"
    using v(1) vs by (simp add: parse_url_def parser_build_def url_parser_new_def e)
      (simp add: tail_text_def)
  also have "\<dots> = Inr \<lparr>components = Map.empty(Path := components u Path, Fragment := components u Fragment),
          query = query u\<rparr>"
    using w by (subst readRest_text) (simp_all add: wf_relative_def url_parser_new_def)
  also have "\<dots> = Inr u" using c by simp
  finally show ?thesis .
qed

lemma readAuthority_text:
  assumes "wf_absolute u" "p_components p = [Scheme \<mapsto> sc]"
  shows "readAuthority (''//'' @ encode_authority u @ tail_text u) p =
     Inr (p\<lparr>p_components := (p_components p)(User := components u User, Password := components u Password,
              Host := components u Host, Port := components u Port)\<rparr>,
          length (''//'' @ encode_authority u))"
proof -
  have wu: "wf_component (avoids ''/?#@:'') (components u User)"
    and ww: "wf_component (avoids ''/?#@'') (components u Password)"
    and wh: "wf_component (avoids ''/?#@:'') (components u Host)"
    and wp: "wf_component isNumeric (components u Port)"
    and et: "ends_token ''/?#'' (tail_text u)"
    and lu: "encode_user u = [] \<or> 3 \<le> length (encode_user u)"
    using assms(1) by (simp_all add: wf_absolute_def)
  obtain h where h: "components u Host = Some h" "h \<noteq> []" "avoids ''/?#@:'' h"
    using assms(1) by (auto simp: wf_absolute_def wf_component_def)
  let ?ep = "h @ component_text u '':'' Port []"
  have dp: "avoids ''/?#@:'' (text_of u Port)"
    using wp by (rule text_avoids) (rule isNumeric_avoids)
  have np: "components u Port = Some v \<Longrightarrow> v \<noteq> [] \<and> isNumeric v" for v
    using wp by (auto simp: wf_component_def)
  have ep: "avoids ''/?#@'' ?ep"
    using h dp by (cases "components u Port") auto
  have sep: "separate ?ep CHR '':'' = (h, text_of u Port)"
    using h by (cases "components u Port") (auto simp: separate_append separate_none)
  have ver: "verifyPortIsNumeric (text_of u Port) = Inr (text_of u Port)"
    using np by (cases "components u Port") (auto simp: verifyPortIsNumeric_def)
  have end_point: "addEndPoint ?ep q =
      Inr (q\<lparr>p_components := (p_components q)(Host := components u Host, Port := components u Port)\<rparr>)"
    if "p_components q Port = None" for q
    using add_optional_text [OF wp, of "q\<lparr>p_components := (p_components q)(Host \<mapsto> h)\<rparr>"] that h
    by (simp add: addEndPoint_def sep ver addMandatoryComponent_def)
  have av: "avoids ''/?#'' (encode_authority u)"
    using ep text_avoids [OF wu, of "''/?#''"] text_avoids [OF ww, of "''/?#''"]
    by (cases "components u User"; cases "components u Password")
      (auto simp: encode_authority_def encode_user_def h(1))
  have tok: "extractToken (''//'' @ encode_authority u @ tail_text u) (Suc (Suc 0)) ''/?#'' =
      (encode_authority u, length (''//'' @ encode_authority u))"
    using extractToken_end [OF av et, of "''//''"] by simp
  have start: "find_str (''//'' @ encode_authority u @ tail_text u) ''//'' 0 = Some 0"
    by (simp add: find_str_def)
  show ?thesis
  proof (cases "encode_user u = []")
    case True
    then have none: "components u User = None" "components u Password = None"
      using wu ww by (auto simp: encode_user_def hasComponent_def split: if_splits)
    have "find_char (encode_authority u) CHR ''@'' (Suc (Suc 0)) = None"
      using ep True by (auto simp: find_char_def index_of_None encode_authority_def h(1) dest: in_set_dropD)
    moreover have "p_components p Port = None" using assms(2) by simp
    moreover have "(p_components p)(User := None, Password := None) = p_components p"
      using assms(2) by auto
    moreover have "addEndPoint (encode_authority u) p =
        Inr (p\<lparr>p_components := (p_components p)(Host := components u Host, Port := components u Port)\<rparr>)"
      using True h(1) end_point [of p] assms(2) by (simp add: encode_authority_def)
    ultimately show ?thesis
      using none by (simp add: readAuthority_def start [simplified] tok [simplified])
  next
    case False
    let ?ui = "text_of u User @ component_text u '':'' Password []"
    have e: "encode_user u = ?ui @ ''@''"
      using False by (auto simp: encode_user_def hasComponent_def split: if_splits)
    have ui: "CHR ''@'' \<notin> set ?ui"
      using wu ww by (cases "components u User"; cases "components u Password")
        (auto simp: wf_component_def)
    have two: "2 \<le> length ?ui" using lu e False by simp
    have "find_char (encode_authority u) CHR ''@'' (Suc (Suc 0)) \<noteq> None"
      using two by (simp add: find_char_def index_of_None encode_authority_def e)
    then obtain y where "find_char (encode_authority u) CHR ''@'' (Suc (Suc 0)) = Some y" by auto
    moreover have "separate (encode_authority u) CHR ''@'' = (?ui, ?ep)"
      using separate_append [OF ui, of ?ep] by (simp add: encode_authority_def e h(1))
    moreover have "separate ?ui CHR '':'' = (text_of u User, text_of u Password)"
      using wu by (cases "components u User"; cases "components u Password")
        (auto simp: wf_component_def separate_append separate_none separate_append [of _ "[]", simplified])
    moreover have "addOptionalComponent Password (text_of u Password) (addOptionalComponent User (text_of u User) p) =
        p\<lparr>p_components := (p_components p)(User := components u User, Password := components u Password)\<rparr>"
      using add_optional_text [OF wu, of p]
        add_optional_text [OF ww, of "p\<lparr>p_components := (p_components p)(User := components u User)\<rparr>"]
        assms(2) by simp
    ultimately show ?thesis
      using end_point [of "p\<lparr>p_components := (p_components p)(User := components u User, Password := components u Password)\<rparr>"]
        assms(2)
      by (simp add: readAuthority_def start [simplified] tok [simplified])
  qed
qed

lemma absolute_roundtrip: "wf_absolute u \<Longrightarrow> parse_url (encode u) = Inr u"
proof -
  assume w: "wf_absolute u"
  then obtain sc where sc: "components u Scheme = Some sc" "sc \<noteq> []" "CHR '':'' \<notin> set sc" "hd sc \<noteq> CHR ''/''"
    by (auto simp: wf_absolute_def wf_component_def)
  have e: "encode u = sc @ CHR '':'' # ''//'' @ encode_authority u @ tail_text u"
    using sc by (simp add: encode_def tail_text_def)
  have s: "separate (encode u) CHR '':'' = (sc, ''//'' @ encode_authority u @ tail_text u)"
    unfolding e by (rule separate_append [OF sc(3)])
  let ?p = "(url_parser_new (encode u))\<lparr>p_components := [Scheme \<mapsto> sc]\<rparr>"
  let ?q = "?p\<lparr>p_components := (p_components ?p)(User := components u User, Password := components u Password,
      Host := components u Host, Port := components u Port)\<rparr>"
  have a: "addMandatoryComponent Scheme sc (url_parser_new (encode u)) = Inr ?p"
    using sc(2) by (simp add: addMandatoryComponent_def url_parser_new_def)
  have r: "readAuthority (''//'' @ encode_authority u @ tail_text u) ?p =
      Inr (?q, length (''//'' @ encode_authority u))"
    by (rule readAuthority_text [OF w]) simp
  have t: "readRest ((''//'' @ encode_authority u) @ tail_text u) (length (''//'' @ encode_authority u)) ?q =
      Inr \<lparr>components = (p_components ?q)(Path := components u Path, Fragment := components u Fragment),
           query = query u\<rparr>"
    using w by (intro readRest_text) (simp_all add: wf_absolute_def url_parser_new_def)
  have c: "(p_components ?q)(Path := components u Path, Fragment := components u Fragment) = components u"
  proof
    fix x show "((p_components ?q)(Path := components u Path, Fragment := components u Fragment)) x = components u x"
      by (cases x) (simp_all add: sc)
  qed
  have h: "(case encode u of [] \<Rightarrow> NUL | c # cs \<Rightarrow> c) \<noteq> CHR ''/''"
    using sc by (cases sc) (simp_all add: e)
  have "parse_url (encode u) =
      readRest ((''//'' @ encode_authority u) @ tail_text u) (length (''//'' @ encode_authority u)) ?q"
    using h a r by (simp add: parse_url_def parser_build_def) (simp add: url_parser_new_def s [simplified])
  also have "\<dots> = Inr u" using t c by simp
  finally show ?thesis .
qed

lemma parse_encode_raw: "wf_url u \<Longrightarrow> parse_url (encode u) = Inr u"
  unfolding wf_url_def using absolute_roundtrip relative_roundtrip by blast

section \<open>The builder as a registry of components\<close>

definition all_components :: "component_name list" where
  "all_components = [Scheme, User, Password, Host, Port, Path, Fragment]"

definition map_items :: "'k list \<Rightarrow> ('k \<Rightarrow> 'v option) \<Rightarrow> ('k \<times> 'v) list" where
  "map_items ks m = map (\<lambda>k. (k, the (m k))) (filter (\<lambda>k. m k \<noteq> None) ks)"

lemma map_items_other: "k \<notin> set ks \<Longrightarrow> map_items ks (m(k \<mapsto> v)) = map_items ks m"
  unfolding map_items_def by (intro map_cong filter_cong) auto

lemma map_items_Cons:
  "map_items (j # js) n = (case n j of None \<Rightarrow> [] | Some w \<Rightarrow> [(j, w)]) @ map_items js n"
  by (auto simp: map_items_def)

lemma map_items_put:
  "distinct ks \<Longrightarrow> k \<in> set ks \<Longrightarrow> m k = None \<Longrightarrow>
   mset (map_items ks (m(k \<mapsto> v))) = add_mset (k, v) (mset (map_items ks m))"
proof (induction ks)
  case (Cons j js)
  show ?case
  proof (cases "j = k")
    case True
    with Cons.prems have "map_items js (m(k \<mapsto> v)) = map_items js m" by (intro map_items_other) auto
    with True Cons.prems show ?thesis by (simp add: map_items_Cons fun_upd_def)
  next
    case False
    with Cons show ?thesis by (auto simp: map_items_Cons split: option.splits)
  qed
qed simp

lemma in_all_components [simp]: "c \<in> set all_components"
  by (cases c) (simp_all add: all_components_def)

lemma distinct_all_components [simp]: "distinct all_components"
  by (simp add: all_components_def)

definition put_component :: "component_name \<times> string \<Rightarrow> url_builder \<Rightarrow> url_builder option" where
  "put_component cv b = to_option (setComponent (fst cv) (snd cv) b)"

definition look_component :: "component_name \<Rightarrow> url_builder \<Rightarrow> (component_name \<times> string) option" where
  "look_component c b = map_option (Pair c) (b_components b c)"

interpretation builder: open_registry "\<lambda>b. map_items all_components (b_components b)" fst
  put_component look_component
proof (unfold_locales, goal_cases)
  case (1 e s s')
  then show ?case
    by (auto simp: put_component_def setComponent_def map_items_def split: if_splits)
next
  case (2 e s s')
  then have "b_components s (fst e) = None" "s' = s\<lparr>b_components := (b_components s)(fst e \<mapsto> snd e)\<rparr>"
    by (auto simp: put_component_def setComponent_def split: if_splits)
  then show ?case using map_items_put [of all_components "fst e" "b_components s" "snd e"] by simp
next
  case (3 k s e)
  then show ?case by (auto simp: look_component_def map_items_def image_iff)
next
  case (4 k s)
  then show ?case by (auto simp: look_component_def map_items_def)
next
  case (5 e s)
  then have "b_components s (fst e) = None" by (force simp: map_items_def image_iff)
  then show ?case by (simp add: put_component_def setComponent_def)
qed

section \<open>Properties\<close>

text \<open>
  C4: parsing the text of a well-formed URL, absolute or relative, gives the URL back:
  every component, and the query pairs in their order.
\<close>

theorem parse_encode: "wf_url u \<Longrightarrow> parse_url (encode u) = Inr u"
  by (rule parse_encode_raw)

definition sample_url :: url where
  "sample_url =
     \<lparr>components = [Scheme \<mapsto> ''http'', User \<mapsto> ''me'', Password \<mapsto> ''pw'', Host \<mapsto> ''h.org'', Port \<mapsto> ''80'',
        Path \<mapsto> ''/p'', Fragment \<mapsto> ''#f''],
      query = [(''k'', ''v''), (''e'', [])]\<rparr>"

lemma parse_encode_witness:
  "parse_url ''http://me:pw@h.org:80/p?k=v&e#f'' = Inr sample_url"
proof -
  have "wf_url sample_url"
    by (simp add: wf_url_def wf_absolute_def sample_url_def wf_component_def wf_tail_def tail_text_def
        encode_query_def key_value_text_def encode_user_def hasComponent_def wf_key_value_def
        isNumeric_def isdigit_def component_text_def getComponent_def)
  then have "parse_url (encode sample_url) = Inr sample_url" by (rule parse_encode)
  moreover have "encode sample_url = ''http://me:pw@h.org:80/p?k=v&e#f''"
    by (simp add: encode_def sample_url_def encode_authority_def encode_user_def encode_query_def
        key_value_text_def component_text_def getComponent_def hasComponent_def)
  ultimately show ?thesis by simp
qed

end
