(* ===== verification/HttpMessage.thy ===== *)
theory HttpMessage
  imports HttpUrl
begin

text \<open>
  \<open>http/HttpHeader\<close>, \<open>HttpCustomHeader\<close>, \<open>HttpMessage\<close>, \<open>HttpRequest\<close> and
  \<open>HttpResponse\<close>: the headers of a message, kept in order of creation and indexed by name,
  and the first lines.  \<open>m_directory\<close> maps a name to an iterator of the list of headers; as
  headers are only ever appended, the iterator is the position in the list.
\<close>

section \<open>Headers\<close>

text \<open>
  \<open>HttpHeader::Type::_v\<close>: \<open>Custom\<close> is -1 and the others are numbered from 0 in the order in
  which the header file declares them; \<open>Standard n\<close> is the enumerator number \<open>n\<close>.
\<close>

datatype header_type = Custom | Standard nat

abbreviation ContentLength :: header_type where "ContentLength \<equiv> Standard 31"

definition headerNames :: "string list" where
  "headerNames = [
     ''Cache-Control'', ''Connection'', ''Date'', ''Pragma'', ''Trailer'', ''Transfer-Encoding'',
     ''Upgrade'', ''Via'', ''Warning'', ''Accept'', ''Accept-Charset'', ''Accept-Encoding'',
     ''Accept-Language'', ''Authorization'', ''Expect'', ''From'', ''Host'', ''If-Match'', ''If-Modified-Since'',
     ''If-None-Match'', ''If-Range'', ''If-Unmodified-Since'', ''Max-Forwards'', ''Proxy-Authorization'',
     ''Range'', ''Referer'', ''TE'', ''User-Agent'', ''Allow'', ''Content-Encoding'', ''Content-Language'',
     ''Content-Length'', ''Content-Location'', ''Content-MD5'', ''Content-Range'', ''Content-Type'',
     ''Expires'', ''Last-Modified'', ''Accept-Ranges'', ''Age'', ''ETAG'', ''Location'', ''Proxy-Authenticate'',
     ''Retry-After'', ''Server'', ''Vary'', ''WWW-Authenticate'']"

definition header_type_as_string :: "header_type \<Rightarrow> string" where
  "header_type_as_string t = (case t of Custom \<Rightarrow> ''Custom'' | Standard n \<Rightarrow> headerNames ! n)"

text \<open>A \<open>HttpCustomHeader\<close> has a name of its own; a plain \<open>HttpHeader\<close> has none.\<close>

record http_header =
  h_type :: header_type
  h_name :: "string option"
  h_value :: string

definition header_instantiate :: "header_type \<Rightarrow> http_header" where
  "header_instantiate t = \<lparr>h_type = t, h_name = None, h_value = []\<rparr>"

definition custom_header_instantiate :: "string \<Rightarrow> http_header" where
  "custom_header_instantiate name = \<lparr>h_type = Custom, h_name = Some name, h_value = []\<rparr>"

definition custom_type_error :: exn where
  "custom_type_error = RuntimeException ''HttpHeader of type none can not be instantiated for users''"

definition header_get_name :: "http_header \<Rightarrow> string outcome" where
  "header_get_name h =
     (case h_name h of
        Some name \<Rightarrow> Inr name
      | None \<Rightarrow> (if h_type h = Custom then Inl custom_type_error
                 else Inr (header_type_as_string (h_type h))))"

definition header_set_value :: "string \<Rightarrow> http_header \<Rightarrow> http_header" where
  "header_set_value v h =
     (if h_value h = [] then h\<lparr>h_value := v\<rparr> else h\<lparr>h_value := h_value h @ '','' @ v\<rparr>)"

definition header_set_uint :: "cuint \<Rightarrow> http_header \<Rightarrow> http_header" where
  "header_set_uint v h = header_set_value (as_string_uint v) h"

definition header_encode :: "http_header \<Rightarrow> string outcome" where
  "header_encode h =
     (case header_get_name h of Inl e \<Rightarrow> Inl e | Inr name \<Rightarrow> Inr (name @ '':'' @ h_value h))"

section \<open>Messages\<close>

datatype http_method = MPort | Options | Get | Head | Put | Delete | Trace | Connect

fun method_index :: "http_method \<Rightarrow> nat" where
  "method_index MPort = 0"
| "method_index Options = 1"
| "method_index Get = 2"
| "method_index Head = 3"
| "method_index Put = 4"
| "method_index Delete = 5"
| "method_index Trace = 6"
| "method_index Connect = 7"

definition requestMethodNames :: "string list" where
  "requestMethodNames =
     [''PORT'', ''OPTIONS'', ''GET'', ''HEAD'', ''PUT'', ''DELETE'', ''TRACE'', ''CONNECT'']"

definition method_as_string :: "http_method \<Rightarrow> string" where
  "method_as_string m = requestMethodNames ! method_index m"

text \<open>
  A request has a method and an URL, a response a status code and a description.  The
  request a response was made from is stored but never read, and is left out.
\<close>

datatype http_kind =
    Request http_method url
  | Response cint string

type_synonym cushort = "16 word"

record http_message =
  major_version :: cushort
  minor_version :: cushort
  kind :: http_kind
  seq_headers :: "http_header list"
  directory :: "string \<Rightarrow> nat option"
  body :: string

definition message_new :: "cushort \<Rightarrow> cushort \<Rightarrow> http_kind \<Rightarrow> http_message" where
  "message_new major minor k =
     \<lparr>major_version = major, minor_version = minor, kind = k, seq_headers = [],
      directory = Map.empty, body = []\<rparr>"

definition hasCustomHeader :: "string \<Rightarrow> http_message \<Rightarrow> bool" where
  "hasCustomHeader name m = (directory m name \<noteq> None)"

definition hasHeader :: "header_type \<Rightarrow> http_message \<Rightarrow> bool outcome" where
  "hasHeader t m =
     (if t = Custom then Inl custom_type_error
      else Inr (directory m (header_type_as_string t) \<noteq> None))"

definition hasBody :: "http_message \<Rightarrow> bool" where
  "hasBody m = (body m \<noteq> [])"

definition getCustomHeaderValue :: "string \<Rightarrow> http_message \<Rightarrow> string outcome" where
  "getCustomHeaderValue name m =
     (case directory m name of
        None \<Rightarrow> Inl (RuntimeException (''Header '' @ name @ '' was not found''))
      | Some i \<Rightarrow> Inr (h_value (seq_headers m ! i)))"

definition getHeaderValue :: "header_type \<Rightarrow> http_message \<Rightarrow> string outcome" where
  "getHeaderValue t m =
     (if t = Custom then Inl custom_type_error
      else getCustomHeaderValue (header_type_as_string t) m)"

definition put_header :: "string \<Rightarrow> http_header \<Rightarrow> string \<Rightarrow> http_message \<Rightarrow> http_message" where
  "put_header name newHeader v m =
     (case directory m name of
        None \<Rightarrow> m\<lparr>seq_headers := seq_headers m @ [header_set_value v newHeader],
                  directory := (directory m)(name \<mapsto> length (seq_headers m))\<rparr>
      | Some i \<Rightarrow> m\<lparr>seq_headers := (seq_headers m)[i := header_set_value v (seq_headers m ! i)]\<rparr>)"

definition setHeader :: "header_type \<Rightarrow> string \<Rightarrow> http_message \<Rightarrow> http_message outcome" where
  "setHeader t v m =
     (if t = Custom then Inl custom_type_error
      else Inr (put_header (header_type_as_string t) (header_instantiate t) v m))"

definition setCustomHeader :: "string \<Rightarrow> string \<Rightarrow> http_message \<Rightarrow> http_message" where
  "setCustomHeader name v m = put_header name (custom_header_instantiate name) v m"

definition setBody :: "string \<Rightarrow> http_message \<Rightarrow> http_message" where
  "setBody b m = m\<lparr>body := b\<rparr>"

definition setBody_cstring :: "string \<Rightarrow> http_message \<Rightarrow> http_message" where
  "setBody_cstring b m = m\<lparr>body := c_str b\<rparr>"

definition clearBody :: "http_message \<Rightarrow> http_message" where
  "clearBody m = m\<lparr>body := []\<rparr>"

definition message_clear :: "http_message \<Rightarrow> http_message" where
  "message_clear m = m\<lparr>directory := Map.empty, seq_headers := [], body := []\<rparr>"

definition encodeVersion :: "http_message \<Rightarrow> string" where
  "encodeVersion m = ''HTTP/'' @ dec (unat (major_version m)) @ ''.'' @ dec (unat (minor_version m))"

section \<open>Requests and responses\<close>

text \<open>The versions arrive as 32-bit numbers and are stored in 16 bits.\<close>

definition request_instantiate :: "http_method \<Rightarrow> string \<Rightarrow> cuint \<Rightarrow> cuint \<Rightarrow> http_message outcome" where
  "request_instantiate method u major minor =
     (case parse_url u of
        Inl e \<Rightarrow> Inl e
      | Inr parsed \<Rightarrow> Inr (message_new (ucast major) (ucast minor) (Request method parsed)))"

definition getPath :: "url \<Rightarrow> string outcome" where
  "getPath u = getComponent u Path"

definition response_for :: "http_message \<Rightarrow> http_message" where
  "response_for request =
     message_new (major_version request) (minor_version request) (Response 200 [])"

definition response_instantiate :: "cushort \<Rightarrow> cushort \<Rightarrow> cint \<Rightarrow> string \<Rightarrow> http_message" where
  "response_instantiate major minor status description =
     message_new major minor (Response status description)"

fun setStatusCode :: "cint \<Rightarrow> http_kind \<Rightarrow> http_kind" where
  "setStatusCode s (Response status description) = Response s description"
| "setStatusCode s k = k"

fun setErrorDescription :: "string \<Rightarrow> http_kind \<Rightarrow> http_kind" where
  "setErrorDescription d (Response status description) = Response status d"
| "setErrorDescription d k = k"

fun isOk :: "http_kind \<Rightarrow> bool" where
  "isOk (Response status description) = (status = 200)"
| "isOk k = False"

definition reasons :: "(cint \<times> string) list" where
  "reasons = [
     (100, ''Continue''), (101, ''Switching Protocols''), (200, ''OK''), (201, ''Created''),
     (202, ''Accepted''), (203, ''Non-Authoritative Information''), (204, ''No Content''),
     (205, ''Reset Content''), (206, ''Partial Content''), (300, ''Multiple Choise''),
     (301, ''Moved Permanently''), (302, ''Found''), (303, ''See Other''), (304, ''Not Modified''),
     (305, ''Use proxy''), (307, ''Temporary Redirect''), (400, ''Bad Request''),
     (401, ''Unautorized''), (402, ''Payment Required''), (403, ''Forbidden''), (404, ''Not found''),
     (405, ''Method Not Allowed''), (406, ''Not Acceptable''), (407, ''Proxy Authentication Required''),
     (408, ''Request Time-out''), (409, ''Conflict''), (410, ''Gone''), (411, ''Length Required''),
     (412, ''Precondition Failed''), (413, ''Request Entity Too Large''), (414, ''Request-URI Too Large''),
     (415, ''Unsupported Media Type''), (416, ''Requested range not satisfiable''),
     (417, ''Expectation Failed''), (500, ''Internal Server Error''), (501, ''Not Implemented''),
     (502, ''Bad Gateway''), (503, ''Service Unavailable''), (504, ''Gateway Time-out''),
     (505, ''HTTP Version not supported'')]"

definition reason_phrase :: "cint \<Rightarrow> string \<Rightarrow> string" where
  "reason_phrase status description =
     (if description = [] then (case map_of reasons status of None \<Rightarrow> ''Unknown'' | Some r \<Rightarrow> r)
      else c_str description)"

definition encodeFirstLine :: "http_message \<Rightarrow> string" where
  "encodeFirstLine m =
     (case kind m of
        Request method u \<Rightarrow> method_as_string method @ '' '' @ encode u @ '' '' @ encodeVersion m
      | Response status description \<Rightarrow>
          encodeVersion m @ '' '' @ as_string_int status @ '' '' @ reason_phrase status description)"

section \<open>The index of the headers\<close>

text \<open>The name under which a header was registered.\<close>

definition indexed_name :: "http_header \<Rightarrow> string" where
  "indexed_name h = (case h_name h of Some name \<Rightarrow> name | None \<Rightarrow> header_type_as_string (h_type h))"

definition message_inv :: "http_message \<Rightarrow> bool" where
  "message_inv m \<longleftrightarrow>
     (\<forall>name i. directory m name = Some i \<longleftrightarrow>
        i < length (seq_headers m) \<and> indexed_name (seq_headers m ! i) = name) \<and>
     (\<forall>h \<in> set (seq_headers m). header_get_name h = Inr (indexed_name h))"

lemma message_inv_new: "message_inv (message_new a b k)"
  by (simp add: message_inv_def message_new_def)

lemma indexed_name_set_value [simp]: "indexed_name (header_set_value v h) = indexed_name h"
  by (cases "h_name h") (simp_all add: indexed_name_def header_set_value_def)

lemma get_name_set_value [simp]: "header_get_name (header_set_value v h) = header_get_name h"
  by (cases "h_name h") (simp_all add: header_get_name_def header_set_value_def)

lemma put_header_inv:
  assumes "message_inv m" "indexed_name newHeader = name" "header_get_name newHeader = Inr name"
  shows "message_inv (put_header name newHeader v m)"
proof (cases "directory m name")
  case None
  then have fresh: "\<And>i. i < length (seq_headers m) \<Longrightarrow> indexed_name (seq_headers m ! i) \<noteq> name"
    using assms(1) unfolding message_inv_def by (metis option.distinct(1))
  have d: "\<And>x i. directory m x = Some i \<longleftrightarrow> i < length (seq_headers m) \<and> indexed_name (seq_headers m ! i) = x"
    using assms(1) by (simp add: message_inv_def)
  have "((directory m)(name \<mapsto> length (seq_headers m))) x = Some i \<longleftrightarrow>
      i < length (seq_headers m @ [header_set_value v newHeader]) \<and>
      indexed_name ((seq_headers m @ [header_set_value v newHeader]) ! i) = x" for x i
    using fresh [of i] assms(2)
    by (cases "i < length (seq_headers m)"; cases "i = length (seq_headers m)")
      (auto simp: d nth_append)
  moreover have "\<forall>h \<in> set (seq_headers m). header_get_name h = Inr (indexed_name h)"
    using assms(1) by (simp add: message_inv_def)
  ultimately show ?thesis
    using None assms(2,3) by (simp add: put_header_def message_inv_def)
next
  case (Some i)
  then have i: "i < length (seq_headers m)" using assms(1) by (simp add: message_inv_def)
  have "indexed_name ((seq_headers m)[i := header_set_value v (seq_headers m ! i)] ! j) =
      indexed_name (seq_headers m ! j)" if "j < length (seq_headers m)" for j
    using i that by (cases "j = i") simp_all
  then have "(\<forall>x j. directory m x = Some j \<longleftrightarrow>
      j < length ((seq_headers m)[i := header_set_value v (seq_headers m ! i)]) \<and>
      indexed_name ((seq_headers m)[i := header_set_value v (seq_headers m ! i)] ! j) = x)"
    using assms(1) unfolding message_inv_def by (metis length_list_update)
  moreover have "\<forall>h \<in> set ((seq_headers m)[i := header_set_value v (seq_headers m ! i)]).
      header_get_name h = Inr (indexed_name h)"
  proof
    fix h assume "h \<in> set ((seq_headers m)[i := header_set_value v (seq_headers m ! i)])"
    then have "h = header_set_value v (seq_headers m ! i) \<or> h \<in> set (seq_headers m)"
      using set_update_subset_insert by fastforce
    then show "header_get_name h = Inr (indexed_name h)"
      using assms(1) i by (auto simp: message_inv_def)
  qed
  moreover have "put_header name newHeader v m =
      m\<lparr>seq_headers := (seq_headers m)[i := header_set_value v (seq_headers m ! i)]\<rparr>"
    using Some by (simp add: put_header_def)
  ultimately show ?thesis unfolding message_inv_def by simp
qed

lemma header_name_instantiate:
  "t \<noteq> Custom \<Longrightarrow> indexed_name (header_instantiate t) = header_type_as_string t"
  "t \<noteq> Custom \<Longrightarrow> header_get_name (header_instantiate t) = Inr (header_type_as_string t)"
  "indexed_name (custom_header_instantiate name) = name"
  "header_get_name (custom_header_instantiate name) = Inr name"
  by (simp_all add: header_instantiate_def custom_header_instantiate_def indexed_name_def header_get_name_def)

lemma setHeader_inv [invariants]:
  assumes "message_inv m" "setHeader t v m = Inr m'"
  shows "message_inv m'"
proof -
  have t: "t \<noteq> Custom" and m': "m' = put_header (header_type_as_string t) (header_instantiate t) v m"
    using assms(2) by (simp_all add: setHeader_def split: if_splits)
  show ?thesis unfolding m'
    by (rule put_header_inv [OF assms(1)]) (simp_all add: header_name_instantiate t)
qed

lemma setCustomHeader_inv [invariants]: "message_inv m \<Longrightarrow> message_inv (setCustomHeader n v m)"
  by (simp add: setCustomHeader_def header_name_instantiate put_header_inv)

text \<open>The directory is determined by the headers.\<close>

lemma inv_directory:
  "message_inv m \<Longrightarrow> directory m x = Some i \<longleftrightarrow>
     i < length (seq_headers m) \<and> indexed_name (seq_headers m ! i) = x"
  by (simp add: message_inv_def)

lemma directory_unique:
  assumes "message_inv m" "message_inv m'" "seq_headers m = seq_headers m'"
  shows "directory m = directory m'"
proof
  fix x
  have eq: "directory m x = Some i \<longleftrightarrow> directory m' x = Some i" for i
    unfolding inv_directory [OF assms(1)] inv_directory [OF assms(2)] assms(3) ..
  show "directory m x = directory m' x"
  proof (cases "directory m' x")
    case None
    then have "directory m x \<noteq> Some i" for i using eq None by simp
    with None show ?thesis by (metis option.exhaust)
  next
    case (Some i)
    then show ?thesis using eq by simp
  qed
qed

lemma get_put_header:
  assumes "message_inv m" "indexed_name newHeader = name" "header_get_name newHeader = Inr name"
    "h_value newHeader = []"
  shows "getCustomHeaderValue name (put_header name newHeader v m) =
     Inr (case getCustomHeaderValue name m of
            Inr (c # cs) \<Rightarrow> (c # cs) @ '','' @ v
          | _ \<Rightarrow> v)"
proof (cases "directory m name")
  case None
  with assms(4) show ?thesis
    by (simp add: getCustomHeaderValue_def put_header_def header_set_value_def)
next
  case (Some i)
  then have "i < length (seq_headers m)" using assms(1) by (simp add: message_inv_def)
  with Some show ?thesis
    by (simp add: getCustomHeaderValue_def put_header_def header_set_value_def split: list.splits)
qed

lemma put_header_other:
  assumes "message_inv m" "name \<noteq> other"
  shows "getCustomHeaderValue other (put_header name newHeader v m) = getCustomHeaderValue other m"
proof -
  have d: "i < length (seq_headers m) \<and> indexed_name (seq_headers m ! i) = x"
    if "directory m x = Some i" for x i
    using assms(1) that by (simp add: message_inv_def)
  show ?thesis
  proof (cases "directory m other")
    case None
    with assms(2) show ?thesis
      by (simp add: getCustomHeaderValue_def put_header_def split: option.splits)
  next
    case (Some j)
    note j = d [OF Some]
    show ?thesis
    proof (cases "directory m name")
      case None
      with Some j assms(2) show ?thesis
        by (simp add: getCustomHeaderValue_def put_header_def nth_append)
    next
      case (Some i)
      then have "i \<noteq> j" using d [OF Some] j assms(2) by auto
      with Some \<open>directory m other = Some j\<close> show ?thesis
        by (simp add: getCustomHeaderValue_def put_header_def)
    qed
  qed
qed

section \<open>Properties\<close>

text \<open>
  Setting a predefined header of a message and reading it back gives the value, or the
  previous non-empty value and the new one separated by a comma; every other header, and the
  consistency of the directory with the list of headers, are kept.
\<close>

theorem setHeader_getHeader:
  assumes "message_inv m" "t \<noteq> Custom"
  shows "\<exists>m'. setHeader t v m = Inr m' \<and> message_inv m' \<and>
     getHeaderValue t m' = Inr (case getHeaderValue t m of Inr (c # cs) \<Rightarrow> (c # cs) @ '','' @ v | _ \<Rightarrow> v) \<and>
     (\<forall>name. name \<noteq> header_type_as_string t \<longrightarrow> getCustomHeaderValue name m' = getCustomHeaderValue name m)"
proof -
  let ?n = "header_type_as_string t"
  let ?m = "put_header ?n (header_instantiate t) v m"
  have "setHeader t v m = Inr ?m" using assms(2) by (simp add: setHeader_def)
  moreover have "message_inv ?m"
    using assms by (intro put_header_inv) (simp_all add: header_name_instantiate)
  moreover have "getHeaderValue t ?m =
      Inr (case getHeaderValue t m of Inr (c # cs) \<Rightarrow> (c # cs) @ '','' @ v | _ \<Rightarrow> v)"
    using get_put_header [OF assms(1), of "header_instantiate t" ?n v] assms(2)
    by (simp add: getHeaderValue_def header_name_instantiate) (simp add: header_instantiate_def)
  ultimately show ?thesis using put_header_other [OF assms(1)] by auto
qed

lemma setHeader_getHeader_witness:
  "\<exists>m'. setHeader ContentLength ''5'' (message_new 1 1 (Response 200 [])) = Inr m' \<and>
     getHeaderValue ContentLength m' = Inr ''5''"
  using setHeader_getHeader [OF message_inv_new, of ContentLength "''5''" 1 1 "Response 200 []"]
  by (auto simp: getHeaderValue_def getCustomHeaderValue_def message_new_def)

end
