(* ===== verification/HttpCodec.thy ===== *)
theory HttpCodec
  imports HttpMessage
begin

text \<open>
  \<open>http/protocol\<close>: the encoder, and the decoder as the state machine of its four state
  classes.  The decoder splits the block at CR LF and hands one token after the other to the
  current state; an error of a state ends the decoding.
\<close>

abbreviation newLine :: string where "newLine \<equiv> [CR, LF]"

section \<open>Encoder\<close>

text \<open>
  The encoder adds the length of the body to the message it encodes, when the message has a
  body and no such header, and returns the message with the text.
\<close>

fun encode_headers :: "http_header list \<Rightarrow> string outcome" where
  "encode_headers [] = Inr []"
| "encode_headers (h # hs) =
     (case header_encode h of
        Inl e \<Rightarrow> Inl e
      | Inr line \<Rightarrow> (case encode_headers hs of Inl e \<Rightarrow> Inl e | Inr rest \<Rightarrow> Inr (line @ newLine @ rest)))"

definition add_content_length :: "http_message \<Rightarrow> http_message outcome" where
  "add_content_length m =
     (if hasBody m then
        (case hasHeader ContentLength m of
           Inl e \<Rightarrow> Inl e
         | Inr present \<Rightarrow>
             if \<not> present then setHeader ContentLength (dec (length (body m))) m else Inr m)
      else Inr m)"

definition encoder_apply :: "http_message \<Rightarrow> (string \<times> http_message) outcome" where
  "encoder_apply m =
     (let firstLine = encodeFirstLine m
      in case add_content_length m of
           Inl e \<Rightarrow> Inl e
         | Inr m1 \<Rightarrow>
             (case encode_headers (seq_headers m1) of
                Inl e \<Rightarrow> Inl e
              | Inr headers \<Rightarrow>
                  Inr (firstLine @ newLine @ headers @ newLine @ (if hasBody m then body m else []), m1)))"

section \<open>Decoder\<close>

datatype decoder_state = WaitingMessage | WaitingContentLength | WaitingBody | ReadBody

datatype process_result = Continue | Completed

record decoder =
  state :: decoder_state
  body_expected_size :: cuint
  decoded :: "http_message option"

definition decoder_new :: decoder where
  "decoder_new = \<lparr>state = WaitingMessage, body_expected_size = 0, decoded = None\<rparr>"

definition setState :: "decoder_state \<Rightarrow> decoder \<Rightarrow> decoder" where
  "setState s d = (if state d \<noteq> s then d\<lparr>state := s\<rparr> else d)"

fun index_strcase :: "string \<Rightarrow> string list \<Rightarrow> nat option" where
  "index_strcase item [] = None"
| "index_strcase item (n # ns) =
     (if strcaseeq item n then Some 0 else map_option Suc (index_strcase item ns))"

definition tryStandardType :: "string \<Rightarrow> header_type option" where
  "tryStandardType item = map_option Standard (index_strcase item headerNames)"

definition tryMethod :: "string \<Rightarrow> http_method option" where
  "tryMethod item =
     map_option (\<lambda>i. [MPort, Options, Get, Head, Put, Delete, Trace, Connect] ! i)
       (index_strcase item requestMethodNames)"

definition tryHttpVersion :: "string \<Rightarrow> (cushort \<times> cushort) option" where
  "tryHttpVersion item =
     (let (a, b) = separate (snd (separate item CHR ''/'')) CHR ''.''
      in if \<not> isNumeric a \<or> \<not> isNumeric b then None
         else Some (ucast (atoi a), ucast (atoi b)))"

fun description_loop :: "bool \<Rightarrow> string list \<Rightarrow> string" where
  "description_loop first [] = []"
| "description_loop first (w # ws) = (if first then [] else '' '') @ w @ description_loop False ws"

definition tryResponse :: "string list \<Rightarrow> http_message option" where
  "tryResponse items =
     (if length items < 3 then None
      else if \<not> strncaseeq 4 (items ! 0) ''http'' then None
      else case tryHttpVersion (items ! 0) of
             None \<Rightarrow> None
           | Some (major, minor) \<Rightarrow>
               (let statusCode = items ! 1
                in if \<not> isNumeric statusCode then None
                   else Some (response_instantiate major minor (atoi statusCode)
                                (description_loop True (drop 2 items)))))"

definition tryRequest :: "string list \<Rightarrow> http_message option outcome" where
  "tryRequest items =
     (if length items < 3 then Inr None
      else case tryMethod (items ! 0) of
             None \<Rightarrow> Inr None
           | Some method \<Rightarrow>
               (case tryHttpVersion (items ! 2) of
                  None \<Rightarrow> Inr None
                | Some (major, minor) \<Rightarrow>
                    (case request_instantiate method (items ! 1) (ucast major) (ucast minor) of
                       Inl e \<Rightarrow> Inl e
                     | Inr m \<Rightarrow> Inr (Some m))))"

definition process_waiting_message :: "string \<Rightarrow> decoder \<Rightarrow> (decoder \<times> process_result) outcome" where
  "process_waiting_message token d =
     (let items = fst (split token CHR '' '')
      in case (case tryResponse items of Some m \<Rightarrow> Inr (Some m) | None \<Rightarrow> tryRequest items) of
           Inl e \<Rightarrow> Inl e
         | Inr None \<Rightarrow> Inr (d, Continue)
         | Inr (Some m) \<Rightarrow> Inr (setState WaitingContentLength (d\<lparr>decoded := Some m\<rparr>), Continue))"

text \<open>
  A header line, read in the two states before the body; both are entered only once there is
  a message, so that the first case below never happens.
\<close>

definition read_header :: "string \<Rightarrow> decoder \<Rightarrow> (decoder \<times> header_type \<times> string) outcome" where
  "read_header token d =
     (let (name, v) = separate token CHR '':''
      in case decoded d of
           None \<Rightarrow> Inr (d, Custom, v)
         | Some m \<Rightarrow>
             (case tryStandardType name of
                Some t \<Rightarrow>
                  (case setHeader t v m of
                     Inl e \<Rightarrow> Inl e
                   | Inr m1 \<Rightarrow> Inr (d\<lparr>decoded := Some m1\<rparr>, t, v))
              | None \<Rightarrow> Inr (d\<lparr>decoded := Some (setCustomHeader name v m)\<rparr>, Custom, v)))"

definition process_waiting_content_length :: "string \<Rightarrow> decoder \<Rightarrow> (decoder \<times> process_result) outcome" where
  "process_waiting_content_length token d =
     (if token = [] then Inr (d, Completed)
      else case read_header token d of
             Inl e \<Rightarrow> Inl e
           | Inr (d1, t, v) \<Rightarrow>
               Inr (if t = ContentLength \<and> isNumeric v
                    then setState WaitingBody (d1\<lparr>body_expected_size := of_nat (atol v)\<rparr>)
                    else d1, Continue))"

definition process_waiting_body :: "string \<Rightarrow> decoder \<Rightarrow> (decoder \<times> process_result) outcome" where
  "process_waiting_body token d =
     (if token = [] then Inr (setState ReadBody d, Continue)
      else case read_header token d of Inl e \<Rightarrow> Inl e | Inr (d1, t, v) \<Rightarrow> Inr (d1, Continue))"

definition process_read_body :: "string \<Rightarrow> decoder \<Rightarrow> (decoder \<times> process_result) outcome" where
  "process_read_body token d =
     (if length token \<noteq> unat (body_expected_size d)
      then Inl (RuntimeException (''Body length received ('' @ dec (unat (body_expected_size d))
              @ '') does not match the received ('' @ dec (length token) @ '')''))
      else Inr (d\<lparr>decoded := map_option (setBody token) (decoded d)\<rparr>, Completed))"

fun process :: "decoder_state \<Rightarrow> string \<Rightarrow> decoder \<Rightarrow> (decoder \<times> process_result) outcome" where
  "process WaitingMessage = process_waiting_message"
| "process WaitingContentLength = process_waiting_content_length"
| "process WaitingBody = process_waiting_body"
| "process ReadBody = process_read_body"

text \<open>The token at a position and the position after it; \<open>None\<close> at the end of the block.\<close>

definition readToken :: "string \<Rightarrow> nat \<Rightarrow> (string \<times> nat) option" where
  "readToken block pos =
     (if pos = length block then None
      else case find_str block newLine pos of
             None \<Rightarrow> Some (drop pos block, length block)
           | Some endToken \<Rightarrow>
               if endToken = pos then Some ([], pos + 2)
               else Some (take (endToken - pos) (drop pos block), endToken + 2))"

lemma readToken_progress:
  assumes "readToken block pos = Some (token, pos')"
  shows "pos' = length block \<or> pos < pos' \<and> pos' \<le> length block"
proof (cases "find_str block newLine pos")
  case None
  with assms show ?thesis by (simp add: readToken_def split: if_splits)
next
  case (Some e)
  then obtain i where "index_of_str newLine (drop pos block) = Some i" "e = pos + i" "pos \<le> length block"
    by (auto simp: find_str_def split: if_splits)
  with index_of_str_Some [of newLine "drop pos block" i] Some assms show ?thesis
    by (auto simp: readToken_def split: if_splits)
qed

lemma readToken_end: "readToken block (length block) = None"
  by (simp add: readToken_def)

function decode_loop :: "string \<Rightarrow> nat \<Rightarrow> decoder \<Rightarrow> decoder outcome" where
  "decode_loop block pos d =
     (case readToken block pos of
        None \<Rightarrow> Inr d
      | Some (token, pos') \<Rightarrow>
          (case process (state d) token d of
             Inl e \<Rightarrow> Inl e
           | Inr (d', Completed) \<Rightarrow> Inr d'
           | Inr (d', Continue) \<Rightarrow> decode_loop block pos' d'))"
  by pat_completeness auto
termination
  by (relation "measure (\<lambda>(block, pos, d). if pos = length block then 0 else Suc (length block - pos))")
    (auto simp: readToken_end dest: readToken_progress)

declare decode_loop.simps [simp del]

definition decoder_apply :: "string \<Rightarrow> http_message outcome" where
  "decoder_apply block =
     (case decode_loop block 0 decoder_new of
        Inl e \<Rightarrow> Inl e
      | Inr d \<Rightarrow>
          (case decoded d of
             None \<Rightarrow> Inl (RuntimeException ''Unable to allocate an HTTP message'')
           | Some m \<Rightarrow> Inr m))"

section \<open>Tokens of an encoded text\<close>

lemma index_of_newLine: "CR \<notin> set tok \<Longrightarrow> index_of_str newLine (tok @ CR # LF # rest) = Some (length tok)"
proof (induction tok)
  case Nil
  then show ?case by simp
next
  case (Cons c tok)
  then have "take 2 (c # tok @ CR # LF # rest) \<noteq> newLine" by auto
  with Cons show ?case by simp
qed

lemma readToken_line:
  assumes "CR \<notin> set tok"
  shows "readToken (pre @ tok @ newLine @ rest) (length pre) = Some (tok, length (pre @ tok @ newLine))"
  using index_of_newLine [OF assms, of rest] by (simp add: readToken_def find_str_def)

lemma readToken_last:
  assumes "b \<noteq> []" "index_of_str newLine b = None"
  shows "readToken (pre @ b) (length pre) = Some (b, length (pre @ b))"
  using assms by (simp add: readToken_def find_str_def)

lemma decode_line:
  assumes "CR \<notin> set tok" "process (state d) tok d = Inr (d', Continue)"
  shows "decode_loop (pre @ tok @ newLine @ rest) (length pre) d =
     decode_loop ((pre @ tok @ newLine) @ rest) (length (pre @ tok @ newLine)) d'"
  by (subst decode_loop.simps) (simp add: readToken_line [OF assms(1), simplified] assms(2))

section \<open>Header lines\<close>

text \<open>
  A header the decoder reads back as it was: its name is one of the predefined names, or a
  name that is none of them and has no colon; no line contains a CR.
\<close>

definition wf_header :: "http_header \<Rightarrow> bool" where
  "wf_header h =
     ((case h_type h of
         Standard i \<Rightarrow> i < length headerNames \<and> h_name h = None
       | Custom \<Rightarrow> (case h_name h of
           None \<Rightarrow> False
         | Some n \<Rightarrow> tryStandardType n = None \<and> CHR '':'' \<notin> set n \<and> CR \<notin> set n))
      \<and> CR \<notin> set (h_value h))"

definition header_line :: "http_header \<Rightarrow> string" where
  "header_line h = indexed_name h @ CHR '':'' # h_value h"

fun header_lines :: "http_header list \<Rightarrow> string" where
  "header_lines [] = []"
| "header_lines (h # hs) = header_line h @ newLine @ header_lines hs"

lemma index_strcase_nth:
  "distinct (map (\<lambda>n. map tolower (c_str n)) ns) \<Longrightarrow> i < length ns \<Longrightarrow> index_strcase (ns ! i) ns = Some i"
proof (induction ns arbitrary: i)
  case (Cons n ns)
  show ?case
  proof (cases i)
    case (Suc j)
    with Cons.prems have "map tolower (c_str (ns ! j)) \<noteq> map tolower (c_str n)"
      by (auto simp: image_iff) (metis nth_mem)
    with Suc Cons show ?thesis by (simp add: strcaseeq_def)
  qed simp
qed simp

lemma distinct_headerNames: "distinct (map (\<lambda>n. map tolower (c_str n)) headerNames)"
  by (simp add: headerNames_def c_str_def tolower_def ord_def)

lemma clean_headerNames: "list_all (\<lambda>n. CHR '':'' \<notin> set n \<and> CR \<notin> set n) headerNames"
  by (simp add: headerNames_def)

lemma standard_name:
  assumes "i < length headerNames"
  shows "tryStandardType (headerNames ! i) = Some (Standard i)"
    "CHR '':'' \<notin> set (headerNames ! i)" "CR \<notin> set (headerNames ! i)"
  using index_strcase_nth [OF distinct_headerNames assms] clean_headerNames assms
  by (simp_all add: list_all_length tryStandardType_def)

lemma wf_header_name:
  assumes "wf_header h"
  shows "header_get_name h = Inr (indexed_name h)"
    "CHR '':'' \<notin> set (indexed_name h)" "CR \<notin> set (header_line h)"
    "tryStandardType (indexed_name h) = (if h_type h = Custom then None else Some (h_type h))"
    "header_set_value (h_value h)
       (if h_type h = Custom then custom_header_instantiate (indexed_name h) else header_instantiate (h_type h)) = h"
proof -
  have "header_get_name h = Inr (indexed_name h) \<and>
    CHR '':'' \<notin> set (indexed_name h) \<and> CR \<notin> set (header_line h) \<and>
    tryStandardType (indexed_name h) = (if h_type h = Custom then None else Some (h_type h)) \<and>
    header_set_value (h_value h)
       (if h_type h = Custom then custom_header_instantiate (indexed_name h) else header_instantiate (h_type h)) = h"
  proof (cases "h_type h")
    case Custom
    with assms obtain n where n: "h_name h = Some n" "tryStandardType n = None"
      "CHR '':'' \<notin> set n" "CR \<notin> set n" "CR \<notin> set (h_value h)"
      by (auto simp: wf_header_def split: option.splits)
    with Custom show ?thesis
      by (auto simp: indexed_name_def header_get_name_def header_line_def header_set_value_def
          custom_header_instantiate_def intro: http_header.equality)
  next
    case (Standard i)
    with assms have i: "i < length headerNames" "h_name h = None" "CR \<notin> set (h_value h)"
      by (auto simp: wf_header_def)
    with Standard standard_name [OF i(1)] show ?thesis
      by (auto simp: indexed_name_def header_get_name_def header_line_def header_set_value_def
          header_instantiate_def header_type_as_string_def intro: http_header.equality)
  qed
  then show "header_get_name h = Inr (indexed_name h)"
    "CHR '':'' \<notin> set (indexed_name h)" "CR \<notin> set (header_line h)"
    "tryStandardType (indexed_name h) = (if h_type h = Custom then None else Some (h_type h))"
    "header_set_value (h_value h)
       (if h_type h = Custom then custom_header_instantiate (indexed_name h) else header_instantiate (h_type h)) = h"
    by simp_all
qed

lemma encode_headers_lines: "list_all wf_header hs \<Longrightarrow> encode_headers hs = Inr (header_lines hs)"
  by (induction hs) (simp_all add: header_encode_def wf_header_name header_line_def)

definition add_header :: "http_header \<Rightarrow> http_message \<Rightarrow> http_message" where
  "add_header h m = m\<lparr>seq_headers := seq_headers m @ [h],
     directory := (directory m)(indexed_name h \<mapsto> length (seq_headers m))\<rparr>"

lemma put_fresh_header:
  assumes "directory m (indexed_name h) = None" "wf_header h"
  shows "put_header (indexed_name h)
     (if h_type h = Custom then custom_header_instantiate (indexed_name h) else header_instantiate (h_type h))
     (h_value h) m = add_header h m"
  using assms by (simp only: put_header_def add_header_def wf_header_name(5) option.case)

lemma read_header_line:
  assumes "wf_header h" "decoded d = Some m" "directory m (indexed_name h) = None"
  shows "read_header (header_line h) d =
     Inr (d\<lparr>decoded := Some (add_header h m)\<rparr>, h_type h, h_value h)"
proof -
  have s: "separate (header_line h) CHR '':'' = (indexed_name h, h_value h)"
    unfolding header_line_def by (rule separate_append) (rule wf_header_name [OF assms(1)])
  note put = put_fresh_header [OF assms(3,1)]
  show ?thesis
  proof (cases "h_type h = Custom")
    case True
    with put s assms wf_header_name(4) [OF assms(1)] show ?thesis
      by (simp add: read_header_def setCustomHeader_def)
  next
    case False
    then have "header_type_as_string (h_type h) = indexed_name h"
      using assms(1) by (cases "h_type h") (auto simp: wf_header_def indexed_name_def)
    with False put s assms wf_header_name(4) [OF assms(1)] show ?thesis
      by (simp add: read_header_def setHeader_def)
  qed
qed

text \<open>What a header line does to the state and the expected size.\<close>

fun after_header :: "http_header \<Rightarrow> decoder_state \<times> cuint \<Rightarrow> decoder_state \<times> cuint" where
  "after_header h (s, e) =
     (if s = WaitingContentLength \<and> h_type h = ContentLength \<and> isNumeric (h_value h)
      then (WaitingBody, of_nat (atol (h_value h))) else (s, e))"

definition in_headers :: "decoder \<Rightarrow> bool" where
  "in_headers d \<longleftrightarrow> state d = WaitingContentLength \<or> state d = WaitingBody"

lemma process_header:
  assumes "wf_header h" "decoded d = Some m" "directory m (indexed_name h) = None" "in_headers d"
  obtains d' where "process (state d) (header_line h) d = Inr (d', Continue)"
    "decoded d' = Some (add_header h m)" "in_headers d'"
    "(state d', body_expected_size d') = after_header h (state d, body_expected_size d)"
proof -
  note r = read_header_line [OF assms(1-3)]
  have ne: "header_line h \<noteq> []" by (simp add: header_line_def)
  show ?thesis
  proof (cases "state d = WaitingBody")
    case True
    then show ?thesis
      using r ne by (intro that [of "d\<lparr>decoded := Some (add_header h m)\<rparr>"])
        (simp_all add: process_waiting_body_def in_headers_def)
  next
    case False
    with assms(4) have w: "state d = WaitingContentLength" by (simp add: in_headers_def)
    show ?thesis
    proof (cases "h_type h = ContentLength \<and> isNumeric (h_value h)")
      case True
      then show ?thesis
        using r ne w
        by (intro that [of "d\<lparr>decoded := Some (add_header h m), state := WaitingBody,
              body_expected_size := of_nat (atol (h_value h))\<rparr>"])
          (simp_all add: process_waiting_content_length_def in_headers_def setState_def)
    next
      case False
      then show ?thesis
        using r ne w by (intro that [of "d\<lparr>decoded := Some (add_header h m)\<rparr>"])
          (auto simp: process_waiting_content_length_def in_headers_def)
    qed
  qed
qed

lemma add_header_inv:
  assumes "message_inv m" "wf_header h" "directory m (indexed_name h) = None"
  shows "message_inv (add_header h m)"
proof -
  let ?f = "if h_type h = Custom then custom_header_instantiate (indexed_name h) else header_instantiate (h_type h)"
  have e: "header_set_value (h_value h) ?f = h" by (rule wf_header_name(5) [OF assms(2)])
  have "indexed_name ?f = indexed_name h" "header_get_name ?f = Inr (indexed_name h)"
    using indexed_name_set_value [of "h_value h" ?f] get_name_set_value [of "h_value h" ?f]
      wf_header_name(1) [OF assms(2)] unfolding e by simp_all
  from put_header_inv [OF assms(1) this, of "h_value h"] show ?thesis
    unfolding put_fresh_header [OF assms(3,2)] .
qed

lemma fresh_directory:
  assumes "message_inv m" "n \<notin> indexed_name ` set (seq_headers m)"
  shows "directory m n = None"
proof (cases "directory m n")
  case (Some i)
  with assms show ?thesis using inv_directory [OF assms(1)] by force
qed

lemma decode_headers:
  assumes "list_all wf_header hs" "decoded d = Some m" "message_inv m" "in_headers d"
    "distinct (map indexed_name (seq_headers m @ hs))"
  shows "\<exists>d' m'. decode_loop (pre @ header_lines hs @ rest) (length pre) d =
      decode_loop ((pre @ header_lines hs) @ rest) (length (pre @ header_lines hs)) d' \<and>
      decoded d' = Some m' \<and> message_inv m' \<and> in_headers d' \<and>
      seq_headers m' = seq_headers m @ hs \<and>
      kind m' = kind m \<and> major_version m' = major_version m \<and> minor_version m' = minor_version m \<and>
      body m' = body m \<and>
      (state d', body_expected_size d') = fold after_header hs (state d, body_expected_size d)"
  using assms
proof (induction hs arbitrary: pre d m)
  case Nil
  then show ?case by auto
next
  case (Cons h hs)
  have wf: "wf_header h" using Cons.prems(1) by simp
  have fresh: "directory m (indexed_name h) = None"
    using Cons.prems(3,5) by (intro fresh_directory) auto
  obtain d1 where d1: "process (state d) (header_line h) d = Inr (d1, Continue)"
    "decoded d1 = Some (add_header h m)" "in_headers d1"
    "(state d1, body_expected_size d1) = after_header h (state d, body_expected_size d)"
    by (rule process_header [OF wf Cons.prems(2) fresh Cons.prems(4)])
  let ?pre = "pre @ header_line h @ newLine"
  have inv: "message_inv (add_header h m)" by (rule add_header_inv [OF Cons.prems(3) wf fresh])
  have d: "distinct (map indexed_name (seq_headers (add_header h m) @ hs))"
    using Cons.prems(5) by (simp add: add_header_def)
  have step: "decode_loop (pre @ header_lines (h # hs) @ rest) (length pre) d =
      decode_loop (?pre @ header_lines hs @ rest) (length ?pre) d1"
    using decode_line [OF wf_header_name(3) [OF wf] d1(1), of pre "header_lines hs @ rest"] by simp
  have "list_all wf_header hs" using Cons.prems(1) by simp
  from Cons.IH [OF this d1(2) inv d1(3) d, of ?pre] obtain d' m' where
    "decode_loop (?pre @ header_lines hs @ rest) (length ?pre) d1 =
      decode_loop ((?pre @ header_lines hs) @ rest) (length (?pre @ header_lines hs)) d' \<and>
      decoded d' = Some m' \<and> message_inv m' \<and> in_headers d' \<and>
      seq_headers m' = seq_headers (add_header h m) @ hs \<and>
      kind m' = kind (add_header h m) \<and> major_version m' = major_version (add_header h m) \<and>
      minor_version m' = minor_version (add_header h m) \<and> body m' = body (add_header h m) \<and>
      (state d', body_expected_size d') = fold after_header hs (state d1, body_expected_size d1)"
    by auto
  with step d1(4) show ?case by (intro exI [of _ d'] exI [of _ m']) (simp add: add_header_def)
qed

lemma fold_after_body: "fold after_header hs (WaitingBody, e) = (WaitingBody, e)"
  by (induction hs) auto

lemma fold_content_length:
  assumes "\<forall>h \<in> set hs. h_type h = ContentLength \<longrightarrow> h_value h = dec n"
    "\<exists>h \<in> set hs. h_type h = ContentLength" "n < 2 ^ 63"
  shows "fold after_header hs (WaitingContentLength, e) = (WaitingBody, of_nat n)"
  using assms
proof (induction hs)
  case (Cons h hs)
  then show ?case
    by (cases "h_type h = ContentLength") (auto simp: fold_after_body atol_dec)
qed simp

section \<open>The end of the message\<close>

lemma decode_end:
  assumes "in_headers d" "decoded d = Some m" "body m = []"
    "b = [] \<or> state d = WaitingBody \<and> unat (body_expected_size d) = length b \<and> index_of_str newLine b = None"
  shows "\<exists>d'. decode_loop (pre @ newLine @ b) (length pre) d = Inr d' \<and> decoded d' = Some (m\<lparr>body := b\<rparr>)"
proof (cases "state d = WaitingBody")
  case True
  have p: "process (state d) [] d = Inr (d\<lparr>state := ReadBody\<rparr>, Continue)"
    using True by (simp add: process_waiting_body_def setState_def)
  have "decode_loop (pre @ newLine @ b) (length pre) d =
      decode_loop ((pre @ newLine) @ b) (length (pre @ newLine)) (d\<lparr>state := ReadBody\<rparr>)"
    using decode_line [of "[]" d "d\<lparr>state := ReadBody\<rparr>" pre b] p by simp
  moreover have "\<exists>d'. decode_loop ((pre @ newLine) @ b) (length (pre @ newLine)) (d\<lparr>state := ReadBody\<rparr>) = Inr d'
      \<and> decoded d' = Some (m\<lparr>body := b\<rparr>)"
  proof (cases "b = []")
    case True
    then show ?thesis
      using assms(2,3) readToken_end [of "pre @ newLine"]
      by (subst decode_loop.simps) (simp add: http_message.equality)
  next
    case False
    with assms(4) have b: "unat (body_expected_size d) = length b" "index_of_str newLine b = None" by auto
    show ?thesis
      using readToken_last [OF False b(2), of "pre @ newLine"] b(1) assms(2)
      by (subst decode_loop.simps) (simp add: process_read_body_def setBody_def)
  qed
  ultimately show ?thesis by simp
next
  case False
  with assms(1,4) have w: "state d = WaitingContentLength" and b: "b = []" by (auto simp: in_headers_def)
  have "decode_loop (pre @ newLine @ b) (length pre) d = Inr d"
    using readToken_line [of "[]" pre b] w
    by (subst decode_loop.simps) (simp add: process_waiting_content_length_def)
  then show ?thesis using assms(2,3) b by (simp add: http_message.equality)
qed

section \<open>First lines\<close>

definition words :: "string \<Rightarrow> string list" where
  "words s = fst (split s CHR '' '')"

text \<open>A text that is its words separated by one blank each, and fits in a line.\<close>

definition wf_words :: "string \<Rightarrow> bool" where
  "wf_words s \<longleftrightarrow> s \<noteq> [] \<and> NUL \<notin> set s \<and> CR \<notin> set s \<and> join_with CHR '' '' (words s) = s"

lemma split_loop_items:
  "\<forall>a \<in> set (fst (split_loop d s)). a \<noteq> [] \<and> d \<notin> set a \<and> set a \<subseteq> set s"
proof (induction d s rule: split_loop.induct)
  case (1 d s)
  let ?r = "dropWhile (\<lambda>c. c = d) s"
  show ?case
  proof (cases "?r = []")
    case True
    then show ?thesis by (subst split_loop.simps) simp
  next
    case False
    let ?i = "takeWhile (\<lambda>c. c \<noteq> d) ?r"
    have r: "set ?r \<subseteq> set s" by (auto dest: set_dropWhileD)
    have i: "?i \<noteq> [] \<and> d \<notin> set ?i \<and> set ?i \<subseteq> set s"
      using False hd_dropWhile [of "\<lambda>c. c = d" s] r
      by (cases ?r) (auto dest: set_takeWhileD)
    show ?thesis
    proof (cases "dropWhile (\<lambda>c. c \<noteq> d) ?r")
      case Nil
      then have "fst (split_loop d s) = [?i]"
        using False by (subst split_loop.simps) (simp only: Let_def if_False list.case fst_conv)
      then show ?thesis using i by (simp only: list.set ball_simps simp_thms)
    next
      case (Cons x rest)
      have "set rest \<subseteq> set s"
        using Cons r set_dropWhileD [of _ "\<lambda>c. c \<noteq> d" ?r] by (metis list.set_intros(2) subset_iff)
      moreover have "fst (split_loop d s) = ?i # fst (split_loop d rest)"
        using False Cons by (subst split_loop.simps) (simp add: Let_def case_prod_beta)
      moreover have "\<forall>a \<in> set (fst (split_loop d rest)). a \<noteq> [] \<and> d \<notin> set a \<and> set a \<subseteq> set rest"
        using 1 [OF refl refl False refl Cons] .
      ultimately show ?thesis using i by simp (meson order_trans)
    qed
  qed
qed

lemma words_ok:
  assumes "wf_words s"
  shows "words s \<noteq> []" "\<forall>a \<in> set (words s). a \<noteq> [] \<and> CHR '' '' \<notin> set a \<and> NUL \<notin> set a"
  using assms split_loop_items [of "CHR '' ''" "c_str s"]
  by (auto simp: wf_words_def words_def split_def case_prod_beta)

lemma description_loop_join:
  "description_loop b (w # ws) = (if b then [] else '' '') @ join_with CHR '' '' (w # ws)"
proof (induction ws arbitrary: b w)
  case (Cons v ws)
  show ?case using Cons.IH [of False v] by simp
qed simp

lemma description_loop_True: "description_loop True ws = join_with CHR '' '' ws"
  by (cases ws) (simp_all add: description_loop_join del: description_loop.simps(2))

lemma not_in_dec: "\<not> isdigit c \<Longrightarrow> c \<notin> set (dec n)"
  using dec_digits by blast

lemma special_not_digit:
  "\<not> isdigit CHR ''/''" "\<not> isdigit CHR ''.''" "\<not> isdigit CHR '' ''" "\<not> isdigit CR" "\<not> isdigit NUL"
  by (simp_all add: isdigit_def)

lemma unat_small: "unat (v :: cushort) < 2 ^ 63"
  by (rule less_le_trans [OF unsigned_less]) simp

lemma atoi_version: "ucast (atoi (dec (unat (v :: cushort)))) = v"
proof -
  have "unat v < 2 ^ 32" by (rule less_le_trans [OF unsigned_less]) simp
  then have "take_bit 32 (unat v) = unat v" by (simp add: take_bit_nat_eq_self)
  then show ?thesis by (simp add: atoi_def atol_dec [OF unat_small] unsigned_of_nat ucast_up_ucast_id is_up)
qed

lemma version_text:
  "tryHttpVersion (encodeVersion m) = Some (major_version m, minor_version m)"
  "encodeVersion m \<noteq> []" "CHR '' '' \<notin> set (encodeVersion m)"
  "NUL \<notin> set (encodeVersion m)" "CR \<notin> set (encodeVersion m)"
proof -
  let ?a = "dec (unat (major_version m))" and ?b = "dec (unat (minor_version m))"
  have s1: "separate (''HTTP'' @ CHR ''/'' # ?a @ CHR ''.'' # ?b) CHR ''/'' = (''HTTP'', ?a @ CHR ''.'' # ?b)"
    by (rule separate_append) simp
  have s2: "separate (?a @ CHR ''.'' # ?b) CHR ''.'' = (?a, ?b)"
    by (rule separate_append) (rule not_in_dec [OF special_not_digit(2)])
  show "tryHttpVersion (encodeVersion m) = Some (major_version m, minor_version m)"
    using s1 s2 by (simp add: tryHttpVersion_def encodeVersion_def atoi_version)
  show "encodeVersion m \<noteq> []" "CHR '' '' \<notin> set (encodeVersion m)"
    "NUL \<notin> set (encodeVersion m)" "CR \<notin> set (encodeVersion m)"
    by (simp_all add: encodeVersion_def not_in_dec special_not_digit)
qed

lemma distinct_methodNames: "distinct (map (\<lambda>n. map tolower (c_str n)) requestMethodNames)"
  by (simp add: requestMethodNames_def c_str_def tolower_def ord_def)

lemma method_index_less: "method_index me < length requestMethodNames"
  by (cases me) (simp_all add: requestMethodNames_def)

lemma method_at_index: "[MPort, Options, Get, Head, Put, Delete, Trace, Connect] ! method_index me = me"
  by (cases me) simp_all

lemma method_text:
  "tryMethod (method_as_string me) = Some me" "\<not> strncaseeq 4 (method_as_string me) ''http''"
  "method_as_string me \<noteq> []" "CHR '' '' \<notin> set (method_as_string me)"
  "NUL \<notin> set (method_as_string me)" "CR \<notin> set (method_as_string me)"
proof -
  show "tryMethod (method_as_string me) = Some me"
    using index_strcase_nth [OF distinct_methodNames method_index_less [of me]] method_at_index [of me]
    by (simp add: tryMethod_def method_as_string_def)
  show "\<not> strncaseeq 4 (method_as_string me) ''http''"
    by (cases me) (simp_all add: method_as_string_def requestMethodNames_def strncaseeq_def c_str_def
        tolower_def ord_def char_of_eq_iff)
  show "method_as_string me \<noteq> []" "CHR '' '' \<notin> set (method_as_string me)"
    "NUL \<notin> set (method_as_string me)" "CR \<notin> set (method_as_string me)"
    by (cases me; simp add: method_as_string_def requestMethodNames_def)+
qed

definition normal_kind :: "http_kind \<Rightarrow> http_kind" where
  "normal_kind k =
     (case k of Request me u \<Rightarrow> Request me u
      | Response status description \<Rightarrow> Response status (reason_phrase status description))"

definition wf_first_line :: "http_kind \<Rightarrow> bool" where
  "wf_first_line k =
     (case k of
        Request me u \<Rightarrow> wf_url u \<and> encode u \<noteq> [] \<and> avoids [CHR '' '', NUL, CR] (encode u)
      | Response status description \<Rightarrow> 0 \<le>s status \<and> wf_words (reason_phrase status description))"

lemma status_text:
  assumes "0 \<le>s (status :: cint)"
  shows "as_string_int status = dec (nat (sint status))" "atoi (dec (nat (sint status))) = status"
proof -
  have s: "0 \<le> sint status" using assms by (simp add: word_sle_eq)
  then show "as_string_int status = dec (nat (sint status))"
    by (simp add: as_string_int_def int_to_string_def)
  have "sint status < 2 ^ 31" using sint_lt [of status] by simp
  then have "atol (dec (nat (sint status))) = nat (sint status)" by (intro atol_dec) simp
  then show "atoi (dec (nat (sint status))) = status" using s by (simp add: atoi_def)
qed

lemma process_first_line:
  assumes "wf_first_line (kind m)"
  shows "CR \<notin> set (encodeFirstLine m)"
    and "process WaitingMessage (encodeFirstLine m) decoder_new =
      Inr (decoder_new\<lparr>decoded := Some (message_new (major_version m) (minor_version m) (normal_kind (kind m))),
        state := WaitingContentLength\<rparr>, Continue)"
proof -
  have "CR \<notin> set (encodeFirstLine m) \<and>
    process WaitingMessage (encodeFirstLine m) decoder_new =
      Inr (decoder_new\<lparr>decoded := Some (message_new (major_version m) (minor_version m) (normal_kind (kind m))),
        state := WaitingContentLength\<rparr>, Continue)"
  proof (cases "kind m")
    case (Request me u)
    with assms have u: "wf_url u" "encode u \<noteq> []" "avoids [CHR '' '', NUL, CR] (encode u)"
      by (simp_all add: wf_first_line_def)
    let ?items = "[method_as_string me, encode u, encodeVersion m]"
    have l: "encodeFirstLine m = join_with CHR '' '' ?items"
      using Request by (simp add: encodeFirstLine_def)
    have items: "fst (split (join_with CHR '' '' ?items) CHR '' '') = ?items"
      using u by (intro split_join) (auto simp: method_text version_text)
    have c: "ucast (ucast v :: cuint) = v" for v :: cushort
      by (rule ucast_up_ucast_id) (simp add: is_up)
    have "tryRequest ?items = Inr (Some (message_new (major_version m) (minor_version m) (Request me u)))"
      using parse_encode_raw [OF u(1)]
      by (simp add: tryRequest_def method_text version_text request_instantiate_def c)
    moreover have "tryResponse ?items = None" by (simp add: tryResponse_def method_text)
    ultimately have "process WaitingMessage (encodeFirstLine m) decoder_new =
      Inr (decoder_new\<lparr>decoded := Some (message_new (major_version m) (minor_version m) (normal_kind (kind m))),
        state := WaitingContentLength\<rparr>, Continue)"
      unfolding l using Request
      by (simp add: process_waiting_message_def items [simplified] setState_def normal_kind_def decoder_new_def)
    moreover have "CR \<notin> set (encodeFirstLine m)"
      using u by (simp add: l method_text version_text)
    ultimately show ?thesis by simp
  next
    case (Response status description)
    let ?r = "reason_phrase status description"
    have st: "0 \<le>s status" and r: "wf_words ?r"
      using assms Response by (simp_all add: wf_first_line_def)
    let ?items = "encodeVersion m # dec (nat (sint status)) # words ?r"
    obtain w ws where w: "words ?r = w # ws" using words_ok(1) [OF r] by (cases "words ?r") auto
    have j: "join_with CHR '' '' (words ?r) = ?r" using r by (simp add: wf_words_def)
    have l: "encodeFirstLine m = join_with CHR '' '' ?items"
      using Response j w by (simp add: encodeFirstLine_def status_text [OF st])
    have items: "fst (split (join_with CHR '' '' ?items) CHR '' '') = ?items"
      using words_ok(2) [OF r] by (intro split_join) (auto simp: version_text not_in_dec special_not_digit)
    have "strncaseeq 4 (encodeVersion m) ''http''"
      by (simp add: strncaseeq_def c_str_id [OF version_text(4)])
        (simp add: encodeVersion_def tolower_def ord_def char_of_eq_iff)
    then have "tryResponse ?items = Some (response_instantiate (major_version m) (minor_version m) status ?r)"
      using w j by (simp add: tryResponse_def version_text status_text [OF st] description_loop_True del: description_loop.simps)
    then have "process WaitingMessage (encodeFirstLine m) decoder_new =
      Inr (decoder_new\<lparr>decoded := Some (message_new (major_version m) (minor_version m) (normal_kind (kind m))),
        state := WaitingContentLength\<rparr>, Continue)"
      unfolding l using Response
      by (simp only: process.simps process_waiting_message_def items Let_def option.case sum.case)
        (simp add: setState_def normal_kind_def decoder_new_def response_instantiate_def)
    moreover have "CR \<notin> set (encodeFirstLine m)"
      using r Response by (simp add: encodeFirstLine_def version_text status_text [OF st] not_in_dec
          special_not_digit wf_words_def)
    ultimately show ?thesis by simp
  qed
  then show "CR \<notin> set (encodeFirstLine m)"
    "process WaitingMessage (encodeFirstLine m) decoder_new =
      Inr (decoder_new\<lparr>decoded := Some (message_new (major_version m) (minor_version m) (normal_kind (kind m))),
        state := WaitingContentLength\<rparr>, Continue)" by simp_all
qed

section \<open>The round trip\<close>

text \<open>
  A message the decoder gives back: the directory is consistent, every header line can be
  read back, an explicit \<open>Content-Length\<close> is the length of the body, and the body, which is
  read as one token, has no CR LF inside.
\<close>

definition wf_envelope :: "http_message \<Rightarrow> bool" where
  "wf_envelope m \<longleftrightarrow>
     message_inv m \<and> wf_first_line (kind m) \<and> list_all wf_header (seq_headers m) \<and>
     (body m = [] \<or>
      length (body m) < 2 ^ 32 \<and>
      list_all (\<lambda>h. h_type h = ContentLength \<longrightarrow> h_value h = dec (length (body m))) (seq_headers m))"

definition wf_message :: "http_message \<Rightarrow> bool" where
  "wf_message m \<longleftrightarrow> wf_envelope m \<and> index_of_str newLine (body m) = None"

definition normal :: "http_message \<Rightarrow> http_message" where
  "normal m = m\<lparr>kind := normal_kind (kind m)\<rparr>"

lemma inv_distinct_names: "message_inv m \<Longrightarrow> distinct (map indexed_name (seq_headers m))"
  unfolding distinct_conv_nth
proof (intro allI impI)
  fix i j
  assume inv: "message_inv m" and ij: "i < length (map indexed_name (seq_headers m))"
    "j < length (map indexed_name (seq_headers m))" "i \<noteq> j"
  then have "directory m (indexed_name (seq_headers m ! i)) = Some i"
    "directory m (indexed_name (seq_headers m ! j)) = Some j"
    using inv_directory [OF inv] by simp_all
  then show "map indexed_name (seq_headers m) ! i \<noteq> map indexed_name (seq_headers m) ! j"
    using ij by auto
qed

lemma content_length_name: "header_type_as_string ContentLength = ''Content-Length''"
  by (simp add: header_type_as_string_def headerNames_def)

lemma wf_content_length_header:
  "wf_header \<lparr>h_type = ContentLength, h_name = None, h_value = dec n\<rparr>"
  by (simp add: wf_header_def headerNames_def not_in_dec special_not_digit)

lemma add_content_length_wf:
  assumes "wf_envelope m"
  obtains m1 where "add_content_length m = Inr m1" "message_inv m1" "list_all wf_header (seq_headers m1)"
    "kind m1 = kind m" "major_version m1 = major_version m" "minor_version m1 = minor_version m"
    "body m1 = body m"
    "body m \<noteq> [] \<longrightarrow> (\<exists>h \<in> set (seq_headers m1). h_type h = ContentLength) \<and>
       (\<forall>h \<in> set (seq_headers m1). h_type h = ContentLength \<longrightarrow> h_value h = dec (length (body m)))"
proof (cases "hasBody m")
  case False
  then show ?thesis using assms that [of m]
    by (simp add: add_content_length_def wf_envelope_def hasBody_def)
next
  case True
  have inv: "message_inv m" and wf: "list_all wf_header (seq_headers m)"
    and cl: "\<forall>h \<in> set (seq_headers m). h_type h = ContentLength \<longrightarrow> h_value h = dec (length (body m))"
    using assms True by (auto simp: wf_envelope_def hasBody_def list_all_iff)
  show ?thesis
  proof (cases "directory m ''Content-Length''")
    case (Some i)
    then have i: "i < length (seq_headers m)" "indexed_name (seq_headers m ! i) = ''Content-Length''"
      using inv_directory [OF inv] by simp_all
    let ?h = "seq_headers m ! i"
    have h: "wf_header ?h" using wf i(1) by (simp add: list_all_length)
    have "tryStandardType ''Content-Length'' = Some ContentLength"
      using standard_name(1) [of 31] by (simp add: headerNames_def)
    then have "h_type ?h = ContentLength"
      using wf_header_name(4) [OF h] i(2) by (simp split: if_splits)
    then have "\<exists>h \<in> set (seq_headers m). h_type h = ContentLength" using i(1) nth_mem by blast
    moreover have "add_content_length m = Inr m"
      using True Some by (simp add: add_content_length_def hasHeader_def content_length_name)
    ultimately show ?thesis using inv wf cl that [of m] by blast
  next
    case None
    let ?h = "\<lparr>h_type = ContentLength, h_name = None, h_value = dec (length (body m))\<rparr>"
    have n: "indexed_name ?h = ''Content-Length''"
      by (simp add: indexed_name_def content_length_name)
    have f: "directory m (indexed_name ?h) = None" using None n by simp
    have "add_content_length m = Inr (add_header ?h m)"
      using True None put_fresh_header [OF f wf_content_length_header] unfolding n
      by (simp add: add_content_length_def hasHeader_def content_length_name setHeader_def)
    moreover have "message_inv (add_header ?h m)"
      by (rule add_header_inv [OF inv wf_content_length_header f])
    moreover have "list_all wf_header (seq_headers (add_header ?h m))"
      using wf wf_content_length_header by (simp add: add_header_def)
    ultimately show ?thesis using cl that [of "add_header ?h m"]
      by (simp add: add_header_def)
  qed
qed

text \<open>The decoder reaches the empty line before the body with all the headers read.\<close>

lemma decode_to_body:
  assumes "wf_envelope m"
  obtains m1 pre d m' where "encoder_apply m = Inr (pre @ newLine @ body m, m1)"
    "decode_loop (pre @ newLine @ body m) 0 decoder_new = decode_loop (pre @ newLine @ body m) (length pre) d"
    "decoded d = Some m'" "m'\<lparr>body := body m\<rparr> = normal m1" "body m' = []" "in_headers d"
    "body m \<noteq> [] \<longrightarrow> state d = WaitingBody \<and> unat (body_expected_size d) = length (body m)"
proof -
  have fl: "wf_first_line (kind m)" using assms by (simp add: wf_envelope_def)
  obtain m1 where m1: "add_content_length m = Inr m1" and inv: "message_inv m1"
    and wf: "list_all wf_header (seq_headers m1)"
    and same: "kind m1 = kind m" "major_version m1 = major_version m" "minor_version m1 = minor_version m"
      "body m1 = body m"
    and cl: "body m \<noteq> [] \<longrightarrow> (\<exists>h \<in> set (seq_headers m1). h_type h = ContentLength) \<and>
       (\<forall>h \<in> set (seq_headers m1). h_type h = ContentLength \<longrightarrow> h_value h = dec (length (body m)))"
    by (rule add_content_length_wf [OF assms])
  let ?f = "encodeFirstLine m"
  let ?h = "header_lines (seq_headers m1)"
  let ?pre = "(?f @ newLine) @ ?h"
  let ?text = "?pre @ newLine @ body m"
  have enc: "encoder_apply m = Inr (?text, m1)"
    using m1 by (simp add: encoder_apply_def encode_headers_lines [OF wf] hasBody_def)
  let ?m0 = "message_new (major_version m) (minor_version m) (normal_kind (kind m))"
  let ?d0 = "decoder_new\<lparr>decoded := Some ?m0, state := WaitingContentLength\<rparr>"
  have first: "decode_loop ?text 0 decoder_new =
      decode_loop ((?f @ newLine) @ ?h @ newLine @ body m) (length (?f @ newLine)) ?d0"
    using decode_line [OF process_first_line(1) [OF fl], of decoder_new ?d0 "[]" "?h @ newLine @ body m"]
      process_first_line(2) [OF fl] by (simp add: decoder_new_def)
  have "distinct (map indexed_name (seq_headers ?m0 @ seq_headers m1))"
    using inv_distinct_names [OF inv] by (simp add: message_new_def)
  from decode_headers [OF wf _ message_inv_new _ this, of ?d0 "?f @ newLine" "newLine @ body m"]
  obtain d m' where hs: "decode_loop ((?f @ newLine) @ ?h @ newLine @ body m) (length (?f @ newLine)) ?d0 =
      decode_loop ?text (length ?pre) d"
    and m': "decoded d = Some m'" "message_inv m'" "in_headers d"
      "seq_headers m' = seq_headers ?m0 @ seq_headers m1" "kind m' = kind ?m0"
      "major_version m' = major_version ?m0" "minor_version m' = minor_version ?m0" "body m' = body ?m0"
      "(state d, body_expected_size d) =
        fold after_header (seq_headers m1) (state ?d0, body_expected_size ?d0)"
    by (auto simp: in_headers_def)
  have b: "state d = WaitingBody \<and> unat (body_expected_size d) = length (body m)" if "body m \<noteq> []"
  proof -
    have n: "length (body m) < 2 ^ 32" using that assms by (auto simp: wf_envelope_def)
    have "fold after_header (seq_headers m1) (WaitingContentLength, body_expected_size ?d0) =
        (WaitingBody, of_nat (length (body m)))"
      using cl that n by (intro fold_content_length) auto
    with m'(9) n show ?thesis by (simp add: unsigned_of_nat take_bit_nat_eq_self)
  qed
  have "directory m' = directory m1"
    by (rule directory_unique [OF m'(2) inv]) (simp add: m'(4) message_new_def)
  then have "m'\<lparr>body := body m\<rparr> = normal m1"
    using m' same by (intro http_message.equality) (simp_all add: normal_def message_new_def)
  moreover have "body m' = []" using m'(8) by (simp add: message_new_def)
  ultimately show ?thesis using that [OF enc _ m'(1) _ _ m'(3)] b first hs by simp
qed

lemma encode_decode_raw:
  assumes "wf_message m"
  shows "\<exists>text m1. encoder_apply m = Inr (text, m1) \<and> decoder_apply text = Inr (normal m1)"
proof -
  have env: "wf_envelope m" and nl: "index_of_str newLine (body m) = None"
    using assms by (simp_all add: wf_message_def)
  obtain m1 pre d m' where e: "encoder_apply m = Inr (pre @ newLine @ body m, m1)"
    "decode_loop (pre @ newLine @ body m) 0 decoder_new = decode_loop (pre @ newLine @ body m) (length pre) d"
    "decoded d = Some m'" "m'\<lparr>body := body m\<rparr> = normal m1" "body m' = []" "in_headers d"
    "body m \<noteq> [] \<longrightarrow> state d = WaitingBody \<and> unat (body_expected_size d) = length (body m)"
    using decode_to_body [OF env] by metis
  from decode_end [OF e(6,3,5), of "body m" pre] e(7) nl e(2,4)
  have "decoder_apply (pre @ newLine @ body m) = Inr (normal m1)"
    by (auto simp: decoder_apply_def)
  with e(1) show ?thesis by blast
qed

lemma encoder_kind: "encoder_apply m = Inr (text, m1) \<Longrightarrow> kind m1 = kind m"
  by (auto simp: encoder_apply_def add_content_length_def setHeader_def put_header_def
      split: sum.splits if_splits option.splits)

section \<open>Properties\<close>

text \<open>
  C1: decoding what the encoder wrote for a well-formed request or response gives the message
  back, with every header in its order, the length of the body added by the encoder, and, for
  a response without description, the reason phrase of its status.
\<close>

theorem encode_decode:
  assumes "wf_message m"
  shows "\<exists>text m1. encoder_apply m = Inr (text, m1) \<and> decoder_apply text = Inr (normal m1)"
  using assms by (rule encode_decode_raw)

definition sample_request :: http_message where
  "sample_request =
     setBody ''body'' (setCustomHeader ''X-Tag'' ''1''
       (message_new 1 1 (Request Get \<lparr>components = [Path \<mapsto> ''/p''], query = []\<rparr>)))"

lemma encode_decode_witness:
  "\<exists>text m1. encoder_apply sample_request = Inr (text, m1) \<and> decoder_apply text = Inr (normal m1)"
proof (rule encode_decode)
  have u: "wf_url \<lparr>components = [Path \<mapsto> ''/p''], query = []\<rparr>"
    by (simp add: wf_url_def wf_relative_def wf_component_def wf_tail_def encode_query_def)
  have e: "encode \<lparr>components = [Path \<mapsto> ''/p''], query = []\<rparr> = ''/p''"
    by (simp add: encode_def encode_authority_def encode_user_def encode_query_def hasComponent_def)
  have "index_strcase ''X-Tag'' headerNames = None"
    by (simp add: headerNames_def strcaseeq_def c_str_def tolower_def ord_def)
  then have h: "wf_header \<lparr>h_type = Custom, h_name = Some ''X-Tag'', h_value = ''1''\<rparr>"
    by (simp add: wf_header_def tryStandardType_def)
  have "message_inv sample_request"
    using setCustomHeader_inv [OF message_inv_new] by (simp add: sample_request_def setBody_def message_inv_def)
  then show "wf_message sample_request"
    using u e h
    by (simp add: wf_message_def wf_envelope_def wf_first_line_def sample_request_def message_new_def
        setBody_def setCustomHeader_def put_header_def custom_header_instantiate_def header_set_value_def)
qed

text \<open>
  a body that contains CR LF does not survive: the decoder reads the body up to the first
  CR LF only and rejects the message because the length does not match.
\<close>

theorem body_with_newline_rejected:
  assumes "wf_envelope m" "body m = a @ newLine @ b" "CR \<notin> set a"
  shows "\<exists>text m1. encoder_apply m = Inr (text, m1) \<and>
     decoder_apply text = Inl (RuntimeException (''Body length received ('' @ dec (length (body m))
       @ '') does not match the received ('' @ dec (length a) @ '')''))"
proof -
  obtain m1 pre d m' where e: "encoder_apply m = Inr (pre @ newLine @ body m, m1)"
    "decode_loop (pre @ newLine @ body m) 0 decoder_new = decode_loop (pre @ newLine @ body m) (length pre) d"
    "body m \<noteq> [] \<longrightarrow> state d = WaitingBody \<and> unat (body_expected_size d) = length (body m)"
    using decode_to_body [OF assms(1)] by metis
  have st: "state d = WaitingBody" "unat (body_expected_size d) = length (body m)"
    using e(3) assms(2) by simp_all
  have p: "process (state d) [] d = Inr (d\<lparr>state := ReadBody\<rparr>, Continue)"
    using st by (simp add: process_waiting_body_def setState_def)
  have "decode_loop (pre @ newLine @ body m) (length pre) d =
      decode_loop ((pre @ newLine) @ body m) (length (pre @ newLine)) (d\<lparr>state := ReadBody\<rparr>)"
    using decode_line [of "[]" d "d\<lparr>state := ReadBody\<rparr>" pre "body m"] p by simp
  also have "\<dots> = Inl (RuntimeException (''Body length received ('' @ dec (length (body m))
       @ '') does not match the received ('' @ dec (length a) @ '')''))"
    using readToken_line [OF assms(3), of "pre @ newLine" b] st(2) assms(2)
    by (subst decode_loop.simps) (simp add: process_read_body_def)
  finally show ?thesis using e(1,2) by (simp add: decoder_apply_def)
qed

lemma body_with_newline_rejected_witness:
  "\<exists>text m1. encoder_apply (setBody (''a'' @ newLine @ ''b'') (message_new 1 1 (Response 200 []))) = Inr (text, m1) \<and>
     decoder_apply text = Inl (RuntimeException (''Body length received (4) does not match the received (1)''))"
proof -
  let ?m = "setBody (''a'' @ newLine @ ''b'') (message_new 1 1 (Response 200 []))"
  have w: "wf_words ''OK''"
    by (simp add: wf_words_def words_def split_def split_loop.simps [of _ "''OK''"] Let_def)
  have "message_inv ?m" using message_inv_new [of 1 1 "Response 200 []"]
    by (simp add: setBody_def message_inv_def)
  moreover have "reason_phrase 200 [] = ''OK''" by (simp add: reason_phrase_def reasons_def)
  ultimately have "wf_envelope ?m"
    using w by (simp add: wf_envelope_def wf_first_line_def setBody_def message_new_def word_sle_eq)
  from body_with_newline_rejected [OF this, of "''a''" "''b''"] show ?thesis
    by (simp add: setBody_def nat_to_base.simps [of 10] digit_char_def)
qed

end
