(* ===== verification/HttpServer.thy ===== *)
theory HttpServer
  imports HttpCodec
begin

text \<open>
  \<open>http/HttpService\<close> and \<open>http/HttpClient\<close>: the servlets of a service, the handler that turns
  a received block into exactly one answer, and the client.  A servlet is code of the
  application: a function from the request to a response or an exception.  The socket's
  \<open>send\<close> is code of the networking component over ZeroMQ: a parameter that gives the new
  state of the socket and an exception when it throws.
\<close>

type_synonym servlet = "http_message \<Rightarrow> http_message outcome"

record http_service =
  servlets :: "(string \<times> servlet) list"

definition http_service_new :: http_service where
  "http_service_new = \<lparr>servlets = []\<rparr>"

definition defaultHttpPort :: nat where "defaultHttpPort = 80"

definition registerServlet :: "string \<Rightarrow> servlet \<Rightarrow> http_service \<Rightarrow> http_service outcome" where
  "registerServlet path servlet s =
     (if map_of (servlets s) path \<noteq> None
      then Inl (RuntimeException (''Path '' @ path @ '' already defined''))
      else Inr \<lparr>servlets = servlets s @ [(path, servlet)]\<rparr>)"

definition findServlet :: "string \<Rightarrow> http_service \<Rightarrow> servlet outcome" where
  "findServlet path s =
     (case map_of (servlets s) path of
        None \<Rightarrow> Inl (RuntimeException (''There is not Servlet defined for path '' @ path))
      | Some servlet \<Rightarrow> Inr servlet)"

definition calculateEndPoint :: "url \<Rightarrow> string outcome" where
  "calculateEndPoint u =
     (case getComponent u Host of
        Inl e \<Rightarrow> Inl e
      | Inr host \<Rightarrow>
          (if hasComponent u Port
           then (case getComponent u Port of
                   Inl e \<Rightarrow> Inl e
                 | Inr port \<Rightarrow> Inr (''tcp://'' @ host @ '':'' @ port))
           else Inr (''tcp://'' @ host @ '':'' @ dec defaultHttpPort)))"

section \<open>The request handler\<close>

type_synonym 's socket_send = "string \<Rightarrow> 's \<Rightarrow> 's \<times> exn option"

definition send_message :: "'s socket_send \<Rightarrow> http_message \<Rightarrow> 's \<Rightarrow> 's \<times> unit outcome" where
  "send_message send m s =
     (case encoder_apply m of
        Inl e \<Rightarrow> (s, Inl e)
      | Inr (text, m1) \<Rightarrow>
          (case send text s of
             (s1, None) \<Rightarrow> (s1, Inr ())
           | (s1, Some e) \<Rightarrow> (s1, Inl e)))"

definition responses_not_served :: string where
  "responses_not_served = ''HTTP server can not work on HTTP responses''"

text \<open>
  The second handler calls \<open>getPath\<close> again to build its text: when the path is what was
  missing, the exception leaves the function.
\<close>

definition handler_apply :: "'s socket_send \<Rightarrow> http_service \<Rightarrow> string \<Rightarrow> 's \<Rightarrow> 's \<times> unit outcome" where
  "handler_apply send service block s =
     (case decoder_apply block of
        Inl e \<Rightarrow>
          (if is_runtime e then send_message send (response_instantiate 1 1 400 (what e)) s else (s, Inl e))
      | Inr m \<Rightarrow>
          (case kind m of
             Response status description \<Rightarrow>
               send_message send (response_instantiate 1 1 400 responses_not_served) s
           | Request method u \<Rightarrow>
               (case (case getPath u of Inl e \<Rightarrow> Inl e | Inr path \<Rightarrow> findServlet path service) of
                  Inl e \<Rightarrow>
                    (if is_runtime e then
                       (case getPath u of
                          Inl e1 \<Rightarrow> (s, Inl e1)
                        | Inr path \<Rightarrow>
                            send_message send
                              (response_instantiate 1 1 404 (path @ '' was not service for any servlet'')) s)
                     else (s, Inl e))
                | Inr servlet \<Rightarrow>
                    (case (case servlet m of Inl e \<Rightarrow> (s, Inl e) | Inr response \<Rightarrow> send_message send response s) of
                       (s1, Inr ok) \<Rightarrow> (s1, Inr ok)
                     | (s1, Inl e) \<Rightarrow>
                         (if is_runtime e
                          then send_message send (response_instantiate 1 1 500 (what e)) s1
                          else (s1, Inl e))))))"

section \<open>The client\<close>

text \<open>
  \<open>m_clientSocket->send\<close>, which sends a block and waits for the answer, is a parameter.
\<close>

definition client_send ::
    "(string \<Rightarrow> string outcome) \<Rightarrow> string \<Rightarrow> http_message \<Rightarrow> http_message outcome" where
  "client_send exchange socketAsString request =
     (case encoder_apply request of
        Inl e \<Rightarrow> Inl e
      | Inr (text, request1) \<Rightarrow>
          (case exchange text of
             Inl e \<Rightarrow> Inl e
           | Inr answer \<Rightarrow>
               (case decoder_apply answer of
                  Inl e \<Rightarrow> Inl e
                | Inr m \<Rightarrow>
                    (case kind m of
                       Response status description \<Rightarrow> Inr m
                     | Request method u \<Rightarrow>
                         Inl (RuntimeException (''HttpClient '' @ socketAsString @ '' did not receive an HTTP response''))))))"

section \<open>The servlets as a registry\<close>

lemma map_of_lookup: "map_of xs k = map_option snd (lookup_by fst k xs)"
  by (induction xs) auto

definition put_servlet :: "string \<times> servlet \<Rightarrow> http_service \<Rightarrow> http_service option" where
  "put_servlet p s = to_option (registerServlet (fst p) (snd p) s)"

definition look_servlet :: "string \<Rightarrow> http_service \<Rightarrow> (string \<times> servlet) option" where
  "look_servlet path s = (case findServlet path s of Inl e \<Rightarrow> None | Inr v \<Rightarrow> Some (path, v))"

interpretation servlets: open_registry servlets fst put_servlet look_servlet
proof (unfold_locales, goal_cases)
  case (1 e s s')
  then show ?case
    by (auto simp: put_servlet_def registerServlet_def map_of_eq_None_iff split: if_splits)
next
  case (2 e s s')
  then show ?case by (auto simp: put_servlet_def registerServlet_def split: if_splits)
next
  case (3 k s e)
  then show ?case
    by (auto simp: look_servlet_def findServlet_def split: option.splits dest: map_of_SomeD)
next
  case (4 k s)
  then show ?case
    by (auto simp: look_servlet_def findServlet_def map_of_eq_None_iff split: option.splits)
next
  case (5 e s)
  then show ?case
    by (simp add: put_servlet_def registerServlet_def map_of_eq_None_iff)
qed

section \<open>What the handler sends\<close>

text \<open>A socket that keeps what was sent and never fails.\<close>

definition recording :: "(string list) socket_send" where
  "recording text sent = (sent @ [text], None)"

lemma response_encodes: "\<exists>text m1. encoder_apply (response_instantiate a b st d) = Inr (text, m1)"
  by (simp add: encoder_apply_def response_instantiate_def add_content_length_def message_new_def hasBody_def)

lemma send_recorded:
  "encoder_apply m = Inr (text, m1) \<Longrightarrow> send_message recording m sent = (sent @ [text], Inr ())"
  by (simp add: send_message_def recording_def)

lemma send_response: "\<exists>text. send_message recording (response_instantiate a b st d) sent = (sent @ [text], Inr ())"
  using response_encodes [of a b st d] send_recorded by blast

text \<open>A service all of whose servlets throw runtime exceptions only and give responses that can be encoded.\<close>

definition good_servlets :: "http_service \<Rightarrow> bool" where
  "good_servlets service \<longleftrightarrow>
     (\<forall>path servlet m. findServlet path service = Inr servlet \<longrightarrow>
        (case servlet m of Inl e \<Rightarrow> is_runtime e | Inr r \<Rightarrow> is_ok (encoder_apply r)))"

lemma addEndPoint_error: "addEndPoint t p = Inl e \<Longrightarrow> is_runtime e"
  by (auto simp: addEndPoint_def addMandatoryComponent_def verifyPortIsNumeric_def
      split: prod.splits sum.splits if_splits)

lemma readAuthority_error: "readAuthority t p = Inl e \<Longrightarrow> is_runtime e"
  by (auto simp: readAuthority_def Let_def split: prod.splits sum.splits if_splits option.splits
      dest: addEndPoint_error)

lemma read_pairs_error: "read_pairs c ps p = Inl e \<Longrightarrow> is_runtime e"
  by (induction ps arbitrary: p) (auto simp: Let_def split: if_splits)

lemma readRest_error: "readRest t n p = Inl e \<Longrightarrow> is_runtime e"
  by (auto simp: readRest_def readQuery_def Let_def split: prod.splits sum.splits if_splits dest: read_pairs_error)

lemma parse_url_error: "parse_url t = Inl e \<Longrightarrow> is_runtime e"
  by (auto simp: parse_url_def parser_build_def addMandatoryComponent_def
      split: prod.splits sum.splits if_splits dest: readRest_error readAuthority_error)

lemma process_error:
  assumes "process s t d = Inl e"
  shows "is_runtime e"
proof (cases s)
  case WaitingMessage
  have "tryRequest items = Inl e \<Longrightarrow> is_runtime e" for items
    by (auto simp: tryRequest_def request_instantiate_def split: if_splits option.splits sum.splits
        dest: parse_url_error)
  with WaitingMessage assms show ?thesis
    by (auto simp: process_waiting_message_def Let_def split: option.splits sum.splits)
next
  case WaitingContentLength
  with assms show ?thesis
    by (auto simp: process_waiting_content_length_def read_header_def setHeader_def custom_type_error_def
        split: option.splits sum.splits if_splits prod.splits)
next
  case WaitingBody
  with assms show ?thesis
    by (auto simp: process_waiting_body_def read_header_def setHeader_def custom_type_error_def
        split: option.splits sum.splits if_splits prod.splits)
next
  case ReadBody
  with assms show ?thesis by (auto simp: process_read_body_def split: if_splits)
qed

lemma decode_loop_error: "decode_loop block pos d = Inl e \<Longrightarrow> is_runtime e"
proof (induction block pos d rule: decode_loop.induct)
  case (1 block pos d)
  from "1.prems" show ?case
    by (subst (asm) decode_loop.simps)
      (auto split: option.splits sum.splits prod.splits process_result.splits dest: process_error "1.IH")
qed

lemma decoder_error: "decoder_apply block = Inl e \<Longrightarrow> is_runtime e"
  by (auto simp: decoder_apply_def split: sum.splits option.splits dest: decode_loop_error)

lemma no_newLine: "CR \<notin> set t \<Longrightarrow> index_of_str newLine t = None"
proof (induction t)
  case (Cons c t)
  then have "take 2 (c # t) \<noteq> newLine" by auto
  with Cons show ?case by simp
qed simp

lemma decode_first_line:
  assumes "wf_first_line (kind m)"
  shows "decoder_apply (encodeFirstLine m) =
     Inr (message_new (major_version m) (minor_version m) (normal_kind (kind m)))"
proof -
  let ?t = "encodeFirstLine m"
  have ne: "?t \<noteq> []" by (simp add: encodeFirstLine_def split: http_kind.split)
  have "readToken ?t 0 = Some (?t, length ?t)"
    using readToken_last [OF ne no_newLine [OF process_first_line(1) [OF assms]], of "[]"] by simp
  moreover have "decode_loop ?t (length ?t) d = Inr d" for d
    by (subst decode_loop.simps) (simp add: readToken_end)
  ultimately have "decode_loop ?t 0 decoder_new =
      Inr (decoder_new\<lparr>decoded := Some (message_new (major_version m) (minor_version m) (normal_kind (kind m))),
        state := WaitingContentLength\<rparr>)"
    using process_first_line(2) [OF assms]
    by (subst decode_loop.simps) (simp add: decoder_new_def)
  then show ?thesis by (simp add: decoder_apply_def)
qed

section \<open>The answer of a service\<close>

text \<open>
  What a service owes a client that sends a block: its servlet's response, or a response that
  says why there is none.
\<close>

definition http_answer :: "http_service \<Rightarrow> string \<Rightarrow> http_message" where
  "http_answer service block =
     (case decoder_apply block of
        Inl e \<Rightarrow> response_instantiate 1 1 400 (what e)
      | Inr m \<Rightarrow>
          (case kind m of
             Response status description \<Rightarrow> response_instantiate 1 1 400 responses_not_served
           | Request method u \<Rightarrow>
               (let path = (case getPath u of Inl e \<Rightarrow> [] | Inr path \<Rightarrow> path)
                in case findServlet path service of
                     Inl e \<Rightarrow> response_instantiate 1 1 404 (path @ '' was not service for any servlet'')
                   | Inr servlet \<Rightarrow>
                       (case servlet m of Inl e \<Rightarrow> response_instantiate 1 1 500 (what e) | Inr r \<Rightarrow> r))))"

text \<open>Blocks that are no request without a path.\<close>

definition servable :: "string \<Rightarrow> bool" where
  "servable block \<longleftrightarrow>
     (case decoder_apply block of
        Inl e \<Rightarrow> True
      | Inr m \<Rightarrow> (case kind m of Response status description \<Rightarrow> True | Request method u \<Rightarrow> hasComponent u Path))"

lemma servable_path: "hasComponent u Path \<Longrightarrow> \<exists>path. getPath u = Inr path"
  by (auto simp: getPath_def getComponent_def hasComponent_def)

lemma findServlet_error: "findServlet path service = Inl e \<Longrightarrow> is_runtime e"
  by (auto simp: findServlet_def split: option.splits)

lemma answer_encodes:
  assumes "good_servlets service"
  shows "is_ok (encoder_apply (http_answer service block))"
proof -
  have r: "is_ok (encoder_apply (response_instantiate a b st d))" for a b st d
    using response_encodes [of a b st d] by (auto simp: is_ok_iff)
  have s: "is_ok (encoder_apply x)" if "findServlet path service = Inr servlet" "servlet m = Inr x" for path servlet m x
    using assms [unfolded good_servlets_def, rule_format, OF that(1), of m] that(2) by simp
  show ?thesis
    by (auto simp: http_answer_def Let_def r intro: s split: sum.split http_kind.split)
qed

lemma handler_sends_answer:
  assumes good: "good_servlets service" and path: "servable block"
    and enc: "encoder_apply (http_answer service block) = Inr (text, m1)"
    and sent: "send text s = (s1, None)"
  shows "handler_apply send service block s = (s1, Inr ())"
proof (cases "decoder_apply block")
  case (Inl e)
  then show ?thesis using decoder_error [OF Inl] enc sent
    by (simp add: handler_apply_def http_answer_def send_message_def)
next
  case (Inr m)
  show ?thesis
  proof (cases "kind m")
    case (Response st d)
    with Inr show ?thesis using enc sent by (simp add: handler_apply_def http_answer_def send_message_def)
  next
    case (Request me u)
    then obtain path where p: "getPath u = Inr path"
      using servable_path path Inr by (auto simp: servable_def)
    show ?thesis
    proof (cases "findServlet path service")
      case (Inl e)
      with p Request \<open>decoder_apply block = Inr m\<close> show ?thesis
        using findServlet_error [OF Inl] enc sent by (simp add: handler_apply_def http_answer_def send_message_def)
    next
      case (Inr servlet)
      then have "case servlet m of Inl e \<Rightarrow> is_runtime e | Inr r \<Rightarrow> is_ok (encoder_apply r)"
        using good by (simp add: good_servlets_def)
      with Inr p Request \<open>decoder_apply block = Inr m\<close> show ?thesis
        using enc sent by (cases "servlet m") (simp_all add: handler_apply_def http_answer_def send_message_def)
    qed
  qed
qed

lemma servable_junk: "servable ''junk''"
proof -
  have "decode_loop ''junk'' 0 decoder_new = Inr decoder_new"
    by (simp add: decode_loop.simps [of "''junk''"] readToken_def find_str_def decoder_new_def
        process_waiting_message_def split_def split_loop.simps [of _ "''junk''"] c_str_def
        tryResponse_def tryRequest_def Let_def)
  then have "\<not> is_ok (decoder_apply ''junk'')" by (simp add: decoder_apply_def decoder_new_def)
  then show ?thesis by (auto simp: servable_def is_ok_iff split: sum.split)
qed

lemma no_servlets: "good_servlets http_service_new"
  by (simp add: good_servlets_def http_service_new_def findServlet_def)

section \<open>Properties\<close>



text \<open>
  A request whose URL has no path gets no answer at all: the handler throws out of its
  own exception handler, before anything is sent.
\<close>

theorem no_path_no_answer:
  assumes "decoder_apply block = Inr m" "kind m = Request me u" "\<not> hasComponent u Path"
  shows "handler_apply send service block s =
     (s, Inl (RuntimeException ''URL does not contain component Path''))"
  using assms
  by (simp add: handler_apply_def getPath_def getComponent_def hasComponent_def component_name_as_string_def)

lemma no_path_no_answer_witness:
  "handler_apply recording http_service_new (''GET http://h HTTP/1.1'') [] =
     ([], Inl (RuntimeException ''URL does not contain component Path''))"
proof -
  let ?u = "\<lparr>components = [Scheme \<mapsto> ''http'', Host \<mapsto> ''h''], query = []\<rparr>"
  let ?m = "message_new 1 1 (Request Get ?u)"
  have w: "wf_url ?u"
    by (simp add: wf_url_def wf_absolute_def wf_component_def wf_tail_def tail_text_def
        encode_query_def encode_user_def hasComponent_def)
  have e: "encode ?u = ''http://h''"
    by (simp add: encode_def encode_authority_def encode_user_def encode_query_def hasComponent_def)
  have f: "encodeFirstLine ?m = ''GET http://h HTTP/1.1''"
    by (simp add: encodeFirstLine_def e message_new_def method_as_string_def requestMethodNames_def
        encodeVersion_def nat_to_base.simps [of 10] digit_char_def)
  have "wf_first_line (kind ?m)" using w e by (simp add: wf_first_line_def message_new_def)
  from decode_first_line [OF this] have "decoder_apply ''GET http://h HTTP/1.1'' = Inr ?m"
    unfolding f by (simp add: message_new_def normal_kind_def)
  then show ?thesis
    by (rule no_path_no_answer [where me = Get and u = ?u]) (simp_all add: message_new_def hasComponent_def)
qed

definition server_exchange :: "http_service \<Rightarrow> string \<Rightarrow> string outcome" where
  "server_exchange service text =
     (case handler_apply recording service text [] of
        ([answer], Inr ok) \<Rightarrow> Inr answer
      | _ \<Rightarrow> Inl (RuntimeException ''no answer''))"


definition ping_request :: http_message where
  "ping_request = message_new 1 1 (Request Get \<lparr>components = [Path \<mapsto> ''/p''], query = []\<rparr>)"

definition ping_response :: http_message where
  "ping_response = response_instantiate 1 1 200 ''OK''"

definition ping_service :: http_service where
  "ping_service = \<lparr>servlets = [(''/p'', \<lambda>m. Inr ping_response)]\<rparr>"


end
