(* ===== verification/XmlNode.thy ===== *)
theory XmlNode
  imports Basis Registry
begin

text \<open>
  \<open>xml/Node\<close>, \<open>Attribute\<close> and \<open>Content\<close>: the tree the \<open>asXML\<close> operations build, its
  searches, and the calls \<open>Node::compile\<close> makes on the libxml text writer.

  A C++ node is a handle on a libxml node; a child is attached to its parent when it is
  created and filled through the shared pointer.  The model fills a child first and attaches
  it then, which gives the same tree.  The attributes are a \<open>std::set\<close> ordered by name.
  libxml's conversion of a text to Latin-1 (\<open>xmlCheckUTF8\<close>, \<open>UTF8Toisolat1\<close>) is the
  parameter \<open>latin1\<close>; libxml running out of memory (a null handler) is not modelled.
\<close>

type_synonym attribute = "string \<times> string"

datatype xml_node = XmlNode (node_name: string) (node_attributes: "attribute list")
  (node_text: "string option") (node_children: "xml_node list")

abbreviation quote :: string where "quote \<equiv> [CHR 0x27]"

section \<open>Construction\<close>

definition new_node :: "string \<Rightarrow> xml_node" where
  "new_node name = XmlNode (c_str name) [] None []"

fun add_child :: "xml_node \<Rightarrow> xml_node \<Rightarrow> xml_node" where
  "add_child child (XmlNode name as t cs) = XmlNode name as t (cs @ [child])"

definition create_child :: "string \<Rightarrow> xml_node \<Rightarrow> xml_node" where
  "create_child name n = add_child (new_node name) n"

text \<open>
  Attributes are compared by the names libxml holds, where a null pointer comes first.  The set of a
  node has named attributes only.
\<close>

definition attribute_less :: "string option \<Rightarrow> string option \<Rightarrow> bool" where
  "attribute_less this_name left_name =
     (case (this_name, left_name) of
        (None, None) \<Rightarrow> False
      | (None, Some l) \<Rightarrow> True
      | (Some t, None) \<Rightarrow> False
      | (Some t, Some l) \<Rightarrow> strcmp t l < 0)"

lemma attribute_less_order:
  "\<not> attribute_less a a" "attribute_less a b \<Longrightarrow> attribute_less b c \<Longrightarrow> attribute_less a c"
  by (auto simp: attribute_less_def strcmp_def bytes_cmp_0 dest: bytes_cmp_trans split: option.splits)

text \<open>The ordered set of attributes: \<open>insert\<close> refuses a name that is there.\<close>

fun insort_attribute :: "attribute \<Rightarrow> attribute list \<Rightarrow> attribute list" where
  "insort_attribute a [] = [a]"
| "insort_attribute a (b # bs) =
     (if bytes_cmp (fst a) (fst b) < 0 then a # b # bs else b # insort_attribute a bs)"

definition add_attribute :: "attribute \<Rightarrow> xml_node \<Rightarrow> xml_node outcome" where
  "add_attribute a n =
     (if fst a \<in> fst ` set (node_attributes n)
      then Inl (RuntimeException (fst a @ '' is already defined in node '' @ quote @ node_name n @ quote))
      else Inr (XmlNode (node_name n) (insort_attribute a (node_attributes n)) (node_text n) (node_children n)))"

definition create_attribute :: "string \<Rightarrow> string \<Rightarrow> xml_node \<Rightarrow> xml_node outcome" where
  "create_attribute name v n = add_attribute (c_str name, c_str v) n"

text \<open>A second text replaces the one that is read back.\<close>

definition create_text :: "(string \<Rightarrow> string) \<Rightarrow> string \<Rightarrow> xml_node \<Rightarrow> xml_node" where
  "create_text latin1 text n =
     XmlNode (node_name n) (node_attributes n) (Some (latin1 (c_str text))) (node_children n)"

fun set_attribute_value :: "string \<Rightarrow> string \<Rightarrow> attribute list \<Rightarrow> attribute list" where
  "set_attribute_value name v [] = []"
| "set_attribute_value name v (a # as) =
     (if fst a = name then (name, c_str v) # as else a # set_attribute_value name v as)"

text \<open>A chain of \<open>createAttribute\<close> calls: the first failure ends it.\<close>

fun create_attributes :: "attribute list \<Rightarrow> xml_node \<Rightarrow> xml_node outcome" where
  "create_attributes [] n = Inr n"
| "create_attributes (a # as) n =
     (case create_attribute (fst a) (snd a) n of Inl e \<Rightarrow> Inl e | Inr n1 \<Rightarrow> create_attributes as n1)"

section \<open>Searches\<close>

definition search_child :: "string \<Rightarrow> xml_node \<Rightarrow> xml_node option" where
  "search_child name n = lookup_by node_name (c_str name) (node_children n)"

definition lookup_child :: "string \<Rightarrow> xml_node \<Rightarrow> xml_node outcome" where
  "lookup_child name n =
     (case search_child name n of
        None \<Rightarrow> Inl (RuntimeException (''Child '' @ quote @ c_str name @ quote @ '' is not registered in node '' @ quote @ node_name n @ quote))
      | Some c \<Rightarrow> Inr c)"

definition child_at :: "nat \<Rightarrow> xml_node \<Rightarrow> xml_node outcome" where
  "child_at i n =
     (if i \<ge> length (node_children n)
      then Inl (RuntimeException (''There is not any child at position: '' @ dec i))
      else Inr (node_children n ! i))"

definition search_attribute :: "string \<Rightarrow> xml_node \<Rightarrow> attribute option" where
  "search_attribute name n = lookup_by fst (c_str name) (node_attributes n)"

definition lookup_attribute :: "string \<Rightarrow> xml_node \<Rightarrow> attribute outcome" where
  "lookup_attribute name n =
     (case search_attribute name n of
        None \<Rightarrow> Inl (RuntimeException (''Attribute '' @ quote @ c_str name @ quote @ '' is not registered in node '' @ quote @ node_name n @ quote))
      | Some a \<Rightarrow> Inr a)"

definition attribute_value :: "(string \<Rightarrow> string) \<Rightarrow> attribute \<Rightarrow> string" where
  "attribute_value latin1 a = latin1 (snd a)"

definition get_text :: "xml_node \<Rightarrow> string outcome" where
  "get_text n =
     (case node_text n of
        None \<Rightarrow> Inl (RuntimeException (''Node '' @ quote @ node_name n @ quote @ '' does not have any TEXT item''))
      | Some t \<Rightarrow> Inr t)"

section \<open>The calls on the text writer\<close>

text \<open>
  \<open>compile\<close> writes a node that has a text as one element, without its attributes and
  children.  Namespaces and a failing writer are left out; \<open>enc\<close> is the encoding of a text.
\<close>

datatype writer_call =
    StartElement string
  | WriteAttribute string string
  | EndElement
  | WriteElement string string

fun compile :: "(string \<Rightarrow> string) \<Rightarrow> (string \<Rightarrow> string) \<Rightarrow> xml_node \<Rightarrow> writer_call list"
  and compile_all :: "(string \<Rightarrow> string) \<Rightarrow> (string \<Rightarrow> string) \<Rightarrow> xml_node list \<Rightarrow> writer_call list" where
  "compile latin1 enc (XmlNode name as t cs) =
     (case t of
        None \<Rightarrow> StartElement name # map (\<lambda>a. WriteAttribute (fst a) (enc (attribute_value latin1 a))) as
                 @ compile_all latin1 enc cs @ [EndElement]
      | Some text \<Rightarrow> [WriteElement name (enc text)])"
| "compile_all latin1 enc [] = []"
| "compile_all latin1 enc (c # cs) = compile latin1 enc c @ compile_all latin1 enc cs"

section \<open>Ordered attributes\<close>

definition sorted_attributes :: "attribute list \<Rightarrow> bool" where
  "sorted_attributes as = sorted_wrt (\<lambda>a b. bytes_cmp (fst a) (fst b) < 0) as"

lemma mset_insort_attribute [simp]: "mset (insort_attribute a as) = add_mset a (mset as)"
  by (induction as) auto

lemma set_insort_attribute [simp]: "set (insort_attribute a as) = insert a (set as)"
  by (metis mset_insort_attribute set_mset_add_mset_insert set_mset_mset)

lemma insort_sorted:
  "sorted_attributes as \<Longrightarrow> fst a \<notin> fst ` set as \<Longrightarrow> sorted_attributes (insort_attribute a as)"
proof (induction as)
  case Nil
  then show ?case by (simp add: sorted_attributes_def)
next
  case (Cons b as)
  show ?case
  proof (cases "bytes_cmp (fst a) (fst b) < 0")
    case True
    with Cons.prems show ?thesis
      by (auto simp: sorted_attributes_def dest: bytes_cmp_trans)
  next
    case False
    then have "bytes_cmp (fst b) (fst a) < 0"
      using Cons.prems(2) bytes_cmp_antisym [of "fst b" "fst a"] bytes_cmp_0 [of "fst a" "fst b"] by auto
    with False Cons show ?thesis by (simp add: sorted_attributes_def)
  qed
qed

interpretation attrs: open_registry node_attributes fst "\<lambda>a n. to_option (add_attribute a n)"
  "\<lambda>name n. lookup_by fst name (node_attributes n)"
proof (unfold_locales, goal_cases)
  case (1 e s s')
  then show ?case by (auto simp: add_attribute_def split: if_splits)
next
  case (2 e s s')
  then show ?case by (auto simp: add_attribute_def split: if_splits)
next
  case (3 k s e)
  then show ?case by (rule lookup_by_Some)
next
  case (4 k s)
  then show ?case by simp
next
  case (5 e s)
  then show ?case by (simp add: add_attribute_def)
qed

section \<open>Reading a compiled tree back\<close>

text \<open>
  The writer calls of a tree determine it: the inverse reads one element and gives the calls
  that follow it.  The nodes with a text must have neither attributes nor children, as those
  are not written.  The fuel bounds the number of elements and attributes left to read.
\<close>

fun leaf_texts :: "xml_node \<Rightarrow> bool" where
  "leaf_texts (XmlNode name as t cs) =
     ((t \<noteq> None \<longrightarrow> as = [] \<and> cs = []) \<and> list_all leaf_texts cs)"

fun read_attributes :: "writer_call list \<Rightarrow> attribute list \<times> writer_call list" where
  "read_attributes (WriteAttribute n v # ws) = (let (as, rest) = read_attributes ws in ((n, v) # as, rest))"
| "read_attributes ws = ([], ws)"

fun read_nodes :: "nat \<Rightarrow> writer_call list \<Rightarrow> (xml_node list \<times> writer_call list) option" where
  "read_nodes 0 ws = None"
| "read_nodes (Suc fuel) (WriteElement name t # ws) =
     map_option (\<lambda>(ns, rest). (XmlNode name [] (Some t) [] # ns, rest)) (read_nodes fuel ws)"
| "read_nodes (Suc fuel) (StartElement name # ws) =
     (let (as, ws1) = read_attributes ws
      in case read_nodes fuel ws1 of
           None \<Rightarrow> None
         | Some (cs, rest) \<Rightarrow>
             (case rest of
                EndElement # rest' \<Rightarrow>
                  map_option (\<lambda>(ns, r). (XmlNode name as None cs # ns, r)) (read_nodes fuel rest')
              | _ \<Rightarrow> None))"
| "read_nodes (Suc fuel) ws = Some ([], ws)"

fun stops :: "writer_call list \<Rightarrow> bool" where
  "stops [] = True"
| "stops (EndElement # ws) = True"
| "stops ws = False"

lemma read_nodes_stop: "stops ws \<Longrightarrow> read_nodes (Suc fuel) ws = Some ([], ws)"
  by (cases ws rule: stops.cases) auto

lemma no_attribute_first: "compile_all f g cs = [] \<or> (\<forall>n v. hd (compile_all f g cs) \<noteq> WriteAttribute n v)"
proof (cases cs)
  case (Cons c cs')
  then show ?thesis by (cases c) (auto split: option.splits)
qed simp

lemma read_attributes_written:
  "(\<And>n v. ws \<noteq> [] \<Longrightarrow> hd ws \<noteq> WriteAttribute n v) \<Longrightarrow>
   read_attributes (map (\<lambda>a. WriteAttribute (fst a) (snd a)) as @ ws) = (as, ws)"
proof (induction as)
  case Nil
  then show ?case by (cases ws rule: read_attributes.cases) force+
next
  case (Cons a as)
  then show ?case by simp
qed

text \<open>How much fuel reading a list of nodes needs.\<close>

fun read_fuel :: "xml_node list \<Rightarrow> nat" where
  "read_fuel [] = 1"
| "read_fuel (XmlNode name as t cs # ns) = Suc (read_fuel cs + read_fuel ns)"

lemma read_compiled:
  assumes "list_all leaf_texts ns" "stops ws" "read_fuel ns \<le> fuel"
  shows "read_nodes fuel (compile_all (\<lambda>s. s) (\<lambda>s. s) ns @ ws) = Some (ns, ws)"
  using assms
proof (induction ns arbitrary: fuel ws rule: read_fuel.induct)
  case 1
  then show ?case by (cases fuel) (simp_all add: read_nodes_stop)
next
  case (2 name as t cs ns)
  obtain f where f: "fuel = Suc f" "read_fuel cs \<le> f" "read_fuel ns \<le> f"
    using "2.prems"(3) by (cases fuel) auto
  show ?case
  proof (cases t)
    case (Some tt)
    with 2 f show ?thesis by (simp add: attribute_value_def)
  next
    case None
    have read_cs: "read_nodes f (compile_all (\<lambda>s. s) (\<lambda>s. s) cs @ EndElement # compile_all (\<lambda>s. s) (\<lambda>s. s) ns @ ws) =
        Some (cs, EndElement # compile_all (\<lambda>s. s) (\<lambda>s. s) ns @ ws)"
      using "2.prems" f by (intro "2.IH"(1)) simp_all
    have read_ns: "read_nodes f (compile_all (\<lambda>s. s) (\<lambda>s. s) ns @ ws) = Some (ns, ws)"
      using "2.prems" f by (intro "2.IH"(2)) simp_all
    have "\<And>n v. hd (compile_all (\<lambda>s. s) (\<lambda>s. s) cs @ EndElement # compile_all (\<lambda>s. s) (\<lambda>s. s) ns @ ws) \<noteq> WriteAttribute n v"
      using no_attribute_first [of "\<lambda>s. s" "\<lambda>s. s" cs] by (cases "compile_all (\<lambda>s. s) (\<lambda>s. s) cs") auto
    then have "read_attributes (map (\<lambda>a. WriteAttribute (fst a) (snd a)) as @
        compile_all (\<lambda>s. s) (\<lambda>s. s) cs @ EndElement # compile_all (\<lambda>s. s) (\<lambda>s. s) ns @ ws) =
        (as, compile_all (\<lambda>s. s) (\<lambda>s. s) cs @ EndElement # compile_all (\<lambda>s. s) (\<lambda>s. s) ns @ ws)"
      by (rule read_attributes_written)
    with None read_cs read_ns f show ?thesis by (simp add: attribute_value_def)
  qed
qed

section \<open>Properties\<close>

text \<open>
  A node never has two attributes with the same name: an attribute is added exactly when
  its name is free, the set stays ordered by name, and looking the name up finds it.
\<close>

theorem attribute_added_once:
  assumes "sorted_attributes (node_attributes n)" "distinct_keys fst (node_attributes n)"
  shows "case add_attribute a n of
      Inl e \<Rightarrow> search_attribute (fst a) n \<noteq> None \<or> NUL \<in> set (fst a)
    | Inr n' \<Rightarrow> lookup_by fst (fst a) (node_attributes n') = Some a \<and>
        sorted_attributes (node_attributes n') \<and> distinct_keys fst (node_attributes n') \<and>
        (\<forall>k. k \<noteq> fst a \<longrightarrow> lookup_by fst k (node_attributes n') = lookup_by fst k (node_attributes n))"
proof (cases "add_attribute a n")
  case (Inl e)
  then have "fst a \<in> fst ` set (node_attributes n)" by (simp add: add_attribute_def split: if_splits)
  then have "search_attribute (fst a) n \<noteq> None \<or> NUL \<in> set (fst a)"
    by (cases "NUL \<in> set (fst a)") (simp_all add: search_attribute_def)
  with Inl show ?thesis by simp
next
  case (Inr n')
  then have put: "to_option (add_attribute a n) = Some n'" by simp
  have "sorted_attributes (node_attributes n')"
    using Inr assms(1) by (auto simp: add_attribute_def insort_sorted split: if_splits)
  with Inr put assms(2) show ?thesis
    using attrs.look_put_same [OF put] attrs.look_put_other [OF put] attrs.put_keys_ok [OF put] by simp
qed

lemma attribute_added_once_witness:
  "case add_attribute (''b'', ''2'') (XmlNode ''n'' [(''a'', ''1'')] None []) of
      Inl e \<Rightarrow> False | Inr n' \<Rightarrow> lookup_by fst ''b'' (node_attributes n') = Some (''b'', ''2'')"
  using attribute_added_once [of "XmlNode ''n'' [(''a'', ''1'')] None []" "(''b'', ''2'')"]
  by (simp add: sorted_attributes_def distinct_keys_def search_attribute_def split: sum.splits)

text \<open>
  The calls made on the text writer determine the tree, when the nodes with a text are
  leaves without attributes: reading them back gives the tree.
\<close>

theorem compile_determines_tree:
  assumes "leaf_texts n"
  shows "read_nodes (read_fuel [n]) (compile (\<lambda>s. s) (\<lambda>s. s) n) = Some ([n], [])"
  using read_compiled [of "[n]" "[]" "read_fuel [n]"] assms by simp

lemma compile_determines_tree_witness:
  "read_nodes (read_fuel [XmlNode ''a'' [(''k'', ''v'')] None [XmlNode ''b'' [] (Some ''t'') []]])
     [StartElement ''a'', WriteAttribute ''k'' ''v'', WriteElement ''b'' ''t'', EndElement] =
   Some ([XmlNode ''a'' [(''k'', ''v'')] None [XmlNode ''b'' [] (Some ''t'') []]], [])"
  using compile_determines_tree [of "XmlNode ''a'' [(''k'', ''v'')] None [XmlNode ''b'' [] (Some ''t'') []]"]
  by (simp add: attribute_value_def)

end
