(* ===== verification/Balance.thy ===== *)
theory Balance
  imports Basis Registry
begin

text \<open>
  \<open>balance\<close>: a list of named resources and the strategies that choose one of them.  A
  resource is known by its name and whether it is available at the moment of a call.  An
  iterator of the vector of resources is a position together with the size the vector had
  when it was taken: using it after the vector has grown is undefined, as \<open>push_back\<close> may
  have moved the elements (\<open>None\<close>).  The trace the operations write is not modelled.
\<close>

record resource =
  r_name :: string
  r_available :: bool

definition resource_as_string :: "resource \<Rightarrow> string" where
  "resource_as_string r =
     ''balance::Resource {'' @ named_as_string (r_name r) @ '' } | Available = ''
     @ as_string_bool (r_available r) @ ''}''"

record resource_list =
  l_name :: string
  l_resources :: "resource list"

definition resource_list_new :: "string \<Rightarrow> resource_list" where
  "resource_list_new name = \<lparr>l_name = name, l_resources = []\<rparr>"

definition resource_list_as_string :: "resource_list \<Rightarrow> string" where
  "resource_list_as_string l =
     ''balance.ResourceList { '' @ named_as_string (l_name l) @ '' | Available = ''
     @ dec (length (filter r_available (l_resources l))) @ '' of '' @ dec (length (l_resources l)) @ '' }''"

text \<open>\<open>initialize\<close> initializes every resource, and goes on when one throws a runtime exception.\<close>

fun initialize_loop :: "(resource \<Rightarrow> resource \<times> exn option) \<Rightarrow> resource list \<Rightarrow> resource list \<times> exn option" where
  "initialize_loop init [] = ([], None)"
| "initialize_loop init (r # rs) =
     (case init r of
        (r1, e) \<Rightarrow>
          (if e \<noteq> None \<and> \<not> is_runtime (the e) then (r1 # rs, e)
           else let (rs1, e1) = initialize_loop init rs in (r1 # rs1, e1)))"

definition resource_list_initialize ::
    "(resource \<Rightarrow> resource \<times> exn option) \<Rightarrow> resource_list \<Rightarrow> resource_list \<times> exn option" where
  "resource_list_initialize init l =
     (let (rs, e) = initialize_loop init (l_resources l) in (l\<lparr>l_resources := rs\<rparr>, e))"

fun name_taken :: "string \<Rightarrow> resource list \<Rightarrow> bool" where
  "name_taken name [] = False"
| "name_taken name (r # rs) = (if r_name r = name then True else name_taken name rs)"

text \<open>The resource to add is a shared pointer, which may be null.\<close>

definition resource_list_add :: "resource option \<Rightarrow> resource_list \<Rightarrow> (resource_list \<times> bool) outcome" where
  "resource_list_add resource l =
     (case resource of
        None \<Rightarrow> Inl (RuntimeException (resource_list_as_string l @ '' can not add an empty resource''))
      | Some r \<Rightarrow>
          (if name_taken (r_name r) (l_resources l) then Inr (l, False)
           else Inr (l\<lparr>l_resources := l_resources l @ [r]\<rparr>, True)))"

fun count_loop :: "nat \<Rightarrow> resource list \<Rightarrow> nat" where
  "count_loop n [] = n"
| "count_loop n (r # rs) = count_loop (if r_available r then n + 1 else n) rs"

definition countAvailableResources :: "resource_list \<Rightarrow> nat" where
  "countAvailableResources l = count_loop 0 (l_resources l)"

definition next_position :: "resource_list \<Rightarrow> nat \<Rightarrow> nat" where
  "next_position l ii = (let ii = ii + 1 in if ii = length (l_resources l) then 0 else ii)"

section \<open>The circular search of the strategies\<close>

text \<open>
  The \<open>do ... while\<close> loop: from position \<open>ww\<close> until it is back at \<open>stop\<close>.  The number of
  resources is enough fuel.
\<close>

fun search_from :: "nat \<Rightarrow> resource_list \<Rightarrow> nat \<Rightarrow> nat \<Rightarrow> nat option" where
  "search_from 0 l ww stop = None"
| "search_from (Suc fuel) l ww stop =
     (if r_available (l_resources l ! ww) then Some ww
      else
        let ww = next_position l ww
        in if ww = stop then None else search_from fuel l ww stop)"

definition circular_search :: "resource_list \<Rightarrow> nat \<Rightarrow> nat option" where
  "circular_search l start = search_from (length (l_resources l)) l start start"

section \<open>StrategyIndexed\<close>

definition strategy_as_string :: "string \<Rightarrow> resource_list option \<Rightarrow> string" where
  "strategy_as_string name l =
     ''balance.Strategy { '' @ named_as_string name
     @ (case l of None \<Rightarrow> [] | Some rs \<Rightarrow> ''|'' @ resource_list_as_string rs) @ '' }''"

text \<open>\<open>ident % size\<close>: the \<open>int\<close> becomes a 64-bit unsigned number first.\<close>

definition index_of_identifier :: "cint \<Rightarrow> nat \<Rightarrow> nat" where
  "index_of_identifier ident n = unat (scast ident :: 64 word) mod n"

definition indexed_apply :: "resource_list \<Rightarrow> cint \<Rightarrow> resource outcome" where
  "indexed_apply l ident =
     (if length (l_resources l) = 0
      then Inl (ResourceUnavailableException (l_name l @ '' is empty''))
      else case circular_search l (index_of_identifier ident (length (l_resources l))) of
             None \<Rightarrow> Inl (ResourceUnavailableException
               (strategy_as_string ''balance::Indexed'' (Some l) @ '' there is not any available resource''))
           | Some i \<Rightarrow> Inr (l_resources l ! i))"

section \<open>StrategyRoundRobin\<close>

record iterator =
  it_position :: nat
  it_size :: nat

type_synonym round_robin = "iterator option"

definition iterator_at :: "resource_list \<Rightarrow> nat \<Rightarrow> iterator" where
  "iterator_at l i = \<lparr>it_position = i, it_size = length (l_resources l)\<rparr>"

definition round_robin_apply :: "resource_list \<Rightarrow> round_robin \<Rightarrow> (round_robin \<times> resource outcome) option" where
  "round_robin_apply l m_position =
     (let it = (case m_position of None \<Rightarrow> iterator_at l 0 | Some it \<Rightarrow> it)
      in if it_size it \<noteq> length (l_resources l) then None
         else if it_position it = length (l_resources l)
           then Some (Some it, Inl (ResourceUnavailableException (l_name l @ '' is empty'')))
         else case circular_search l (it_position it) of
                None \<Rightarrow> Some (Some it, Inl (ResourceUnavailableException
                  (strategy_as_string ''balance::RoundRobin'' (Some l) @ '' there is not any available resource'')))
              | Some i \<Rightarrow> Some (Some (iterator_at l (next_position l i)), Inr (l_resources l ! i)))"

section \<open>StrategyByRange\<close>

text \<open>
  A range holds a pointer to its strategy, here its identity: two ranges may share one
  strategy object, and a strategy may be the object itself.  \<open>strategyAsString\<close> and
  \<open>apply_sub\<close> are the virtual calls on the strategy an identity stands for, the latter
  changing the state of all the strategies.
\<close>

type_synonym range = "cint \<times> cint \<times> nat"

definition hidden_by :: "cint \<Rightarrow> cint \<Rightarrow> range \<Rightarrow> bool" where
  "hidden_by newBottom newTop r =
     (let theBottom = fst r; theTop = fst (snd r)
      in if theBottom \<le>s newBottom \<and> newBottom \<le>s theTop then True
         else if theBottom \<le>s newTop \<and> newTop \<le>s theTop then True
         else newBottom \<le>s theBottom \<and> theTop \<le>s newTop)"

fun check_ranges :: "(nat \<Rightarrow> string) \<Rightarrow> cint \<Rightarrow> cint \<Rightarrow> nat \<Rightarrow> range list \<Rightarrow> exn option" where
  "check_ranges strategyAsString newBottom newTop strategy [] = None"
| "check_ranges strategyAsString newBottom newTop strategy (r # rs) =
     (if hidden_by newBottom newTop r
      then Some (RuntimeException (strategyAsString (snd (snd r)) @ '' would be hidden by '' @ strategyAsString strategy))
      else check_ranges strategyAsString newBottom newTop strategy rs)"

definition addRange :: "(nat \<Rightarrow> string) \<Rightarrow> nat \<Rightarrow> cint \<Rightarrow> cint \<Rightarrow> nat option \<Rightarrow> range list \<Rightarrow> range list outcome" where
  "addRange strategyAsString this newBottom newTop strategy ranges =
     (case strategy of
        None \<Rightarrow> Inl (RuntimeException (strategyAsString this @ '' can not associate a null Strategy''))
      | Some s \<Rightarrow>
          (if s = this then Inl (RuntimeException (strategyAsString this @ '' can not generate a recursive association''))
           else if newTop <s newBottom
           then Inl (RuntimeException (strategyAsString this @ '' | invalid range (bottom > top)''))
           else case check_ranges strategyAsString newBottom newTop s ranges of
                  Some e \<Rightarrow> Inl e
                | None \<Rightarrow> Inr (ranges @ [(newBottom, newTop, s)])))"

fun findRange :: "cint \<Rightarrow> range list \<Rightarrow> range option" where
  "findRange ident [] = None"
| "findRange ident (r # rs) =
     (if fst r \<le>s ident \<and> ident \<le>s fst (snd r) then Some r else findRange ident rs)"

definition by_range_apply ::
    "(nat \<Rightarrow> cint \<Rightarrow> 'w \<Rightarrow> ('w \<times> resource outcome) option) \<Rightarrow> range list \<Rightarrow> cint \<Rightarrow> 'w \<Rightarrow> ('w \<times> resource outcome) option" where
  "by_range_apply apply_sub ranges ident w =
     (case findRange ident ranges of
        None \<Rightarrow> Some (w, Inl (ResourceUnavailableException
          (''Key='' @ as_string_int ident @ '' does not have a defined range'')))
      | Some r \<Rightarrow> apply_sub (snd (snd r)) ident w)"

section \<open>The list as a registry\<close>

lemma name_taken_iff: "name_taken name rs \<longleftrightarrow> name \<in> r_name ` set rs"
  by (induction rs) auto

definition put_resource :: "resource \<Rightarrow> resource_list \<Rightarrow> resource_list option" where
  "put_resource r l =
     (case resource_list_add (Some r) l of Inr (l1, True) \<Rightarrow> Some l1 | _ \<Rightarrow> None)"

interpretation resources: open_registry l_resources r_name put_resource
  "\<lambda>name l. lookup_by r_name name (l_resources l)"
proof (unfold_locales, goal_cases)
  case (1 e s s')
  then show ?case by (auto simp: put_resource_def resource_list_add_def name_taken_iff split: if_splits)
next
  case (2 e s s')
  then show ?case by (auto simp: put_resource_def resource_list_add_def split: if_splits)
next
  case (3 k s e)
  then show ?case by (rule lookup_by_Some)
next
  case (4 k s)
  then show ?case by simp
next
  case (5 e s)
  then show ?case by (simp add: put_resource_def resource_list_add_def name_taken_iff)
qed

lemma count_loop_filter: "count_loop n rs = n + length (filter r_available rs)"
  by (induction rs arbitrary: n) auto

lemma countAvailable_filter: "countAvailableResources l = length (filter r_available (l_resources l))"
  by (simp add: countAvailableResources_def count_loop_filter)

section \<open>The circular search\<close>

definition circle :: "nat \<Rightarrow> nat \<Rightarrow> nat list" where
  "circle start n = map (\<lambda>j. (start + j) mod n) [0..<n]"

lemma next_position_mod: "i < length (l_resources l) \<Longrightarrow> next_position l i = Suc i mod length (l_resources l)"
  by (simp add: next_position_def Let_def mod_Suc)

lemma circle_step: "n > 0 \<Longrightarrow> k < n \<Longrightarrow> start < n \<Longrightarrow> (start + Suc k) mod n = start \<longleftrightarrow> Suc k = n"
proof -
  assume "n > 0" "k < n" "start < n"
  then show ?thesis
    by (cases "start + Suc k < n") (auto simp: mod_if)
qed

lemma search_from_find:
  assumes "start < length (l_resources l)" "k < length (l_resources l)"
  shows "search_from (length (l_resources l) - k) l ((start + k) mod length (l_resources l)) start =
     List.find (\<lambda>i. r_available (l_resources l ! i))
       (map (\<lambda>j. (start + j) mod length (l_resources l)) [k..<length (l_resources l)])"
  using assms
proof (induction "length (l_resources l) - k" arbitrary: k)
  case 0
  then show ?case by simp
next
  case (Suc m)
  let ?n = "length (l_resources l)"
  have n: "?n - k = Suc (?n - Suc k)" "0 < ?n" using Suc.prems by linarith+
  have up: "[k..<?n] = k # [Suc k..<?n]" using Suc.prems by (simp add: upt_conv_Cons)
  have nx: "next_position l ((start + k) mod ?n) = (start + Suc k) mod ?n"
    using n(2) by (subst next_position_mod) (simp_all add: mod_Suc_eq)
  show ?case
  proof (cases "Suc k = ?n")
    case True
    then have "(start + Suc k) mod ?n = start" using circle_step Suc.prems n(2) by blast
    with True show ?thesis unfolding n(1) up using nx by (simp add: Let_def)
  next
    case False
    then have "(start + Suc k) mod ?n \<noteq> start" using circle_step Suc.prems n(2) by blast
    moreover have "m = ?n - Suc k" "Suc k < ?n" using Suc.hyps(2) Suc.prems False by simp_all
    ultimately show ?thesis
      unfolding n(1) up using nx Suc.hyps(1) [of "Suc k"] Suc.prems by (simp add: Let_def)
  qed
qed

lemma circular_search_find:
  "start < length (l_resources l) \<Longrightarrow>
   circular_search l start = List.find (\<lambda>i. r_available (l_resources l ! i)) (circle start (length (l_resources l)))"
proof -
  assume s: "start < length (l_resources l)"
  then have "0 < length (l_resources l)" by linarith
  from search_from_find [OF s this] s show ?thesis by (simp add: circular_search_def circle_def)
qed

lemma set_circle: "start < n \<Longrightarrow> set (circle start n) = {..<n}"
proof -
  assume s: "start < n"
  have "i \<in> (\<lambda>j. (start + j) mod n) ` {0..<n}" if "i < n" for i
  proof (cases "start \<le> i")
    case True
    then have "i = (start + (i - start)) mod n" "i - start < n" using that by simp_all
    then show ?thesis by force
  next
    case False
    then have "i = (start + (n + i - start)) mod n" "n + i - start < n" using that s by simp_all
    then show ?thesis by force
  qed
  then show ?thesis using s by (auto simp: circle_def)
qed

lemma circular_search_Some:
  assumes "start < length (l_resources l)" "circular_search l start = Some i"
  shows "i < length (l_resources l)" "r_available (l_resources l ! i)"
  using assms set_circle [OF assms(1)]
  by (auto simp: circular_search_find find_Some_iff set_conv_nth)

lemma circular_search_None:
  assumes "start < length (l_resources l)"
  shows "circular_search l start = None \<longleftrightarrow> \<not> (\<exists>r \<in> set (l_resources l). r_available r)"
  using assms set_circle [OF assms]
  by (auto simp: circular_search_find find_None_iff in_set_conv_nth) (metis nth_mem)

lemma circular_search_first:
  "start < length (l_resources l) \<Longrightarrow> r_available (l_resources l ! start) \<Longrightarrow> circular_search l start = Some start"
  by (cases "l_resources l") (auto simp: circular_search_def)

section \<open>The contract of a strategy\<close>

text \<open>
  \<open>select\<close> gives the new state of the strategy and the resource or the exception; \<open>ready\<close>
  holds when the call is defined.
\<close>

fun is_unavailable :: "exn \<Rightarrow> bool" where
  "is_unavailable (ResourceUnavailableException t) = True"
| "is_unavailable e = False"

definition good_choice :: "resource list \<Rightarrow> resource outcome \<Rightarrow> bool" where
  "good_choice rs x =
     (case x of
        Inr r \<Rightarrow> r \<in> set rs \<and> r_available r
      | Inl e \<Rightarrow> is_unavailable e \<and> \<not> list_ex r_available rs)"

text \<open>A call on one of several strategies, kept by identity.\<close>

definition apply_at ::
    "(cint \<Rightarrow> 's \<Rightarrow> ('s \<times> resource outcome) option) \<Rightarrow> nat \<Rightarrow> cint \<Rightarrow> (nat \<Rightarrow> 's)
      \<Rightarrow> ((nat \<Rightarrow> 's) \<times> resource outcome) option" where
  "apply_at select k ident w = map_option (\<lambda>(s, x). (w(k := s), x)) (select ident (w k))"

locale strategy =
  fixes candidates :: "'s \<Rightarrow> resource list"
    and ready :: "'s \<Rightarrow> bool"
    and select :: "cint \<Rightarrow> 's \<Rightarrow> ('s \<times> resource outcome) option"
  assumes choose_law: "ready s \<Longrightarrow>
      \<exists>s' x. select ident s = Some (s', x) \<and> ready s' \<and> candidates s' = candidates s \<and>
        good_choice (candidates s) x"
begin

lemma apply_at_law:
  assumes "\<forall>k. ready (w k)"
  shows "\<exists>w' x. apply_at select k ident w = Some (w', x) \<and> (\<forall>k. ready (w' k)) \<and>
      (\<forall>k. candidates (w' k) = candidates (w k)) \<and>
      good_choice (candidates (w k)) x"
proof -
  from choose_law [of "w k" ident] assms obtain s' x where
    "select ident (w k) = Some (s', x)" "ready s'" "candidates s' = candidates (w k)"
    "good_choice (candidates (w k)) x"
    by auto
  then show ?thesis using assms by (auto simp: apply_at_def)
qed

text \<open>Two levels: the range of the ident, then the strategy of the range.\<close>

lemma by_range_law:
  assumes "\<forall>k. ready (w k)"
  shows "\<exists>w' x. by_range_apply (apply_at select) ranges ident w = Some (w', x) \<and> (\<forall>k. ready (w' k)) \<and>
      (case findRange ident ranges of
         None \<Rightarrow> w' = w \<and> good_choice [] x
       | Some r \<Rightarrow> good_choice (candidates (w (snd (snd r)))) x)"
proof (cases "findRange ident ranges")
  case None
  then show ?thesis using assms by (simp add: by_range_apply_def good_choice_def)
next
  case (Some r)
  from apply_at_law [OF assms, of "snd (snd r)" ident] Some show ?thesis
    by (auto simp: by_range_apply_def)
qed

end

text \<open>The two strategies over a list of resources.\<close>

datatype list_strategy = Indexed resource_list | RoundRobin resource_list round_robin

fun strategy_resources :: "list_strategy \<Rightarrow> resource list" where
  "strategy_resources (Indexed l) = l_resources l"
| "strategy_resources (RoundRobin l p) = l_resources l"

fun strategy_ready :: "list_strategy \<Rightarrow> bool" where
  "strategy_ready (Indexed l) = True"
| "strategy_ready (RoundRobin l None) = True"
| "strategy_ready (RoundRobin l (Some it)) =
     (it_size it = length (l_resources l) \<and>
      (it_position it < length (l_resources l) \<or> l_resources l = [] \<and> it_position it = 0))"

fun strategy_select :: "cint \<Rightarrow> list_strategy \<Rightarrow> (list_strategy \<times> resource outcome) option" where
  "strategy_select ident (Indexed l) = Some (Indexed l, indexed_apply l ident)"
| "strategy_select ident (RoundRobin l p) =
     map_option (\<lambda>(p', x). (RoundRobin l p', x)) (round_robin_apply l p)"

lemma indexed_law:
  "good_choice (l_resources l) (indexed_apply l ident)"
proof (cases "l_resources l = []")
  case True
  then show ?thesis by (simp add: indexed_apply_def good_choice_def list_ex_iff)
next
  case False
  let ?i = "index_of_identifier ident (length (l_resources l))"
  have i: "?i < length (l_resources l)" using False by (simp add: index_of_identifier_def)
  show ?thesis
  proof (cases "circular_search l ?i")
    case None
    with False circular_search_None [OF i] show ?thesis by (simp add: indexed_apply_def good_choice_def list_ex_iff)
  next
    case (Some j)
    with False circular_search_Some [OF i Some] show ?thesis by (simp add: indexed_apply_def good_choice_def list_ex_iff)
  qed
qed

lemma round_robin_law:
  assumes "strategy_ready (RoundRobin l p)"
  shows "\<exists>p' x. round_robin_apply l p = Some (p', x) \<and> strategy_ready (RoundRobin l p') \<and>
     good_choice (l_resources l) x"
proof -
  let ?it = "case p of None \<Rightarrow> iterator_at l 0 | Some it \<Rightarrow> it"
  have size: "it_size ?it = length (l_resources l)"
    using assms by (cases p) (simp_all add: iterator_at_def)
  show ?thesis
  proof (cases "l_resources l = []")
    case True
    then have "it_position ?it = 0" using assms by (cases p) (simp_all add: iterator_at_def)
    with True size show ?thesis by (simp add: round_robin_apply_def Let_def good_choice_def list_ex_iff)
  next
    case False
    then have pos: "it_position ?it < length (l_resources l)"
      using assms by (cases p) (simp_all add: iterator_at_def)
    show ?thesis
    proof (cases "circular_search l (it_position ?it)")
      case None
      with size pos circular_search_None [OF pos] show ?thesis by (simp add: round_robin_apply_def Let_def good_choice_def list_ex_iff)
    next
      case (Some i)
      note i = circular_search_Some [OF pos Some]
      have "next_position l i < length (l_resources l)"
        using i(1) by (auto simp: next_position_def Let_def)
      with size pos Some i show ?thesis
        by (simp add: round_robin_apply_def Let_def iterator_at_def good_choice_def)
    qed
  qed
qed

interpretation lists: strategy strategy_resources strategy_ready strategy_select
proof (unfold_locales, goal_cases)
  case (1 s ident)
  show ?case
  proof (cases s)
    case (Indexed l)
    then show ?thesis using indexed_law [of l ident] by simp
  next
    case (RoundRobin l p)
    with 1 round_robin_law [of l p] show ?thesis by auto
  qed
qed

section \<open>Disjoint ranges\<close>

definition in_range :: "cint \<Rightarrow> range \<Rightarrow> bool" where
  "in_range i r = (fst r \<le>s i \<and> i \<le>s fst (snd r))"

definition ranges_ok :: "range list \<Rightarrow> bool" where
  "ranges_ok rs \<longleftrightarrow>
     (\<forall>r \<in> set rs. fst r \<le>s fst (snd r)) \<and>
     sorted_wrt (\<lambda>a b. \<not> (\<exists>i. in_range i a \<and> in_range i b)) rs"

lemma hidden_by_overlap:
  assumes "a \<le>s b" "fst r \<le>s fst (snd r)"
  shows "hidden_by a b r \<longleftrightarrow> (\<exists>i. in_range i (a, b, k) \<and> in_range i r)"
proof
  assume "hidden_by a b r"
  then have "in_range a (a, b, k) \<and> in_range a r \<or> in_range b (a, b, k) \<and> in_range b r \<or>
      in_range (fst r) (a, b, k) \<and> in_range (fst r) r"
    using assms by (auto simp: hidden_by_def in_range_def Let_def word_sle_eq split: if_splits)
  then show "\<exists>i. in_range i (a, b, k) \<and> in_range i r" by blast
next
  assume "\<exists>i. in_range i (a, b, k) \<and> in_range i r"
  then show "hidden_by a b r"
    by (auto simp: hidden_by_def in_range_def Let_def word_sle_eq)
qed

lemma check_ranges_None:
  "check_ranges f a b s rs = None \<longleftrightarrow> (\<forall>r \<in> set rs. \<not> hidden_by a b r)"
  by (induction rs) auto

lemma findRange_Some: "findRange i rs = Some r \<Longrightarrow> r \<in> set rs \<and> in_range i r"
  by (induction rs) (auto simp: in_range_def split: if_splits)

lemma findRange_None: "findRange i rs = None \<longleftrightarrow> \<not> (\<exists>r \<in> set rs. in_range i r)"
  by (induction rs) (auto simp: in_range_def)

lemma findRange_unique:
  "ranges_ok rs \<Longrightarrow> r \<in> set rs \<Longrightarrow> in_range i r \<Longrightarrow> findRange i rs = Some r"
proof (induction rs)
  case (Cons q qs)
  show ?case
  proof (cases "in_range i q")
    case True
    then have "r = q" using Cons.prems by (auto simp: ranges_ok_def)
    with True show ?thesis by (simp add: in_range_def)
  next
    case False
    then show ?thesis using Cons by (auto simp: ranges_ok_def in_range_def)
  qed
qed simp

section \<open>Properties\<close>

text \<open>
  the indexed strategy chooses the first available resource in circular order from the
  position the identifier selects, and fails with the unavailability exception exactly when
  no resource is available.
\<close>

theorem indexed_chooses_first:
  assumes "l_resources l \<noteq> []"
  shows "case indexed_apply l ident of
      Inr r \<Rightarrow> map_option (\<lambda>i. l_resources l ! i)
         (List.find (\<lambda>i. r_available (l_resources l ! i))
           (circle (index_of_identifier ident (length (l_resources l))) (length (l_resources l)))) = Some r
    | Inl e \<Rightarrow> is_unavailable e \<and> \<not> list_ex r_available (l_resources l)"
proof -
  let ?i = "index_of_identifier ident (length (l_resources l))"
  have i: "?i < length (l_resources l)" using assms by (simp add: index_of_identifier_def)
  show ?thesis
  proof (cases "circular_search l ?i")
    case None
    then have "indexed_apply l ident = Inl (ResourceUnavailableException
        (strategy_as_string ''balance::Indexed'' (Some l) @ '' there is not any available resource''))"
      using assms by (simp add: indexed_apply_def)
    then show ?thesis using indexed_law [of l ident] by (simp add: good_choice_def)
  next
    case (Some j)
    then have "indexed_apply l ident = Inr (l_resources l ! j)" using assms by (simp add: indexed_apply_def)
    moreover have "List.find (\<lambda>i. r_available (l_resources l ! i)) (circle ?i (length (l_resources l))) = Some j"
      using Some circular_search_find [OF i] by simp
    ultimately show ?thesis by simp
  qed
qed

definition sample_resources :: resource_list where
  "sample_resources =
     \<lparr>l_name = ''l'', l_resources = [\<lparr>r_name = ''a'', r_available = False\<rparr>, \<lparr>r_name = ''b'', r_available = True\<rparr>]\<rparr>"

lemma indexed_chooses_first_witness:
  "indexed_apply sample_resources 4 = Inr \<lparr>r_name = ''b'', r_available = True\<rparr>"
proof -
  have i: "index_of_identifier 4 2 = 0" by (simp add: index_of_identifier_def)
  show ?thesis
    using indexed_chooses_first [of sample_resources 4]
    by (simp add: sample_resources_def i circle_def upt_conv_Cons numeral_2_eq_2 [symmetric]
        split: sum.splits)
qed

text \<open>A number of calls one after the other on a list that does not change.\<close>

fun round_robin_calls :: "nat \<Rightarrow> resource_list \<Rightarrow> round_robin \<Rightarrow> resource list option" where
  "round_robin_calls 0 l p = Some []"
| "round_robin_calls (Suc k) l p =
     (case round_robin_apply l p of
        Some (p', Inr r) \<Rightarrow> map_option ((#) r) (round_robin_calls k l p')
      | _ \<Rightarrow> None)"

lemma round_robin_calls_from:
  assumes "list_all r_available (l_resources l)" "i < length (l_resources l)"
  shows "round_robin_calls k l (Some (iterator_at l i)) =
     Some (map (\<lambda>j. l_resources l ! ((i + j) mod length (l_resources l))) [0..<k])"
  using assms(2)
proof (induction k arbitrary: i)
  case (Suc k)
  let ?n = "length (l_resources l)"
  have av: "r_available (l_resources l ! i)" using assms(1) Suc.prems by (simp add: list_all_length)
  have next_less: "next_position l i < ?n" using Suc.prems by (auto simp: next_position_def Let_def)
  have "round_robin_apply l (Some (iterator_at l i)) =
      Some (Some (iterator_at l (next_position l i)), Inr (l_resources l ! i))"
    using circular_search_first [OF Suc.prems av] Suc.prems
    by (simp add: round_robin_apply_def iterator_at_def Let_def)
  moreover have "(next_position l i + j) mod ?n = (i + Suc j) mod ?n" for j
    using Suc.prems by (simp add: next_position_mod mod_add_left_eq)
  moreover have "[0..<Suc k] = 0 # map Suc [0..<k]" by (simp add: map_Suc_upt upt_conv_Cons)
  ultimately show ?case
    using Suc.IH [OF next_less] Suc.prems by (simp del: upt_Suc)
qed simp

text \<open>
  C14: the round-robin strategy is fair: on a list of available resources that does not
  change, consecutive calls return the resources one after the other in the order of the
  list, starting again from the first one after the last.
\<close>

theorem round_robin_fair:
  assumes "list_all r_available (l_resources l)" "l_resources l \<noteq> []"
  shows "round_robin_calls k l None =
     Some (map (\<lambda>j. l_resources l ! (j mod length (l_resources l))) [0..<k])"
proof (cases k)
  case 0
  then show ?thesis by simp
next
  case (Suc m)
  have "round_robin_apply l None = round_robin_apply l (Some (iterator_at l 0))"
    by (simp add: round_robin_apply_def)
  then have "round_robin_calls k l None = round_robin_calls k l (Some (iterator_at l 0))"
    by (simp add: Suc)
  then show ?thesis using round_robin_calls_from [OF assms(1), of 0 k] assms(2) by simp
qed

lemma round_robin_fair_witness:
  "round_robin_calls 3 \<lparr>l_name = ''l'', l_resources =
      [\<lparr>r_name = ''a'', r_available = True\<rparr>, \<lparr>r_name = ''b'', r_available = True\<rparr>]\<rparr> None =
   Some [\<lparr>r_name = ''a'', r_available = True\<rparr>, \<lparr>r_name = ''b'', r_available = True\<rparr>,
         \<lparr>r_name = ''a'', r_available = True\<rparr>]"
  using round_robin_fair [of "\<lparr>l_name = ''l'', l_resources =
      [\<lparr>r_name = ''a'', r_available = True\<rparr>, \<lparr>r_name = ''b'', r_available = True\<rparr>]\<rparr>" 3]
  by (simp add: upt_conv_Cons)

text \<open>
  C15: a range is accepted exactly when it is not inverted, is not the object itself and
  shares no identifier with a range that is there; accepted or not, the ranges stay pairwise
  disjoint, so an identifier has at most one strategy, and \<open>findRange\<close> gives it.
\<close>

theorem addRange_disjoint:
  assumes "ranges_ok rs"
  shows "case addRange f this a b (Some s) rs of
      Inr rs' \<Rightarrow> rs' = rs @ [(a, b, s)] \<and> ranges_ok rs' \<and>
        (\<forall>i r. r \<in> set rs' \<longrightarrow> in_range i r \<longrightarrow> findRange i rs' = Some r)
    | Inl e \<Rightarrow> s = this \<or> b <s a \<or> (\<exists>r \<in> set rs. \<exists>i. in_range i (a, b, s) \<and> in_range i r)"
proof (cases "s = this \<or> b <s a")
  case True
  then show ?thesis by (auto simp: addRange_def)
next
  case False
  then have ab: "a \<le>s b" by (simp add: word_sle_eq word_sless_alt)
  have h: "hidden_by a b r \<longleftrightarrow> (\<exists>i. in_range i (a, b, s) \<and> in_range i r)" if "r \<in> set rs" for r
    using hidden_by_overlap [OF ab] assms that by (simp add: ranges_ok_def)
  show ?thesis
  proof (cases "check_ranges f a b s rs")
    case None
    then have n: "\<forall>r \<in> set rs. \<not> (\<exists>i. in_range i (a, b, s) \<and> in_range i r)"
      using h by (simp add: check_ranges_None)
    have ok: "ranges_ok (rs @ [(a, b, s)])"
      using n assms ab by (auto simp: ranges_ok_def sorted_wrt_append)
    then show ?thesis using False None findRange_unique [OF ok] by (simp add: addRange_def)
  next
    case (Some e)
    then have "\<exists>r \<in> set rs. hidden_by a b r" using check_ranges_None [of f a b s rs] by auto
    with Some False h show ?thesis by (auto simp: addRange_def)
  qed
qed

lemma addRange_disjoint_witness:
  "findRange 12 [(0 :: cint, 9, 1), (10, 20, 2)] = Some (10, 20, 2)"
proof -
  have ok: "ranges_ok [(0 :: cint, 9, 1)]" by (simp add: ranges_ok_def word_sle_eq)
  have "addRange (\<lambda>k. []) 0 10 20 (Some 2) [(0 :: cint, 9, 1)] = Inr [(0, 9, 1), (10, 20, 2)]"
    by (simp add: addRange_def hidden_by_def word_sle_eq word_sless_alt)
  with addRange_disjoint [OF ok, where f = "\<lambda>k. []" and this = 0 and a = 10 and b = 20 and s = 2] show ?thesis
    by (simp add: in_range_def word_sle_eq)
qed



end
