(* ===== verification/AppCore.thy ===== *)
theory AppCore
  imports Basis Registry XmlNode
begin

unbundle bit_operations_syntax

text \<open>
  \<open>app\<close>: the runnable objects and their status flags, the services, the requirements a
  service has on other services, and the application that owns and starts them.

  A service is identified by its feature and its implementation: both are constant and
  \<open>attach\<close> keeps the pairs different, so a shared pointer to a service is a \<open>service_key\<close>.
  What a concrete service does in \<open>do_initialize\<close> and \<open>do_stop\<close> (pure virtual methods,
  declared to throw runtime exceptions only) is a parameter: a function on a world \<open>'w\<close> of
  its own that returns the text of the exception it throws, if it throws one.
\<close>

section \<open>Status flags of a runnable object\<close>

definition Stopped :: cint where "Stopped = 0"
definition Starting :: cint where "Starting = 1"
definition Running :: cint where "Running = 2"
definition StoppedWithError :: cint where "StoppedWithError = 4"

lemmas flag_defs = Stopped_def Starting_def Running_def StoppedWithError_def

definition isStopped :: "cint \<Rightarrow> bool" where
  "isStopped f = (f = Stopped \<or> f = StoppedWithError)"

definition isStoppedWithError :: "cint \<Rightarrow> bool" where
  "isStoppedWithError f = (f AND StoppedWithError \<noteq> 0)"

definition isStarting :: "cint \<Rightarrow> bool" where
  "isStarting f = (f AND Starting \<noteq> 0)"

definition isRunning :: "cint \<Rightarrow> bool" where
  "isRunning f = (f AND Running \<noteq> 0)"

definition activate :: "cint \<Rightarrow> cint \<Rightarrow> cint" where
  "activate flag f = f OR flag"

definition deactivate :: "cint \<Rightarrow> cint \<Rightarrow> cint" where
  "deactivate flag f = f AND NOT flag"

definition statusRunning :: "cint \<Rightarrow> cint" where
  "statusRunning f = activate Running (deactivate Starting f)"

definition flagsAsString :: "cint \<Rightarrow> string" where
  "flagsAsString f =
     (if f = Stopped then '' Stopped''
      else (if isRunning f then '' Running'' else '''')
         @ (if isStarting f then '' Starting'' else '''')
         @ (if isStoppedWithError f then '' Stopped with error'' else ''''))"

definition runnable_as_string :: "string \<Rightarrow> cint \<Rightarrow> string" where
  "runnable_as_string name f =
     ''app.Runnable { '' @ ''Name='' @ name @ '' | Status='' @ flagsAsString f @ '' }''"

definition runnable_as_xml :: "string \<Rightarrow> cint \<Rightarrow> xml_node outcome" where
  "runnable_as_xml name f =
     create_attributes [(''Name'', name), (''Status'', flagsAsString f)] (new_node ''Runnable'')"

text \<open>
  \<open>stop\<close>: \<open>do_stop\<close> is virtual; its result is the text of the exception, and the state \<open>'s\<close>
  is whatever it changes beside the flags of this object.
\<close>

definition runnable_stop ::
    "('s \<Rightarrow> 's \<times> string option) \<Rightarrow> cint \<Rightarrow> 's \<Rightarrow> cint \<times> 's \<times> bool outcome" where
  "runnable_stop do_stop f s =
     (if isStopped f then (f, s, Inr False)
      else case do_stop s of
             (s1, None) \<Rightarrow> (Stopped, s1, Inr True)
           | (s1, Some text_of) \<Rightarrow> (StoppedWithError, s1, Inl (RuntimeException text_of)))"

lemma isStarting_simps [simp]:
  "isStarting Stopped = False" "isStarting Starting = True" "isStarting Running = False"
  "isStarting StoppedWithError = False"
  by (simp_all add: isStarting_def flag_defs)

lemma isRunning_simps [simp]:
  "isRunning Stopped = False" "isRunning Starting = False" "isRunning Running = True"
  "isRunning StoppedWithError = False"
  by (simp_all add: isRunning_def flag_defs)

lemma isStopped_simps [simp]:
  "isStopped Stopped" "\<not> isStopped Starting" "\<not> isStopped Running" "isStopped StoppedWithError"
  by (simp_all add: isStopped_def flag_defs)

lemma statusRunning_Starting [simp]: "statusRunning Starting = Running"
  by (simp add: statusRunning_def activate_def deactivate_def flag_defs)

lemma runnable_stop_stopped:
  "isStopped (fst (runnable_stop do_stop f s))"
  by (auto simp: runnable_stop_def split: prod.splits option.splits)

section \<open>Features\<close>

datatype feature = Database | Timing | Networking | UserDefined

fun feature_rank :: "feature \<Rightarrow> nat" where
  "feature_rank Database = 0"
| "feature_rank Timing = 1"
| "feature_rank Networking = 2"
| "feature_rank UserDefined = 3"

fun feature_as_string :: "feature \<Rightarrow> string" where
  "feature_as_string Database = ''Database''"
| "feature_as_string Timing = ''Timing''"
| "feature_as_string Networking = ''Networking''"
| "feature_as_string UserDefined = ''UserDefined''"

lemma feature_rank_inj: "feature_rank a = feature_rank b \<Longrightarrow> a = b"
  by (cases a; cases b) auto

instantiation feature :: linorder
begin

definition less_eq_feature :: "feature \<Rightarrow> feature \<Rightarrow> bool" where
  "less_eq_feature a b = (feature_rank a \<le> feature_rank b)"

definition less_feature :: "feature \<Rightarrow> feature \<Rightarrow> bool" where
  "less_feature a b = (feature_rank a < feature_rank b)"

instance
  by standard (auto simp: less_eq_feature_def less_feature_def intro: feature_rank_inj)

end

section \<open>Services\<close>

type_synonym service_key = "feature \<times> string"

record requirement =
  q_feature :: feature
  q_implementation :: string
  q_selection :: "service_key option"

record service =
  s_feature :: feature
  s_implementation :: string
  s_requirements :: "requirement list"
  s_flags :: cint
  s_running :: semaphore

definition WhateverImplementation :: string where
  "WhateverImplementation = ''*''"

definition service_new :: "feature \<Rightarrow> string \<Rightarrow> service" where
  "service_new feat impl =
     \<lparr>s_feature = feat, s_implementation = impl, s_requirements = [], s_flags = Stopped,
      s_running = 0\<rparr>"

definition service_key_of :: "service \<Rightarrow> service_key" where
  "service_key_of s = (s_feature s, s_implementation s)"

definition key_name :: "service_key \<Rightarrow> string" where
  "key_name k = feature_as_string (fst k) @ '':'' @ snd k"

definition service_name :: "service \<Rightarrow> string" where
  "service_name s = key_name (service_key_of s)"

definition requirement_as_string :: "requirement \<Rightarrow> string" where
  "requirement_as_string q =
     ''{ Feature='' @ feature_as_string (q_feature q)
     @ (if q_implementation q \<noteq> WhateverImplementation
        then '',Implementation='' @ q_implementation q else '''')
     @ (case q_selection q of None \<Rightarrow> '''' | Some k \<Rightarrow> '',Selection='' @ key_name k)
     @ '' }''"

fun comma_separated :: "string list \<Rightarrow> string" where
  "comma_separated [] = ''''"
| "comma_separated [x] = x"
| "comma_separated (x # xs) = x @ '','' @ comma_separated xs"

definition service_as_string :: "service \<Rightarrow> string" where
  "service_as_string s =
     ''app.Service { '' @ runnable_as_string (service_name s) (s_flags s) @ '', Requirements=[''
     @ comma_separated (map requirement_as_string (s_requirements s)) @ '']'' @ '' }''"

definition requirement_as_xml :: "requirement \<Rightarrow> xml_node outcome" where
  "requirement_as_xml q =
     create_attributes
       ([(''Feature'', feature_as_string (q_feature q))]
        @ (if q_implementation q \<noteq> WhateverImplementation
           then [(''Implementation'', q_implementation q)] else [])
        @ (case q_selection q of None \<Rightarrow> [] | Some k \<Rightarrow> [(''Selection'', key_name k)]))
       (new_node ''Requirement'')"

fun add_children :: "xml_node outcome list \<Rightarrow> xml_node \<Rightarrow> xml_node outcome" where
  "add_children [] n = Inr n"
| "add_children (Inl e # cs) n = Inl e"
| "add_children (Inr c # cs) n = add_children cs (add_child c n)"

lemma add_children_Inr:
  "add_children (map Inr ts) (XmlNode name as t cs) = Inr (XmlNode name as t (cs @ ts))"
  by (induction ts arbitrary: cs) simp_all

definition service_as_xml :: "service \<Rightarrow> xml_node outcome" where
  "service_as_xml s =
     (case add_children (map requirement_as_xml (s_requirements s)) (new_node ''Requirements'') of
        Inl e \<Rightarrow> Inl e
      | Inr requirements \<Rightarrow>
          add_children [runnable_as_xml (service_name s) (s_flags s), Inr requirements]
            (new_node ''app.Service''))"

text \<open>\<open>None\<close> is a call that blocks on the semaphore.\<close>

definition waitEffectiveRunning :: "service \<Rightarrow> service outcome option" where
  "waitEffectiveRunning s =
     (if \<not> isStarting (s_flags s) \<and> \<not> isRunning (s_flags s)
      then Some (Inl (RuntimeException
             (service_as_string s @ '' could not wait for effective running'')))
      else map_option (\<lambda>c. Inr (s\<lparr>s_running := c\<rparr>)) (sem_wait (s_running s)))"

definition notifyEffectiveRunning :: "service \<Rightarrow> service" where
  "notifyEffectiveRunning s = s\<lparr>s_running := sem_signal (s_running s)\<rparr>"

definition require :: "feature \<Rightarrow> string \<Rightarrow> service \<Rightarrow> service outcome" where
  "require feat impl s =
     (case lookup_by q_feature feat (s_requirements s) of
        Some q \<Rightarrow> Inl (RuntimeException (service_as_string s @ '' feature ''
                     @ feature_as_string feat @ '' already registered''))
      | None \<Rightarrow> Inr (s\<lparr>s_requirements := s_requirements s
                  @ [\<lparr>q_feature = feat, q_implementation = impl, q_selection = None\<rparr>]\<rparr>))"

definition getRequirement :: "feature \<Rightarrow> service \<Rightarrow> service_key outcome" where
  "getRequirement feat s =
     (case lookup_by q_feature feat (s_requirements s) of
        None \<Rightarrow> Inl (RuntimeException (service_as_string s @ '' requirement ''
                   @ feature_as_string feat @ '' was not registered''))
      | Some q \<Rightarrow>
          (case q_selection q of
             None \<Rightarrow> Inl (RuntimeException (service_as_string s @ '' requirement ''
                   @ feature_as_string feat @ '' no selection was done yet''))
           | Some k \<Rightarrow> Inr k))"

section \<open>The application\<close>

text \<open>
  The services are a multimap ordered by feature; services of the same feature keep the
  order in which they were attached.
\<close>

record application =
  a_name :: string
  a_flags :: cint
  a_services :: "service list"

definition application_new :: "string \<Rightarrow> application" where
  "application_new name = \<lparr>a_name = name, a_flags = Stopped, a_services = []\<rparr>"

fun multimap_insert :: "service \<Rightarrow> service list \<Rightarrow> service list" where
  "multimap_insert s [] = [s]"
| "multimap_insert s (t # ts) =
     (if s_feature s < s_feature t then s # t # ts else t # multimap_insert s ts)"

definition equal_range :: "feature \<Rightarrow> application \<Rightarrow> service list" where
  "equal_range feat a = filter (\<lambda>s. s_feature s = feat) (a_services a)"

definition service_at :: "service_key \<Rightarrow> application \<Rightarrow> service option" where
  "service_at k a = lookup_by service_key_of k (a_services a)"

definition application_as_string :: "application \<Rightarrow> string" where
  "application_as_string a =
     ''app::Application { '' @ runnable_as_string (a_name a) (a_flags a)
     @ '' | #services='' @ dec (length (a_services a)) @ '' }''"

text \<open>
  \<open>version\<close>, \<open>pid\<close> and the names of the modules come from outside \<open>app\<close>; \<open>tree\<close> is the virtual \<open>asXML\<close>
  of the services.
\<close>

definition application_as_xml ::
    "(service \<Rightarrow> xml_node outcome) \<Rightarrow> string \<Rightarrow> string \<Rightarrow> string list \<Rightarrow> application \<Rightarrow> xml_node outcome" where
  "application_as_xml tree version pid modules a =
     (case create_attributes [(''Version'', version), (''pid'', pid)] (new_node ''app.Application'') of
        Inl e \<Rightarrow> Inl e
      | Inr n \<Rightarrow>
          (case add_children (map (\<lambda>m. create_attribute ''Name'' m (new_node ''Module'')) modules)
                  (new_node ''Modules'') of
             Inl e \<Rightarrow> Inl e
           | Inr ms \<Rightarrow>
               (case add_children (map tree (a_services a)) (new_node ''Services'') of
                  Inl e \<Rightarrow> Inl e
                | Inr ss \<Rightarrow> Inr (add_child ss (add_child ms n)))))"

definition select :: "feature \<Rightarrow> string \<Rightarrow> application \<Rightarrow> service_key outcome" where
  "select feat impl a =
     (case equal_range feat a of
        [] \<Rightarrow> Inl (RuntimeException
                (a_name a @ '' does not have any service for feature='' @ feature_as_string feat))
      | s # ss \<Rightarrow>
          if impl \<noteq> WhateverImplementation
          then (case lookup_by s_implementation impl (s # ss) of
                  Some t \<Rightarrow> Inr (service_key_of t)
                | None \<Rightarrow> Inl (RuntimeException
                    (a_name a @ '' has service for feature='' @ feature_as_string feat
                     @ ''but no implementation='' @ impl)))
          else Inr (service_key_of s))"

section \<open>Initializing a service\<close>

text \<open>
  \<open>update_service\<close> writes through the shared pointer.  \<open>initialize_requirements\<close> is the
  loop of \<open>Service::initialize\<close> over the positions of the requirements; the recursive call
  is its argument, so that the recursion of \<open>service_initialize\<close> is on the fuel alone.
  \<open>None\<close> means that the fuel ran out.
\<close>

definition update_service :: "service_key \<Rightarrow> (service \<Rightarrow> service) \<Rightarrow> application \<Rightarrow> application" where
  "update_service k f a =
     a\<lparr>a_services := map (\<lambda>s. if service_key_of s = k then f s else s) (a_services a)\<rparr>"

definition set_flags :: "service_key \<Rightarrow> cint \<Rightarrow> application \<Rightarrow> application" where
  "set_flags k f a = update_service k (\<lambda>s. s\<lparr>s_flags := f\<rparr>) a"

definition set_selection :: "service_key \<Rightarrow> nat \<Rightarrow> service_key \<Rightarrow> application \<Rightarrow> application" where
  "set_selection k i j a =
     update_service k (\<lambda>s. s\<lparr>s_requirements := (s_requirements s)
        [i := (s_requirements s ! i)\<lparr>q_selection := Some j\<rparr>]\<rparr>) a"

definition flags_of :: "service_key \<Rightarrow> application \<Rightarrow> cint" where
  "flags_of k a = (case service_at k a of None \<Rightarrow> Stopped | Some s \<Rightarrow> s_flags s)"

definition requirements_of :: "service_key \<Rightarrow> application \<Rightarrow> requirement list" where
  "requirements_of k a = (case service_at k a of None \<Rightarrow> [] | Some s \<Rightarrow> s_requirements s)"

definition described :: "service_key \<Rightarrow> application \<Rightarrow> string" where
  "described k a = (case service_at k a of None \<Rightarrow> '''' | Some s \<Rightarrow> service_as_string s)"

type_synonym 'w init_result = "application \<times> 'w \<times> unit outcome"

fun initialize_requirements ::
    "(service_key \<Rightarrow> application \<Rightarrow> 'w \<Rightarrow> 'w init_result option) \<Rightarrow>
     service_key \<Rightarrow> nat list \<Rightarrow> application \<Rightarrow> 'w \<Rightarrow> 'w init_result option" where
  "initialize_requirements rec k [] a w = Some (a, w, Inr ())"
| "initialize_requirements rec k (i # is) a w =
     (case select (q_feature (requirements_of k a ! i)) (q_implementation (requirements_of k a ! i)) a of
        Inl e \<Rightarrow> Some (a, w, Inl e)
      | Inr j \<Rightarrow>
          let a1 = set_selection k i j a in
          if isRunning (flags_of j a1) then initialize_requirements rec k is a1 w
          else if isStarting (flags_of j a1)
          then Some (a1, w, Inl (RuntimeException
                 (described k a1 @ '' has loop with requirement '' @ quote @ key_name j @ quote)))
          else case rec j a1 w of
                 None \<Rightarrow> None
               | Some (a2, w2, Inl e) \<Rightarrow> Some (a2, w2, Inl e)
               | Some (a2, w2, Inr u) \<Rightarrow> initialize_requirements rec k is a2 w2)"

fun service_initialize ::
    "(service_key \<Rightarrow> 'w \<Rightarrow> 'w \<times> string option) \<Rightarrow>
     nat \<Rightarrow> service_key \<Rightarrow> application \<Rightarrow> 'w \<Rightarrow> 'w init_result option" where
  "service_initialize do_initialize 0 k a w = None"
| "service_initialize do_initialize (Suc fuel) k a w =
     (case initialize_requirements (service_initialize do_initialize fuel) k
             [0..<length (requirements_of k a)] (set_flags k Starting a) w of
        None \<Rightarrow> None
      | Some (a1, w1, Inl e) \<Rightarrow> Some (set_flags k Stopped a1, w1, Inl e)
      | Some (a1, w1, Inr u) \<Rightarrow>
          (case do_initialize k w1 of
             (w2, None) \<Rightarrow> Some (set_flags k (statusRunning (flags_of k a1)) a1, w2, Inr ())
           | (w2, Some t) \<Rightarrow> Some (set_flags k Stopped a1, w2, Inl (RuntimeException t))))"

text \<open>
  A service is only initialized recursively when it is not starting, and is starting while
  its requirements are initialized, so the recursion is no deeper than the number of services.
\<close>

definition init_fuel :: "application \<Rightarrow> nat" where
  "init_fuel a = length (a_services a)"

fun start_services ::
    "(service_key \<Rightarrow> 'w \<Rightarrow> 'w \<times> string option) \<Rightarrow> service_key list \<Rightarrow>
     application \<Rightarrow> 'w \<Rightarrow> 'w init_result option" where
  "start_services do_initialize [] a w = Some (a, w, Inr ())"
| "start_services do_initialize (k # ks) a w =
     (case service_initialize do_initialize (init_fuel a) k a w of
        None \<Rightarrow> None
      | Some (a1, w1, Inl e) \<Rightarrow> Some (a1, w1, Inl e)
      | Some (a1, w1, Inr u) \<Rightarrow> start_services do_initialize ks a1 w1)"

definition startServices ::
    "(service_key \<Rightarrow> 'w \<Rightarrow> 'w \<times> string option) \<Rightarrow> application \<Rightarrow> 'w \<Rightarrow> 'w init_result option" where
  "startServices do_initialize a w =
     start_services do_initialize (map service_key_of (a_services a)) a w"

section \<open>Attaching, stopping and running\<close>

definition multimap_put :: "service \<Rightarrow> application \<Rightarrow> application option" where
  "multimap_put s a =
     (case lookup_by s_implementation (s_implementation s) (equal_range (s_feature s) a) of
        Some t \<Rightarrow> None
      | None \<Rightarrow> Some (a\<lparr>a_services := multimap_insert s (a_services a)\<rparr>))"

definition attach ::
    "(service_key \<Rightarrow> 'w \<Rightarrow> 'w \<times> string option) \<Rightarrow> service option \<Rightarrow> application \<Rightarrow> 'w \<Rightarrow>
     (application \<times> 'w \<times> bool outcome) option" where
  "attach do_initialize service a w =
     (case service of
        None \<Rightarrow> Some (a, w, Inl (RuntimeException ''Can not associate a NULL service''))
      | Some s \<Rightarrow>
          (case multimap_put s a of
             None \<Rightarrow> Some (a, w, Inr False)
           | Some a1 \<Rightarrow>
               if isRunning (a_flags a1)
               then (case service_initialize do_initialize (init_fuel a1) (service_key_of s) a1 w of
                       None \<Rightarrow> None
                     | Some (a2, w2, Inl e) \<Rightarrow> Some (a2, w2, Inl e)
                     | Some (a2, w2, Inr u) \<Rightarrow> Some (a2, w2, Inr True))
               else Some (a1, w, Inr True)))"

text \<open>
  \<open>Application::do_stop\<close> asks every service to stop, collects the names of the services
  that throw, and throws one exception in the end.
\<close>

fun stop_services ::
    "(service_key \<Rightarrow> 'w \<Rightarrow> 'w \<times> string option) \<Rightarrow> service list \<Rightarrow> 'w \<Rightarrow>
     service list \<times> 'w \<times> string list" where
  "stop_services svc_stop [] w = ([], w, [])"
| "stop_services svc_stop (s # ss) w =
     (case runnable_stop (svc_stop (service_key_of s)) (s_flags s) w of
        (f, w1, r) \<Rightarrow>
          let (ss1, w2, names) = stop_services svc_stop ss w1 in
          (s\<lparr>s_flags := f\<rparr> # ss1, w2,
           (if is_ok r then names else service_name s # names)))"

definition application_do_stop ::
    "(service_key \<Rightarrow> 'w \<Rightarrow> 'w \<times> string option) \<Rightarrow> application \<times> 'w \<Rightarrow>
     (application \<times> 'w) \<times> string option" where
  "application_do_stop svc_stop aw =
     (let (a, w) = aw; (ss, w1, names) = stop_services svc_stop (a_services a) w in
      ((a\<lparr>a_services := ss\<rparr>, w1),
       (if names = [] then None
        else Some (''Some services do not accept the request stop { ''
                   @ concat (map (\<lambda>n. n @ '' '') names) @ ''}''))))"

definition application_stop ::
    "(service_key \<Rightarrow> 'w \<Rightarrow> 'w \<times> string option) \<Rightarrow> application \<Rightarrow> 'w \<Rightarrow>
     application \<times> 'w \<times> bool outcome" where
  "application_stop svc_stop a w =
     (case runnable_stop (application_do_stop svc_stop) (a_flags a) (a, w) of
        (f, (a1, w1), r) \<Rightarrow> (a1\<lparr>a_flags := f\<rparr>, w1, r))"

text \<open>
  \<open>start\<close>: the virtual methods \<open>initialize\<close> and \<open>run\<close> of the concrete application are
  parameters; \<open>run\<close> lasts until the application has to finish, and a signal may have
  stopped it by then, so it returns the application it leaves.  The exception \<open>stop\<close>
  throws inside the handler replaces the one that is being handled.  The banner written on
  the standard output is not modelled.
\<close>

definition application_start ::
    "('w \<Rightarrow> 'w \<times> string option) \<Rightarrow> (service_key \<Rightarrow> 'w \<Rightarrow> 'w \<times> string option) \<Rightarrow>
     (application \<Rightarrow> 'w \<Rightarrow> application \<times> 'w \<times> string option) \<Rightarrow>
     (service_key \<Rightarrow> 'w \<Rightarrow> 'w \<times> string option) \<Rightarrow>
     application \<Rightarrow> 'w \<Rightarrow> 'w init_result option" where
  "application_start app_initialize do_initialize run svc_stop a w =
     (if isRunning (a_flags a)
      then Some (a, w, Inl (RuntimeException (application_as_string a @ '' | Already running'')))
      else case app_initialize w of
        (w1, Some t) \<Rightarrow> Some (a, w1, Inl (RuntimeException t))
      | (w1, None) \<Rightarrow>
          (case startServices do_initialize (a\<lparr>a_flags := Starting\<rparr>) w1 of
             None \<Rightarrow> None
           | Some (a2, w2, Inl e) \<Rightarrow>
               (case application_stop svc_stop a2 w2 of
                  (a3, w3, Inl e3) \<Rightarrow> Some (a3, w3, Inl e3)
                | (a3, w3, Inr b) \<Rightarrow> Some (a3, w3, Inl e))
           | Some (a2, w2, Inr u) \<Rightarrow>
               (case run (a2\<lparr>a_flags := statusRunning (a_flags a2)\<rparr>) w2 of
                  (a3, w3, failure) \<Rightarrow>
                    (case application_stop svc_stop a3 w3 of
                       (a4, w4, Inl e4) \<Rightarrow> Some (a4, w4, Inl e4)
                     | (a4, w4, Inr b) \<Rightarrow>
                         Some (a4, w4,
                           (case failure of None \<Rightarrow> Inr () | Some t \<Rightarrow> Inl (RuntimeException t)))))))"

text \<open>
  \<open>ApplicationServiceStarter::do_stop\<close> sets its own flag whether or not the services
  accepted to stop, and \<open>run\<close> returns once the flag is set (\<open>None\<close> while it waits).
\<close>

definition starter_do_stop ::
    "(service_key \<Rightarrow> 'w \<Rightarrow> 'w \<times> string option) \<Rightarrow> (application \<times> 'w) \<times> bool \<Rightarrow>
     ((application \<times> 'w) \<times> bool) \<times> string option" where
  "starter_do_stop svc_stop s =
     (case application_do_stop svc_stop (fst s) of
        (aw, None) \<Rightarrow> ((aw, True), None)
      | (aw, Some t) \<Rightarrow> ((aw, True), Some t))"

definition starter_run :: "semaphore \<Rightarrow> bool \<Rightarrow> semaphore \<times> unit option" where
  "starter_run semaphoreForRun stopNow =
     (sem_signal semaphoreForRun, if stopNow then Some () else None)"

section \<open>What an initialization leaves as it was\<close>

definition keys :: "application \<Rightarrow> service_key list" where
  "keys a = map service_key_of (a_services a)"

definition wanted :: "requirement \<Rightarrow> feature \<times> string" where
  "wanted q = (q_feature q, q_implementation q)"

text \<open>The part of an application that \<open>initialize\<close> never changes.\<close>

definition specs :: "application \<Rightarrow> (service_key \<times> (feature \<times> string) list) list" where
  "specs a = map (\<lambda>s. (service_key_of s, map wanted (s_requirements s))) (a_services a)"

definition busy :: "service_key \<Rightarrow> application \<Rightarrow> bool" where
  "busy k a = (isRunning (flags_of k a) \<or> isStarting (flags_of k a))"

definition evolves :: "service_key set \<Rightarrow> application \<Rightarrow> application \<Rightarrow> bool" where
  "evolves K a b \<longleftrightarrow>
     specs b = specs a \<and> a_name b = a_name a \<and> a_flags b = a_flags a \<and>
     (\<forall>j. j \<notin> K \<longrightarrow> busy j a \<longrightarrow> service_at j b = service_at j a) \<and>
     (\<forall>j. isStarting (flags_of j b) \<longrightarrow> isStarting (flags_of j a))"

lemma keys_specs: "keys a = map fst (specs a)"
  by (simp add: keys_def specs_def)

lemma specs_keys: "specs b = specs a \<Longrightarrow> keys b = keys a"
  by (simp add: keys_specs)

lemma wanted_update: "map wanted (qs[i := (qs ! i)\<lparr>q_selection := x\<rparr>]) = map wanted qs"
proof (cases "i < length qs")
  case True
  then have "wanted ((qs ! i)\<lparr>q_selection := x\<rparr>) = map wanted qs ! i"
    by (simp add: wanted_def)
  then show ?thesis by (simp add: map_update)
qed (simp add: list_update_beyond)

lemma specs_set_flags [simp]: "specs (set_flags k f a) = specs a"
  by (simp add: specs_def set_flags_def update_service_def service_key_of_def)

lemma specs_set_selection [simp]: "specs (set_selection k i j a) = specs a"
  by (simp add: specs_def set_selection_def update_service_def service_key_of_def wanted_update)

lemma constant_fields [simp]:
  "a_name (set_flags k f a) = a_name a" "a_flags (set_flags k f a) = a_flags a"
  "a_name (set_selection k i j a) = a_name a" "a_flags (set_selection k i j a) = a_flags a"
  by (simp_all add: set_flags_def set_selection_def update_service_def)

lemma service_at_update:
  assumes "\<And>s. service_key_of (f s) = service_key_of s"
  shows "service_at j (update_service k f a) =
           map_option (\<lambda>s. if j = k then f s else s) (service_at j a)"
proof -
  have "lookup_by service_key_of j (map (\<lambda>s. if service_key_of s = k then f s else s) ss)
          = map_option (\<lambda>s. if j = k then f s else s) (lookup_by service_key_of j ss)" for ss
    by (induction ss) (use assms in auto)
  then show ?thesis by (simp add: service_at_def update_service_def)
qed

lemma service_at_set_flags:
  "service_at j (set_flags k f a) =
     map_option (\<lambda>s. if j = k then s\<lparr>s_flags := f\<rparr> else s) (service_at j a)"
  unfolding set_flags_def by (rule service_at_update) (simp add: service_key_of_def)

lemma service_at_set_selection:
  "service_at j (set_selection k i l a) =
     map_option (\<lambda>s. if j = k then s\<lparr>s_requirements := (s_requirements s)
       [i := (s_requirements s ! i)\<lparr>q_selection := Some l\<rparr>]\<rparr> else s) (service_at j a)"
  unfolding set_selection_def by (rule service_at_update) (simp add: service_key_of_def)

lemma service_at_None: "service_at k a = None \<longleftrightarrow> k \<notin> set (keys a)"
  by (simp add: service_at_def keys_def)

lemma flags_of_set_flags:
  "flags_of j (set_flags k f a) = (if j = k \<and> k \<in> set (keys a) then f else flags_of j a)"
  using service_at_None [of k a]
  by (cases "service_at k a") (auto simp: flags_of_def service_at_set_flags split: option.splits)

lemma flags_of_set_selection [simp]: "flags_of j (set_selection k i l a) = flags_of j a"
  by (auto simp: flags_of_def service_at_set_selection split: option.splits)

lemma requirements_of_set_flags [simp]:
  "requirements_of j (set_flags k f a) = requirements_of j a"
  by (auto simp: requirements_of_def service_at_set_flags split: option.splits)

lemma requirements_of_set_selection:
  "requirements_of j (set_selection k i l a) =
     (if j = k then (requirements_of k a)[i := (requirements_of k a ! i)\<lparr>q_selection := Some l\<rparr>]
      else requirements_of j a)"
  by (auto simp: requirements_of_def service_at_set_selection split: option.splits)

lemma lookup_by_map:
  "lookup_by f k (map g xs) = map_option g (lookup_by (\<lambda>x. f (g x)) k xs)"
  by (induction xs) auto

lemma select_keys:
  "select feat impl a =
     (case filter (\<lambda>k. fst k = feat) (keys a) of
        [] \<Rightarrow> Inl (RuntimeException
                (a_name a @ '' does not have any service for feature='' @ feature_as_string feat))
      | k # ks \<Rightarrow>
          if impl \<noteq> WhateverImplementation
          then (case lookup_by snd impl (k # ks) of
                  Some t \<Rightarrow> Inr t
                | None \<Rightarrow> Inl (RuntimeException
                    (a_name a @ '' has service for feature='' @ feature_as_string feat
                     @ ''but no implementation='' @ impl)))
          else Inr k)"
proof -
  have f: "filter (\<lambda>k. fst k = feat) (keys a) = map service_key_of (equal_range feat a)"
    by (simp add: keys_def equal_range_def filter_map o_def service_key_of_def)
  have l: "lookup_by snd impl (map service_key_of ss) =
          map_option service_key_of (lookup_by s_implementation impl ss)" for ss
    by (simp add: lookup_by_map service_key_of_def)
  show ?thesis
  proof (cases "equal_range feat a")
    case Nil
    then show ?thesis by (simp add: f select_def)
  next
    case (Cons s ss)
    have "lookup_by snd impl (service_key_of s # map service_key_of ss) =
        map_option service_key_of (lookup_by s_implementation impl (s # ss))"
      using l [of "s # ss"] by (simp only: list.map)
    then show ?thesis
      unfolding f select_def Cons
      by (cases "lookup_by s_implementation impl (s # ss)") (simp_all only: list.map list.case option.map option.case)
  qed
qed

lemma select_specs:
  assumes "specs b = specs a" "a_name b = a_name a"
  shows "select f i b = select f i a"
  unfolding select_keys by (simp only: specs_keys [OF assms(1)] assms(2))

lemma select_in_keys: "select f i a = Inr k \<Longrightarrow> k \<in> set (keys a)"
proof -
  assume s: "select f i a = Inr k"
  let ?ks = "filter (\<lambda>k. fst k = f) (keys a)"
  from s have "k \<in> set ?ks"
    unfolding select_keys by (cases ?ks) (auto split: if_splits option.splits dest: lookup_by_Some)
  then show ?thesis by simp
qed

lemma evolves_refl: "evolves K a a"
  by (simp add: evolves_def)

lemma busy_cong: "service_at j b = service_at j a \<Longrightarrow> busy j b = busy j a"
  by (simp add: busy_def flags_of_def)

lemma evolves_trans: "evolves K a b \<Longrightarrow> evolves K b c \<Longrightarrow> evolves K a c"
  unfolding evolves_def using busy_cong by metis

lemma evolves_mono: "evolves K a b \<Longrightarrow> K \<subseteq> L \<Longrightarrow> evolves L a b"
  unfolding evolves_def by blast

section \<open>The dependencies of the running services\<close>

text \<open>
  \<open>settled\<close>: the requirement is selected, and the service selected for it is the one
  \<open>select\<close> gives and is running.  \<open>wired\<close>: this is so for every requirement of every running
  service.
\<close>

definition settled :: "application \<Rightarrow> requirement \<Rightarrow> bool" where
  "settled a q =
     (case select (q_feature q) (q_implementation q) a of
        Inl e \<Rightarrow> False
      | Inr j \<Rightarrow> q_selection q = Some j \<and> isRunning (flags_of j a))"

definition wired :: "application \<Rightarrow> bool" where
  "wired a =
     list_all (\<lambda>k. isRunning (flags_of k a) \<longrightarrow> list_all (settled a) (requirements_of k a)) (keys a)"

definition requires :: "application \<Rightarrow> (service_key \<times> service_key) set" where
  "requires a =
     {(k, j). \<exists>q \<in> set (requirements_of k a). select (q_feature q) (q_implementation q) a = Inr j}"

definition running_requires :: "application \<Rightarrow> (service_key \<times> service_key) set" where
  "running_requires a = {(k, j) \<in> requires a. isRunning (flags_of k a)}"

definition sound :: "application \<Rightarrow> bool" where
  "sound a \<longleftrightarrow> wired a \<and> acyclic (running_requires a)"

lemma flags_of_unknown: "k \<notin> set (keys a) \<Longrightarrow> flags_of k a = Stopped"
  by (simp add: flags_of_def service_at_None [symmetric])

lemma wired_iff:
  "wired a \<longleftrightarrow> (\<forall>k q. isRunning (flags_of k a) \<longrightarrow> q \<in> set (requirements_of k a) \<longrightarrow> settled a q)"
proof -
  have "isRunning (flags_of k a) \<Longrightarrow> k \<in> set (keys a)" for k
    by (cases "k \<in> set (keys a)") (simp_all add: flags_of_unknown)
  then show ?thesis unfolding wired_def list_all_iff by blast
qed

lemma settled_iff:
  "settled a q \<longleftrightarrow>
     (\<exists>j. select (q_feature q) (q_implementation q) a = Inr j \<and> q_selection q = Some j
        \<and> isRunning (flags_of j a))"
  by (simp add: settled_def split: sum.split)

text \<open>Soundness only depends on the running services and on what they require.\<close>

lemma sound_cong:
  assumes s: "specs b = specs a" "a_name b = a_name a"
    and r: "\<And>k. isRunning (flags_of k b) = isRunning (flags_of k a)"
    and q: "\<And>k. isRunning (flags_of k a) \<Longrightarrow> requirements_of k b = requirements_of k a"
  shows "sound b = sound a"
proof -
  have sel: "select f i b = select f i a" for f i by (rule select_specs [OF s])
  have "settled b q = settled a q" for q 
    by (simp add: settled_def sel r split: sum.split)
  then have "wired b = wired a" unfolding wired_iff using r q by metis
  moreover have "running_requires b = running_requires a"
    unfolding running_requires_def requires_def using r q by (auto simp: sel)
  ultimately show ?thesis by (simp add: sound_def)
qed

lemma acyclic_source:
  assumes "acyclic r" "k \<notin> Range r" "k \<notin> B"
  shows "acyclic (r \<union> {k} \<times> B)"
proof -
  have "(x, y) \<in> (r \<union> {k} \<times> B)\<^sup>+ \<Longrightarrow> y \<noteq> k \<and> (x \<noteq> k \<longrightarrow> (x, y) \<in> r\<^sup>+)" for x y
    by (induction rule: trancl_induct) (use assms(2,3) in \<open>auto intro: trancl.trancl_into_trancl\<close>)
  then show ?thesis using assms(1) unfolding acyclic_def by blast
qed

text \<open>A service whose requirements are all settled may start to run.\<close>

lemma sound_run:
  assumes ok: "sound a" and k: "\<not> isRunning (flags_of k a)" "k \<in> set (keys a)"
    and q: "\<And>q. q \<in> set (requirements_of k a) \<Longrightarrow> settled a q"
    and f: "isRunning f"
  shows "sound (set_flags k f a)"
proof -
  let ?b = "set_flags k f a"
  have sel: "select g i ?b = select g i a" for g i by (rule select_specs) simp_all
  have run: "isRunning (flags_of j ?b) \<longleftrightarrow> j = k \<or> isRunning (flags_of j a)" for j
    using k f by (auto simp: flags_of_set_flags)
  have settled: "settled a q \<Longrightarrow> settled ?b q" for q by (auto simp: settled_iff sel run)
  have "wired ?b"
    unfolding wired_iff using ok q settled
    by (auto simp: run sound_def wired_iff)
  moreover have "running_requires ?b = running_requires a \<union> {k} \<times> {j. (k, j) \<in> requires a}"
    unfolding running_requires_def requires_def by (auto simp: run sel)
  moreover have "k \<notin> Range (running_requires a)"
    using ok k unfolding running_requires_def requires_def sound_def wired_iff settled_iff by force
  moreover have "k \<notin> {j. (k, j) \<in> requires a}"
    using q k unfolding requires_def settled_iff by force
  ultimately show ?thesis
    using ok acyclic_source [of "running_requires a" k] unfolding sound_def by simp
qed

lemma sound_idle:
  assumes "sound a" "\<not> isRunning (flags_of k a)" "\<not> isRunning f"
  shows "sound (set_flags k f a)"
proof -
  have "sound (set_flags k f a) = sound a"
    by (rule sound_cong) (use assms in \<open>auto simp: flags_of_set_flags\<close>)
  with assms show ?thesis by simp
qed

lemma sound_selection:
  assumes "\<not> isRunning (flags_of k a)"
  shows "sound (set_selection k i j a) = sound a"
  by (rule sound_cong) (use assms in \<open>auto simp: requirements_of_set_selection\<close>)

section \<open>Initialization returns, and keeps the application sound\<close>

definition nonstarting :: "application \<Rightarrow> nat" where
  "nonstarting a = card {j \<in> set (keys a). \<not> isStarting (flags_of j a)}"

lemma requirements_specs:
  "map wanted (requirements_of k a) = (case lookup_by fst k (specs a) of None \<Rightarrow> [] | Some p \<Rightarrow> snd p)"
  by (cases "lookup_by service_key_of k (a_services a)")
    (simp_all add: requirements_of_def service_at_def specs_def lookup_by_map del: lookup_by_None)

lemma wanted_requirements:
  "specs b = specs a \<Longrightarrow> map wanted (requirements_of k b) = map wanted (requirements_of k a)"
  by (simp add: requirements_specs)

lemma length_requirements:
  "specs b = specs a \<Longrightarrow> length (requirements_of k b) = length (requirements_of k a)"
  using wanted_requirements by (metis length_map)

lemma evolves_specs: "evolves K a b \<Longrightarrow> specs b = specs a \<and> a_name b = a_name a"
  by (simp add: evolves_def)

lemma evolves_same: "evolves K a b \<Longrightarrow> j \<notin> K \<Longrightarrow> busy j a \<Longrightarrow> service_at j b = service_at j a"
  unfolding evolves_def by blast

lemma evolves_flags: "evolves K a b \<Longrightarrow> j \<notin> K \<Longrightarrow> busy j a \<Longrightarrow> flags_of j b = flags_of j a"
  by (simp add: evolves_same flags_of_def)

lemma evolves_requirements:
  "evolves K a b \<Longrightarrow> j \<notin> K \<Longrightarrow> busy j a \<Longrightarrow> requirements_of j b = requirements_of j a"
  by (simp add: evolves_same requirements_of_def)

lemma evolves_nonstarting:
  assumes e: "evolves K a b" and K: "\<And>k. k \<in> K \<Longrightarrow> isStarting (flags_of k b)"
  shows "nonstarting b = nonstarting a"
proof -
  have bw: "isStarting (flags_of j b) \<Longrightarrow> isStarting (flags_of j a)" for j
    using e unfolding evolves_def by blast
  have "isStarting (flags_of j b) = isStarting (flags_of j a)" for j
  proof (cases "j \<in> K")
    case True
    then show ?thesis using K bw by blast
  next
    case False
    then show ?thesis using bw evolves_flags [OF e False] unfolding busy_def by metis
  qed
  moreover have "keys b = keys a" using e by (auto intro: specs_keys dest: evolves_specs)
  ultimately show ?thesis by (simp add: nonstarting_def)
qed

lemma evolves_selection: "evolves {k} a (set_selection k i j a)"
  unfolding evolves_def
  by (simp add: service_at_set_selection split_paired_All del: split_paired_All)
    (metis (mono_tags, lifting) option.map_ident_strong)

text \<open>What a recursive call is relied on to do, for an idle service.\<close>

definition call_ok ::
    "(service_key \<Rightarrow> application \<Rightarrow> 'w \<Rightarrow> 'w init_result option) \<Rightarrow> nat \<Rightarrow> bool" where
  "call_ok rec N \<longleftrightarrow>
     (\<forall>k a w. k \<in> set (keys a) \<longrightarrow> \<not> busy k a \<longrightarrow> nonstarting a \<le> N \<longrightarrow>
        (\<exists>b v r. rec k a w = Some (b, v, r) \<and> evolves {} a b \<and> (sound a \<longrightarrow> sound b) \<and>
           flags_of k b = (if is_ok r then Running else Stopped)))"

text \<open>What the loop over the requirements \<open>is\<close> of a starting service \<open>k\<close> has done.\<close>

definition loop_done ::
    "service_key \<Rightarrow> nat list \<Rightarrow> application \<Rightarrow> application \<Rightarrow> unit outcome \<Rightarrow> bool" where
  "loop_done k is a b r \<longleftrightarrow>
     evolves {k} a b \<and> flags_of k b = Starting \<and> (sound a \<longrightarrow> sound b) \<and>
     (\<forall>i. i \<notin> set is \<longrightarrow> requirements_of k b ! i = requirements_of k a ! i) \<and>
     (is_ok r \<longrightarrow> (\<forall>i \<in> set is. settled b (requirements_of k b ! i)))"

lemma loop_done_step:
  assumes a: "flags_of k a = Starting" and i: "i < length (requirements_of k a)" "i \<notin> set is"
    and sel: "select (q_feature (requirements_of k a ! i)) (q_implementation (requirements_of k a ! i)) a = Inr j"
    and e: "evolves {} (set_selection k i j a) a2"
    and s: "sound (set_selection k i j a) \<longrightarrow> sound a2"
    and run: "isRunning (flags_of j a2)"
    and rest: "loop_done k is a2 b r"
  shows "loop_done k (i # is) a b r"
proof -
  let ?a1 = "set_selection k i j a"
  have e1: "evolves {k} a ?a1" by (rule evolves_selection)
  have busy1: "busy k ?a1" by (simp add: busy_def a)
  have q2: "requirements_of k a2 = requirements_of k ?a1"
    by (rule evolves_requirements [OF e]) (simp_all add: busy1)
  have e2: "evolves {k} a a2" by (rule evolves_trans [OF e1 evolves_mono [OF e]]) simp
  have eb: "evolves {k} a b" using evolves_trans [OF e2] rest by (simp add: loop_done_def)
  have qb: "requirements_of k b ! l = requirements_of k ?a1 ! l" if "l \<notin> set is" for l
    using rest that by (simp add: loop_done_def q2)
  have "j \<noteq> k" using e busy1 run evolves_flags [OF e _ busy1] by (auto simp: a)
  then have "isRunning (flags_of j b)"
    using rest run evolves_flags [of "{k}" a2 b j] by (auto simp: loop_done_def busy_def)
  moreover have "select f g b = select f g a" for f g
    using eb by (auto simp: evolves_def intro: select_specs)
  ultimately have "settled b (requirements_of k b ! i)"
    using sel i by (simp add: qb settled_iff requirements_of_set_selection)
  moreover have "requirements_of k b ! l = requirements_of k a ! l" if "l \<notin> set (i # is)" for l
    using that by (auto simp: qb requirements_of_set_selection)
  moreover have "sound a \<longrightarrow> sound b"
    using rest s by (simp add: loop_done_def sound_selection a)
  ultimately show ?thesis using rest eb by (simp add: loop_done_def)
qed

lemma loop_done_failed:
  assumes "evolves {k} a b" "flags_of k b = Starting" "sound a \<longrightarrow> sound b"
    "\<And>i. i \<notin> set is \<Longrightarrow> requirements_of k b ! i = requirements_of k a ! i"
  shows "loop_done k is a b (Inl e)"
  using assms by (simp add: loop_done_def)

lemma loop_ok:
  assumes rec: "call_ok rec N"
  shows "flags_of k a = Starting \<Longrightarrow> nonstarting a \<le> N \<Longrightarrow> distinct is \<Longrightarrow>
     \<forall>i \<in> set is. i < length (requirements_of k a) \<Longrightarrow>
     \<exists>b v r. initialize_requirements rec k is a w = Some (b, v, r) \<and> loop_done k is a b r"
proof (induction "is" arbitrary: a w)
  case Nil
  then show ?case by (simp add: loop_done_def evolves_refl)
next
  case (Cons i "is")
  let ?q = "requirements_of k a ! i"
  have i: "i < length (requirements_of k a)" "i \<notin> set is" using Cons.prems by auto
  show ?case
  proof (cases "select (q_feature ?q) (q_implementation ?q) a")
    case (Inl e)
    with Cons.prems show ?thesis by (simp add: loop_done_def evolves_refl)
  next
    case (Inr j)
    let ?a1 = "set_selection k i j a"
    have failed: "loop_done k (i # is) a ?a1 (Inl e)" for e
      by (rule loop_done_failed)
        (use Cons.prems in \<open>simp_all add: evolves_selection sound_selection requirements_of_set_selection\<close>)
    have n1: "nonstarting ?a1 = nonstarting a"
      by (rule evolves_nonstarting [OF evolves_selection]) (simp add: Cons.prems)
    have go_on: "\<exists>b v r. initialize_requirements rec k is a2 w2 = Some (b, v, r) \<and>
        loop_done k (i # is) a b r"
      if e: "evolves {} ?a1 a2" and s: "sound ?a1 \<longrightarrow> sound a2" and run: "isRunning (flags_of j a2)"
      for a2 w2
    proof -
      have k2: "flags_of k a2 = Starting"
        using evolves_flags [OF e, of k] Cons.prems by (simp add: busy_def)
      have "nonstarting a2 \<le> N"
        using evolves_nonstarting [OF e] n1 Cons.prems by simp
      moreover have "length (requirements_of k a2) = length (requirements_of k a)"
        using length_requirements [of a2 a k] evolves_specs [OF e] by simp
      ultimately obtain b v r where "initialize_requirements rec k is a2 w2 = Some (b, v, r)"
        "loop_done k is a2 b r"
        using Cons.IH [OF k2] Cons.prems by fastforce
      with loop_done_step [OF Cons.prems(1) i Inr e s run] show ?thesis by blast
    qed
    consider "isRunning (flags_of j ?a1)" | "\<not> isRunning (flags_of j ?a1)" "isStarting (flags_of j ?a1)"
      | "\<not> busy j ?a1" by (auto simp: busy_def)
    then show ?thesis
    proof cases
      case 1
      then show ?thesis using go_on [OF evolves_refl] Inr by simp
    next
      case 2
      then show ?thesis using failed Inr by (simp add: Let_def)
    next
      case 3
      have "j \<in> set (keys ?a1)"
        using select_in_keys [OF Inr] specs_keys [of ?a1 a] by simp
      with 3 rec n1 Cons.prems obtain a2 w2 r2 where r2: "rec j ?a1 w = Some (a2, w2, r2)"
        "evolves {} ?a1 a2" "sound ?a1 \<longrightarrow> sound a2"
        "flags_of j a2 = (if is_ok r2 then Running else Stopped)"
        unfolding call_ok_def by (metis (no_types, lifting))
      show ?thesis
      proof (cases r2)
        case (Inl e)
        have "evolves {k} a a2"
          by (rule evolves_trans [OF evolves_selection evolves_mono [OF r2(2)]]) simp
        moreover have "busy k ?a1" by (simp add: busy_def Cons.prems)
        ultimately have "loop_done k (i # is) a a2 (Inl e)"
          by (intro loop_done_failed)
            (use Cons.prems r2 evolves_flags [OF r2(2), of k] evolves_requirements [OF r2(2), of k]
              in \<open>simp_all add: sound_selection requirements_of_set_selection\<close>)
        with 3 Inr Inl r2 show ?thesis by (simp add: busy_def)
      next
        case (Inr u)
        with 3 r2 go_on [OF r2(2,3)] \<open>select _ _ a = Inr j\<close> show ?thesis by (simp add: busy_def)
      qed
    qed
  qed
qed

lemma evolves_idle:
  assumes k: "\<not> busy k a" and e: "evolves {k} (set_flags k Starting a) b" and f: "\<not> isStarting f"
  shows "evolves {} a (set_flags k f b)"
proof -
  let ?a1 = "set_flags k Starting a"
  have keys: "keys b = keys a"
    using e by (metis evolves_specs specs_keys specs_set_flags)
  have other: "service_at j (set_flags k f b) = service_at j a" if "busy j a" for j
  proof -
    have "j \<noteq> k" using that k by blast
    then have "busy j ?a1" using that by (simp add: busy_def flags_of_set_flags)
    with e \<open>j \<noteq> k\<close> have "service_at j b = service_at j ?a1" by (simp add: evolves_same)
    with \<open>j \<noteq> k\<close> show ?thesis by (simp add: service_at_set_flags option.map_ident)
  qed
  have st: "isStarting (flags_of j b) \<Longrightarrow> isStarting (flags_of j ?a1)" for j
    using e unfolding evolves_def by blast
  have "isStarting (flags_of j (set_flags k f b)) \<Longrightarrow> isStarting (flags_of j a)" for j
    using st [of j] f flags_of_unknown [of k b]
    by (cases "j = k"; cases "k \<in> set (keys b)") (auto simp: flags_of_set_flags)
  with e other show ?thesis unfolding evolves_def by (metis constant_fields(1,2) specs_set_flags)
qed

lemma nonstarting_less:
  assumes "k \<in> set (keys a)" "\<not> isStarting (flags_of k a)"
  shows "nonstarting (set_flags k Starting a) < nonstarting a"
proof -
  have "keys (set_flags k Starting a) = keys a" by (rule specs_keys) simp
  then have "{j \<in> set (keys (set_flags k Starting a)). \<not> isStarting (flags_of j (set_flags k Starting a))}
      \<subset> {j \<in> set (keys a). \<not> isStarting (flags_of j a)}"
    using assms by (auto simp: flags_of_set_flags split: if_splits)
  then show ?thesis unfolding nonstarting_def by (intro psubset_card_mono) auto
qed

lemma service_initialize_ok: "call_ok (service_initialize do_initialize n) n"
proof (induction n)
  case 0
  show ?case
    unfolding call_ok_def
  proof (intro allI impI)
    fix k and a :: application and w :: 'a
    assume k: "k \<in> set (keys a)" "\<not> busy k a" "nonstarting a \<le> 0"
    then have "nonstarting (set_flags k Starting a) < 0"
      using nonstarting_less [of k a] by (simp add: busy_def)
    then show "\<exists>b v r. service_initialize do_initialize 0 k a w = Some (b, v, r) \<and> evolves {} a b \<and>
        (sound a \<longrightarrow> sound b) \<and> flags_of k b = (if is_ok r then Running else Stopped)"
      by simp
  qed
next
  case (Suc n)
  show ?case
    unfolding call_ok_def
  proof (intro allI impI)
    fix k and a :: application and w :: 'a
    assume k: "k \<in> set (keys a)" "\<not> busy k a" "nonstarting a \<le> Suc n"
    let ?a1 = "set_flags k Starting a"
    let ?rs = "requirements_of k a"
    have a1: "flags_of k ?a1 = Starting" using k by (simp add: flags_of_set_flags)
    have "nonstarting ?a1 \<le> n" using nonstarting_less [of k a] k by (simp add: busy_def)
    then obtain b v r where b: "initialize_requirements (service_initialize do_initialize n) k
          [0..<length ?rs] ?a1 w = Some (b, v, r)" and l: "loop_done k [0..<length ?rs] ?a1 b r"
      using loop_ok [OF Suc.IH a1, of "[0..<length ?rs]" w] by auto
    have e: "evolves {k} ?a1 b" and kb: "flags_of k b = Starting" using l by (simp_all add: loop_done_def)
    have keys: "k \<in> set (keys b)" using k e by (metis evolves_specs specs_keys specs_set_flags)
    have ev: "evolves {} a (set_flags k f b)" if "\<not> isStarting f" for f
      using evolves_idle [OF k(2) e] that by simp
    have sb: "sound a \<longrightarrow> sound b"
      using l k by (auto simp: loop_done_def busy_def intro: sound_idle)
    then have stop: "sound a \<longrightarrow> sound (set_flags k Stopped b)"
      by (simp add: sound_idle kb)
    have fl: "flags_of k (set_flags k f b) = f" for f using keys by (simp add: flags_of_set_flags)
    show "\<exists>b v r. service_initialize do_initialize (Suc n) k a w = Some (b, v, r) \<and> evolves {} a b \<and>
        (sound a \<longrightarrow> sound b) \<and> flags_of k b = (if is_ok r then Running else Stopped)"
    proof (cases r)
      case (Inl e)
      with b show ?thesis by (simp add: ev stop fl)
    next
      case (Inr u)
      have "length (requirements_of k b) = length ?rs"
        using length_requirements [of b ?a1 k] evolves_specs [OF e] by (simp only: requirements_of_set_flags)
      then have "\<And>q. q \<in> set (requirements_of k b) \<Longrightarrow> settled b q"
        using l Inr by (auto simp: loop_done_def in_set_conv_nth)
      then have "sound a \<longrightarrow> sound (set_flags k Running b)"
        using sb keys by (simp add: sound_run kb)
      with b Inr show ?thesis
        by (cases "do_initialize k v"; cases "snd (do_initialize k v)") (simp_all add: ev stop fl kb)
    qed
  qed
qed

section \<open>Starting all the services\<close>

declare split_paired_All [simp del] split_paired_Ex [simp del]

definition quiet :: "application \<Rightarrow> bool" where
  "quiet a \<longleftrightarrow> (\<forall>j. \<not> isStarting (flags_of j a))"

definition same_dependencies :: "application \<Rightarrow> application \<Rightarrow> bool" where
  "same_dependencies a b \<longleftrightarrow>
     specs b = specs a \<and> a_name b = a_name a \<and> a_flags b = a_flags a \<and>
     (\<forall>j. flags_of j b = flags_of j a \<and> requirements_of j b = requirements_of j a)"

lemma same_selection:
  assumes "i < length (requirements_of k a)" "q_selection (requirements_of k a ! i) = Some j"
  shows "same_dependencies a (set_selection k i j a)"
proof -
  have "(requirements_of k a ! i)\<lparr>q_selection := Some j\<rparr> = requirements_of k a ! i"
    using assms(2) by (cases "requirements_of k a ! i") simp
  then show ?thesis
    by (simp add: same_dependencies_def requirements_of_set_selection)
qed

lemma same_dependencies_trans:
  "same_dependencies a b \<Longrightarrow> same_dependencies b c \<Longrightarrow> same_dependencies a c"
  by (simp add: same_dependencies_def)

lemma loop_settled:
  assumes "\<forall>i \<in> set is. i < length (requirements_of k a) \<and> settled a (requirements_of k a ! i)"
  shows "\<exists>b. initialize_requirements rec k is a w = Some (b, w, Inr ()) \<and> same_dependencies a b"
  using assms
proof (induction "is" arbitrary: a)
  case Nil
  then show ?case by (simp add: same_dependencies_def)
next
  case (Cons i "is")
  let ?q = "requirements_of k a ! i"
  obtain j where j: "select (q_feature ?q) (q_implementation ?q) a = Inr j" "q_selection ?q = Some j"
    "isRunning (flags_of j a)" using Cons.prems by (auto simp: settled_iff)
  let ?a1 = "set_selection k i j a"
  have s: "same_dependencies a ?a1" by (rule same_selection) (use Cons.prems j in auto)
  have "settled ?a1 q = settled a q" for q
    using s select_specs [of ?a1 a] by (simp add: same_dependencies_def settled_iff)
  then obtain b where "initialize_requirements rec k is ?a1 w = Some (b, w, Inr ())"
    "same_dependencies ?a1 b"
    using Cons.IH [of ?a1] Cons.prems s by (auto simp: same_dependencies_def)
  with j show ?case by (auto intro: same_dependencies_trans [OF s])
qed

text \<open>Initializing a running service again calls \<open>do_initialize\<close> again, and nothing else.\<close>

lemma reinitialize:
  assumes "sound a" "isRunning (flags_of k a)"
  shows "\<exists>b. same_dependencies (set_flags k Starting a) b \<and>
     service_initialize do_initialize (Suc n) k a w =
       (case do_initialize k w of
          (v, None) \<Rightarrow> Some (set_flags k Running b, v, Inr ())
        | (v, Some t) \<Rightarrow> Some (set_flags k Stopped b, v, Inl (RuntimeException t)))"
proof -
  let ?a1 = "set_flags k Starting a"
  have k: "k \<in> set (keys a)" using assms flags_of_unknown by (cases "k \<in> set (keys a)") auto
  have "settled ?a1 q" if q: "q \<in> set (requirements_of k a)" for q
  proof -
    obtain j where j: "select (q_feature q) (q_implementation q) a = Inr j" "q_selection q = Some j"
      "isRunning (flags_of j a)" using assms q unfolding sound_def wired_iff settled_iff by blast
    have "(k, j) \<in> running_requires a"
      using j q assms by (auto simp: running_requires_def requires_def)
    then have "j \<noteq> k" using assms unfolding sound_def acyclic_def by blast
    with j show ?thesis
      using select_specs [of ?a1 a] by (simp add: settled_iff flags_of_set_flags)
  qed
  then obtain b where b: "initialize_requirements (service_initialize do_initialize n) k
      [0..<length (requirements_of k a)] ?a1 w = Some (b, w, Inr ())" "same_dependencies ?a1 b"
    using loop_settled [of "[0..<length (requirements_of k a)]" k ?a1
      "service_initialize do_initialize n" w] by auto
  then have "flags_of k b = Starting" using k by (simp add: same_dependencies_def flags_of_set_flags)
  with b show ?thesis
    by (intro exI [of _ b]) (simp split: prod.split option.split)
qed

definition start_done :: "application \<Rightarrow> application \<Rightarrow> service_key set \<Rightarrow> unit outcome \<Rightarrow> bool" where
  "start_done a b K r \<longleftrightarrow>
     specs b = specs a \<and> quiet b \<and>
     (is_ok r \<longrightarrow> sound b \<and> (\<forall>j. isRunning (flags_of j a) \<or> j \<in> K \<longrightarrow> isRunning (flags_of j b)))"

lemma initialize_step:
  assumes a: "sound a" "quiet a" "k \<in> set (keys a)"
  shows "\<exists>b v r. service_initialize do_initialize (init_fuel a) k a w = Some (b, v, r) \<and>
     start_done a b {k} r"
proof (cases "isRunning (flags_of k a)")
  case True
  obtain n where "init_fuel a = Suc n"
    using a(3) by (cases "init_fuel a") (auto simp: init_fuel_def keys_def)
  moreover obtain b where b: "same_dependencies (set_flags k Starting a) b"
    "service_initialize do_initialize (Suc n) k a w =
       (case do_initialize k w of
          (v, None) \<Rightarrow> Some (set_flags k Running b, v, Inr ())
        | (v, Some t) \<Rightarrow> Some (set_flags k Stopped b, v, Inl (RuntimeException t)))"
    using reinitialize [OF a(1) True, of do_initialize n w] by (elim exE conjE) (rule that)
  moreover have kb: "k \<in> set (keys b)"
    using b(1) a(3) by (metis same_dependencies_def specs_keys specs_set_flags)
  have fl: "flags_of j (set_flags k f b) = (if j = k then f else flags_of j a)" for j f
    using b(1) kb by (simp add: same_dependencies_def flags_of_set_flags)
  have "sound (set_flags k Running b) = sound a"
    by (rule sound_cong) (use b(1) True in \<open>auto simp: fl same_dependencies_def\<close>)
  moreover have "quiet (set_flags k f b)" if "\<not> isStarting f" for f
    using that a(2) by (simp add: quiet_def fl)
  ultimately show ?thesis
    using a(1) True b(1)
    by (cases "do_initialize k w"; cases "snd (do_initialize k w)")
      (simp_all add: start_done_def fl same_dependencies_def)
next
  case False
  have "nonstarting a \<le> card (set (keys a))"
    unfolding nonstarting_def by (rule card_mono) auto
  also have "\<dots> \<le> init_fuel a" by (metis card_length init_fuel_def keys_def length_map)
  finally obtain b v r where b: "service_initialize do_initialize (init_fuel a) k a w = Some (b, v, r)"
    "evolves {} a b" "sound a \<longrightarrow> sound b" "flags_of k b = (if is_ok r then Running else Stopped)"
    using service_initialize_ok [of do_initialize "init_fuel a"] a False
    unfolding call_ok_def busy_def quiet_def by meson
  have "quiet b" using a(2) b(2) unfolding quiet_def evolves_def by blast
  moreover have "isRunning (flags_of j b)" if "isRunning (flags_of j a)" for j
    using evolves_flags [OF b(2), of j] that by (simp add: busy_def)
  ultimately have "start_done a b {k} r"
    using b a(1) evolves_specs [OF b(2)] by (auto simp: start_done_def)
  with b(1) show ?thesis by blast
qed

lemma start_services_done:
  "sound a \<Longrightarrow> quiet a \<Longrightarrow> set ks \<subseteq> set (keys a) \<Longrightarrow>
   \<exists>b v r. start_services do_initialize ks a w = Some (b, v, r) \<and> start_done a b (set ks) r"
proof (induction ks arbitrary: a w)
  case Nil
  then show ?case by (simp add: start_done_def)
next
  case (Cons k ks)
  then have "k \<in> set (keys a)" by simp
  from initialize_step [OF Cons.prems(1,2) this, of do_initialize w]
  obtain b v r where b: "service_initialize do_initialize (init_fuel a) k a w = Some (b, v, r)"
    "start_done a b {k} r" by blast
  show ?case
  proof (cases r)
    case (Inl e)
    with b show ?thesis by (simp add: start_done_def)
  next
    case (Inr u)
    with b(2) have b2: "sound b" "quiet b" "specs b = specs a"
      "\<And>j. isRunning (flags_of j a) \<or> j = k \<Longrightarrow> isRunning (flags_of j b)"
      by (auto simp: start_done_def)
    then have "set ks \<subseteq> set (keys b)" using Cons.prems specs_keys [of b a] by simp
    then obtain c v2 r2 where "start_services do_initialize ks b v = Some (c, v2, r2)"
      "start_done b c (set ks) r2" using Cons.IH [OF b2(1,2)] by blast
    with b(1) Inr b2 show ?thesis by (auto simp: start_done_def)
  qed
qed

section \<open>The services as a container\<close>

lemma mset_multimap_insert: "mset (multimap_insert s ss) = add_mset s (mset ss)"
  by (induction ss) auto

lemma set_multimap_insert [simp]: "set (multimap_insert s ss) = insert s (set ss)"
  by (induction ss) auto

lemma sorted_multimap_insert:
  "sorted (map s_feature ss) \<Longrightarrow> sorted (map s_feature (multimap_insert s ss))"
  by (induction ss) auto

lemma multimap_put_None: "multimap_put s a = None \<longleftrightarrow> service_key_of s \<in> service_key_of ` set (a_services a)"
proof -
  have "multimap_put s a = None \<longleftrightarrow>
      lookup_by s_implementation (s_implementation s) (equal_range (s_feature s) a) \<noteq> None"
    by (cases "lookup_by s_implementation (s_implementation s) (equal_range (s_feature s) a)")
      (simp_all add: multimap_put_def del: lookup_by_None)
  then show ?thesis
    unfolding lookup_by_None equal_range_def service_key_of_def by (simp add: image_iff) metis
qed

lemma multimap_put_Some:
  "multimap_put s a = Some b \<Longrightarrow> b = a\<lparr>a_services := multimap_insert s (a_services a)\<rparr>"
  by (auto simp: multimap_put_def split: option.splits)

interpretation services: open_registry a_services service_key_of multimap_put service_at
proof unfold_locales
  show "multimap_put s a = Some b \<Longrightarrow> service_key_of s \<notin> service_key_of ` set (a_services a)" for s a b
  proof -
    assume "multimap_put s a = Some b"
    then have "multimap_put s a \<noteq> None" by simp
    then show ?thesis unfolding multimap_put_None .
  qed
  show "multimap_put s a = Some b \<Longrightarrow> mset (a_services b) = add_mset s (mset (a_services a))" for s a b
    by (drule multimap_put_Some) (simp add: mset_multimap_insert)
  show "service_at k a = Some s \<Longrightarrow> s \<in> set (a_services a) \<and> service_key_of s = k" for k a s
    unfolding service_at_def by (rule lookup_by_Some)
  show "service_at k a = None \<Longrightarrow> k \<notin> service_key_of ` set (a_services a)" for k a
    by (simp add: service_at_def)
  show "service_key_of s \<notin> service_key_of ` set (a_services a) \<Longrightarrow> multimap_put s a \<noteq> None" for s a
    by (simp add: multimap_put_None)
qed

text \<open>
  Attaching a service to an application that is not running succeeds exactly when no
  service with its feature and implementation is attached; the services keep different
  keys and their order by feature, and afterwards the service is found under its key and
  every other service is found as before.
\<close>

theorem attach_registers:
  assumes "distinct_keys service_key_of (a_services a)" "sorted (map s_feature (a_services a))"
    and "\<not> isRunning (a_flags a)"
  shows "\<exists>b. attach do_initialize (Some s) a w = Some (b, w, Inr (service_at (service_key_of s) a = None)) \<and>
     distinct_keys service_key_of (a_services b) \<and> sorted (map s_feature (a_services b)) \<and>
     service_at (service_key_of s) b =
       (case service_at (service_key_of s) a of None \<Rightarrow> Some s | Some t \<Rightarrow> Some t) \<and>
     (\<forall>k. k \<noteq> service_key_of s \<longrightarrow> service_at k b = service_at k a)"
proof (cases "multimap_put s a")
  case None
  then obtain t where "service_at (service_key_of s) a = Some t"
    using services.put_iff_look [of s a] by auto
  with None assms show ?thesis by (simp add: attach_def)
next
  case (Some b)
  then have b: "b = a\<lparr>a_services := multimap_insert s (a_services a)\<rparr>" by (rule multimap_put_Some)
  have "service_at (service_key_of s) a = None"
    using Some services.put_iff_look [of s a] by auto
  moreover have "attach do_initialize (Some s) a w = Some (b, w, Inr True)"
    using Some assms(3) b by (simp add: attach_def)
  ultimately show ?thesis
    using services.put_keys_ok [OF Some assms(1)] services.look_put_same [OF Some assms(1)]
      services.look_put_other [OF Some assms(1)] sorted_multimap_insert [OF assms(2)] b
    by (intro exI [of _ b]) simp
qed

definition sample_application :: application where
  "sample_application =
     \<lparr>a_name = ''app'', a_flags = Stopped, a_services =
        [(service_new Database ''sqlite'')\<lparr>s_requirements :=
            [\<lparr>q_feature = Timing, q_implementation = ''*'', q_selection = None\<rparr>]\<rparr>,
         service_new Timing ''wheel'']\<rparr>"

lemmas sample_simps = sample_application_def service_new_def service_key_of_def distinct_keys_def

theorem attach_registers_witness:
  "\<exists>b. attach (\<lambda>k w. (w, None)) (Some (service_new Networking ''http'')) sample_application (0 :: nat)
     = Some (b, 0, Inr True)"
proof -
  have "service_at (service_key_of (service_new Networking ''http'')) sample_application = None"
    by (simp add: sample_simps service_at_def)
  then show ?thesis
    using attach_registers [of sample_application "\<lambda>k w. (w, None)" "service_new Networking ''http''" "0 :: nat"]
    by (auto simp: sample_simps less_eq_feature_def)
qed

section \<open>The properties of the start and of the stop\<close>

text \<open>
  C5: \<open>initialize\<close> always returns, whatever cycles the requirements have: with as much fuel
  as there are services, initializing an attached service that is neither running nor
  starting returns; the service is then running, or stopped when it threw; services that
  were running or starting are left untouched, and no service is left starting that was not.
\<close>

theorem initialize_returns:
  assumes "k \<in> set (keys a)" "\<not> busy k a"
  shows "\<exists>b v r. service_initialize do_initialize (init_fuel a) k a w = Some (b, v, r) \<and>
     flags_of k b = (if is_ok r then Running else Stopped) \<and>
     (\<forall>j. busy j a \<longrightarrow> service_at j b = service_at j a) \<and>
     (\<forall>j. isStarting (flags_of j b) \<longrightarrow> isStarting (flags_of j a))"
proof -
  have "nonstarting a \<le> card (set (keys a))"
    unfolding nonstarting_def by (rule card_mono) auto
  also have "\<dots> \<le> init_fuel a" by (metis card_length init_fuel_def keys_def length_map)
  finally obtain b v r where b: "service_initialize do_initialize (init_fuel a) k a w = Some (b, v, r)"
    "evolves {} a b" "flags_of k b = (if is_ok r then Running else Stopped)"
    using service_initialize_ok [of do_initialize "init_fuel a"] assms
    unfolding call_ok_def by meson
  then have "\<forall>j. busy j a \<longrightarrow> service_at j b = service_at j a"
    "\<forall>j. isStarting (flags_of j b) \<longrightarrow> isStarting (flags_of j a)"
    unfolding evolves_def by blast+
  with b show ?thesis by blast
qed

theorem initialize_returns_witness:
  "\<exists>b v r. service_initialize (\<lambda>k w. (w, None)) (init_fuel sample_application) (Database, ''sqlite'')
      sample_application (0 :: nat) = Some (b, v, r)"
  using initialize_returns [of "(Database, ''sqlite'')" sample_application "\<lambda>k w. (w, None)" "0 :: nat"]
  by (auto simp: sample_simps keys_def busy_def flags_of_def service_at_def)

lemma flags_of_member:
  "distinct_keys service_key_of (a_services a) \<Longrightarrow> s \<in> set (a_services a) \<Longrightarrow>
   flags_of (service_key_of s) a = s_flags s"
  by (simp add: flags_of_def service_at_def lookup_by_in)

lemma distinct_specs:
  "specs b = specs a \<Longrightarrow> distinct_keys service_key_of (a_services b) = distinct_keys service_key_of (a_services a)"
  by (metis distinct_keys_def keys_def specs_keys)

text \<open>
  C3: Starting the services of a stopped application always returns.  When it succeeds,
  every service is running, every requirement of every service is selected as \<open>select\<close>
  prescribes and its service is running, and the requirements have no cycle.
\<close>

theorem startServices_sound:
  assumes "distinct_keys service_key_of (a_services a)"
    and "list_all (\<lambda>s. s_flags s = Stopped) (a_services a)"
  shows "\<exists>b v r. startServices do_initialize a w = Some (b, v, r) \<and> specs b = specs a \<and>
     (is_ok r \<longrightarrow> list_all (\<lambda>s. isRunning (s_flags s)) (a_services b) \<and> wired b \<and> acyclic (requires b))"
proof -
  have "flags_of k a = Stopped" for k
    using assms(2) by (auto simp: flags_of_def service_at_def list_all_iff split: option.split dest: lookup_by_Some)
  then have "sound a" "quiet a"
    by (simp_all add: sound_def wired_iff running_requires_def quiet_def acyclic_def)
  then obtain b v r where b: "startServices do_initialize a w = Some (b, v, r)"
    "start_done a b (set (keys a)) r"
    using start_services_done [of a "keys a" do_initialize w] unfolding startServices_def keys_def by blast
  have "list_all (\<lambda>s. isRunning (s_flags s)) (a_services b) \<and> wired b \<and> acyclic (requires b)" if "is_ok r"
  proof -
    have k: "keys b = keys a" and so: "sound b" and run: "\<And>j. j \<in> set (keys b) \<Longrightarrow> isRunning (flags_of j b)"
      using b(2) that specs_keys [of b a] by (simp_all add: start_done_def)
    have "distinct_keys service_key_of (a_services b)"
      using b(2) assms(1) distinct_specs [of b a] by (simp add: start_done_def)
    then have "list_all (\<lambda>s. isRunning (s_flags s)) (a_services b)"
      using run flags_of_member [of b] unfolding list_all_iff keys_def by (metis image_eqI image_set)
    moreover have "fst p \<in> set (keys b)" if "p \<in> requires b" for p
    proof (rule ccontr)
      assume "fst p \<notin> set (keys b)"
      then have "service_at (fst p) b = None" by (simp add: service_at_None)
      with that show False by (auto simp: requires_def requirements_of_def)
    qed
    then have "requires b = running_requires b"
      using run by (force simp: running_requires_def)
    ultimately show ?thesis using so by (simp add: sound_def)
  qed
  with b show ?thesis by (auto simp: start_done_def)
qed

theorem startServices_sound_witness:
  "\<exists>b v r. startServices (\<lambda>k w. (w, None)) sample_application (0 :: nat) = Some (b, v, r) \<and>
     specs b = specs sample_application"
  using startServices_sound [of sample_application "\<lambda>k w. (w, None)" "0 :: nat"]
  by (auto simp: sample_simps)

text \<open>
  A service required by a service of an earlier feature is initialized twice: once
  through the requirement and once more by the loop of \<open>startServices\<close>, which does not look
  whether the service is running already.
\<close>

theorem required_service_initialized_twice:
  "map_option (\<lambda>(b, log, r). (map s_flags (a_services b), log, r))
     (startServices (\<lambda>k log. (log @ [key_name k], None)) sample_application [])
   = Some ([Running, Running], [''Timing:wheel'', ''Database:sqlite'', ''Timing:wheel''], Inr ())"
  by (simp add: startServices_def sample_simps init_fuel_def select_def equal_range_def
      requirements_of_def service_at_def flags_of_def set_flags_def set_selection_def
      update_service_def WhateverImplementation_def key_name_def)

section \<open>Stopping\<close>

definition stop_fails :: "(service_key \<Rightarrow> 'w \<Rightarrow> 'w \<times> string option) \<Rightarrow> service \<Rightarrow> 'w \<Rightarrow> bool" where
  "stop_fails svc_stop s w = (\<not> isStopped (s_flags s) \<and> snd (svc_stop (service_key_of s) w) \<noteq> None)"

text \<open>The world before each service is asked to stop.\<close>

fun stop_worlds :: "(service_key \<Rightarrow> 'w \<Rightarrow> 'w \<times> string option) \<Rightarrow> service list \<Rightarrow> 'w \<Rightarrow> (service \<times> 'w) list" where
  "stop_worlds svc_stop [] w = []"
| "stop_worlds svc_stop (s # ss) w =
     (s, w) # stop_worlds svc_stop ss
       (if isStopped (s_flags s) then w else fst (svc_stop (service_key_of s) w))"

lemma stop_services_result:
  "stop_services svc_stop ss w = (ts, v, names) \<Longrightarrow>
     list_all (\<lambda>s. isStopped (s_flags s)) ts \<and>
     map service_key_of ts = map service_key_of ss \<and>
     names = map (service_name \<circ> fst) (filter (\<lambda>(s, w). stop_fails svc_stop s w) (stop_worlds svc_stop ss w))"
proof (induction ss arbitrary: w ts v names)
  case Nil
  then show ?case by simp
next
  case (Cons s ss)
  obtain ts1 v1 names1 where r: "stop_services svc_stop ss
      (if isStopped (s_flags s) then w else fst (svc_stop (service_key_of s) w)) = (ts1, v1, names1)"
    by (metis prod_cases3)
  show ?case
    using Cons.prems Cons.IH [OF r] r
    by (cases "svc_stop (service_key_of s) w"; cases "snd (svc_stop (service_key_of s) w)")
      (auto simp: runnable_stop_def stop_fails_def service_key_of_def split: if_splits)
qed

text \<open>
  C16: Stopping an application that is not stopped asks every service once, and goes on after
  a service that throws: afterwards the application and all its services are stopped.  It
  throws exactly when some service that was not stopped throws, and the text names those
  services in order.
\<close>

theorem stop_stops_every_service:
  assumes "\<not> isStopped (a_flags a)"
  shows "\<exists>b v r. application_stop svc_stop a w = (b, v, r) \<and> isStopped (a_flags b) \<and>
     list_all (\<lambda>s. isStopped (s_flags s)) (a_services b) \<and> keys b = keys a \<and>
     (let failed = map (service_name \<circ> fst)
            (filter (\<lambda>(s, w). stop_fails svc_stop s w) (stop_worlds svc_stop (a_services a) w)) in
      r = (if failed = [] then Inr True
           else Inl (RuntimeException (''Some services do not accept the request stop { ''
                  @ concat (map (\<lambda>n. n @ '' '') failed) @ ''}''))))"
proof -
  obtain ts v names where s: "stop_services svc_stop (a_services a) w = (ts, v, names)"
    by (metis prod_cases3)
  note res = stop_services_result [OF s]
  show ?thesis
    using assms res s
    by (auto simp: application_stop_def application_do_stop_def runnable_stop_def keys_def Let_def)
qed

theorem stop_stops_every_service_witness:
  "\<exists>b v r. application_stop (\<lambda>k w. (w, Some ''busy''))
     (sample_application\<lparr>a_flags := Running, a_services := [(service_new Timing ''wheel'')\<lparr>s_flags := Running\<rparr>]\<rparr>)
     (0 :: nat) = (b, v, r) \<and>
     r = Inl (RuntimeException ''Some services do not accept the request stop { Timing:wheel }'')"
  using stop_stops_every_service [of "sample_application\<lparr>a_flags := Running,
      a_services := [(service_new Timing ''wheel'')\<lparr>s_flags := Running\<rparr>]\<rparr>" "\<lambda>k w. (w, Some ''busy'')" "0 :: nat"]
  by (auto simp: sample_simps stop_fails_def service_name_def key_name_def)

end
