(* ===== verification/Logging.thy ===== *)
theory Logging
  imports Basis
begin

text \<open>
  \<open>logger\<close>: the levels, the logger with its writers, and the writers on files: unlimited,
  circular (a file that is renamed when it grows too long) and backtrace (lines that are
  kept until an error occurs).

  The file system is the part of the world the writers act on: the contents of the files by
  path, and which calls on which paths the operating system refuses.  A stream is open on
  the path of its writer.  Streams are non-blocking descriptors of regular files, so
  \<open>write\<close> writes the whole block.
\<close>

section \<open>Levels\<close>

datatype level =
    LevelNone | Emergency | Alert | Critical | Error | Warning | Notice | Information | Debug
  | Local0 | Local1 | Local2 | Local3 | Local4 | Local5 | Local6 | Local7

definition levels :: "level list" where
  "levels = [LevelNone, Emergency, Alert, Critical, Error, Warning, Notice, Information, Debug,
     Local0, Local1, Local2, Local3, Local4, Local5, Local6, Local7]"

fun level_value :: "level \<Rightarrow> int" where
  "level_value LevelNone = -1"
| "level_value Emergency = 0"
| "level_value Alert = 1"
| "level_value Critical = 2"
| "level_value Error = 3"
| "level_value Warning = 4"
| "level_value Notice = 5"
| "level_value Information = 6"
| "level_value Debug = 7"
| "level_value Local0 = 8"
| "level_value Local1 = 9"
| "level_value Local2 = 10"
| "level_value Local3 = 11"
| "level_value Local4 = 12"
| "level_value Local5 = 13"
| "level_value Local6 = 14"
| "level_value Local7 = 15"

lemma level_value_inj: "level_value a = level_value b \<Longrightarrow> a = b"
  by (cases a; cases b) simp_all

instantiation level :: linorder
begin

definition less_eq_level :: "level \<Rightarrow> level \<Rightarrow> bool" where
  "less_eq_level a b = (level_value a \<le> level_value b)"

definition less_level :: "level \<Rightarrow> level \<Rightarrow> bool" where
  "less_level a b = (level_value a < level_value b)"

instance
  by standard (auto simp: less_eq_level_def less_level_def intro: level_value_inj)

end

fun enumName :: "level \<Rightarrow> string" where
  "enumName LevelNone = ''None''"
| "enumName Emergency = ''Emergency''"
| "enumName Alert = ''Alert''"
| "enumName Critical = ''Critical''"
| "enumName Error = ''Error''"
| "enumName Warning = ''Warning''"
| "enumName Notice = ''Notice''"
| "enumName Information = ''Information''"
| "enumName Debug = ''Debug''"
| "enumName Local0 = ''Local0''"
| "enumName Local1 = ''Local1''"
| "enumName Local2 = ''Local2''"
| "enumName Local3 = ''Local3''"
| "enumName Local4 = ''Local4''"
| "enumName Local5 = ''Local5''"
| "enumName Local6 = ''Local6''"
| "enumName Local7 = ''Local7''"

text \<open>\<open>(Level::_v) n\<close> for a number that is the value of a level.\<close>

definition level_of :: "int \<Rightarrow> level" where
  "level_of n = levels ! nat (n + 1)"

definition isActive :: "level \<Rightarrow> level \<Rightarrow> bool" where
  "isActive current level = (if level \<le> Error then True else level \<le> current)"

text \<open>\<open>Application::signalUSR2\<close>: the new level, and the line written about it.\<close>

definition signalUSR2 :: "level \<Rightarrow> level \<times> string" where
  "signalUSR2 original =
     (let currentLevel = level_value original + 1;
          level = level_of (if currentLevel > level_value Debug then level_value Error else currentLevel) in
      (level, ''Do not worry about level of this line | Original level: '' @ enumName original
         @ '' | Current level: '' @ enumName level))"

lemma level_of_value [simp]: "level_of (level_value l) = l"
  by (cases l) (simp_all add: level_of_def levels_def)

lemma signalUSR2_range:
  "original \<le> Debug \<Longrightarrow> fst (signalUSR2 original) \<le> Debug"
  "Error \<le> original \<Longrightarrow> Error \<le> fst (signalUSR2 original)"
  by (cases original; simp add: signalUSR2_def level_of_def levels_def less_eq_level_def)+

section \<open>Formatting\<close>

text \<open>
  The text of the current time and the identifier of the thread come from the system;
  \<open>None\<close> is a time that cannot be formatted.
\<close>

definition default_format ::
    "string option \<Rightarrow> clong \<Rightarrow> level \<Rightarrow> string \<Rightarrow> string \<Rightarrow> string \<Rightarrow> cuint \<Rightarrow> string" where
  "default_format now thr level comment methodName file lineno =
     (case now of None \<Rightarrow> '''' | Some t \<Rightarrow> ''['' @ t @ ''] '')
     @ ''[thr='' @ as_hex_int64 thr @ ''] '' @ enumName level @ '' | ''
     @ methodName @ '' ['' @ file @ ''('' @ as_string_uint lineno @ '')]: '' @ comment"

definition removePathBeforeCoffee :: "string \<Rightarrow> string" where
  "removePathBeforeCoffee path =
     (case find_str path ''/coffee/'' 0 of None \<Rightarrow> path | Some i \<Rightarrow> drop (i + 1) path)"

section \<open>Writers on files\<close>

record log_world =
  files :: "string \<Rightarrow> string option"
  refuses_open :: "string \<Rightarrow> bool"
  refuses_stat :: "string \<Rightarrow> bool"
  refuses_rename :: "string \<Rightarrow> bool"
  strerror :: string
  cout :: "string list"
  cerr :: "string list"
  syslog :: "(level \<times> string) list"

record circular_writer =
  c_path :: string
  c_maxSize :: culong
  c_stream :: bool
  c_lineno :: culong
  c_loops :: cuint

definition MinimalKbSize :: culong where "MinimalKbSize = 256"
definition CheckSizePeriod :: culong where "CheckSizePeriod = 128"

definition circular_new :: "string \<Rightarrow> culong \<Rightarrow> circular_writer" where
  "circular_new path maxKbSize =
     \<lparr>c_path = path, c_maxSize = max MinimalKbSize maxKbSize * 1024, c_stream = False,
      c_lineno = 0, c_loops = 0\<rparr>"

definition content :: "string \<Rightarrow> log_world \<Rightarrow> string" where
  "content path w = (case files w path of None \<Rightarrow> '''' | Some c \<Rightarrow> c)"

definition append_file :: "string \<Rightarrow> string \<Rightarrow> log_world \<Rightarrow> log_world" where
  "append_file path c w = w\<lparr>files := (files w)(path := Some (content path w @ c))\<rparr>"

definition openStream ::
    "circular_writer \<Rightarrow> log_world \<Rightarrow> circular_writer \<times> log_world \<times> unit outcome" where
  "openStream c w =
     (if refuses_open w (c_path c)
      then (c, w, Inl (RuntimeException (''Can not open file: '' @ c_path c @ ''. Error: '' @ strerror w)))
      else (c\<lparr>c_stream := True\<rparr>, append_file (c_path c) [] w, Inr ()))"

definition oversizedStream :: "circular_writer \<Rightarrow> log_world \<Rightarrow> bool outcome" where
  "oversizedStream c w =
     (if \<not> c_stream c then Inr False
      else if refuses_stat w (c_path c)
      then Inl (RuntimeException (''Can not get file length: '' @ c_path c @ ''. Error: '' @ strerror w))
      else Inr (length (content (c_path c) w) > unat (c_maxSize c)))"

definition closeStream :: "circular_writer \<Rightarrow> circular_writer" where
  "closeStream c = c\<lparr>c_stream := False\<rparr>"

definition old_path :: "string \<Rightarrow> string" where
  "old_path path = path @ ''.old''"

definition renameFile :: "circular_writer \<Rightarrow> log_world \<Rightarrow> log_world \<times> unit outcome" where
  "renameFile c w =
     (if refuses_rename w (c_path c)
      then (w\<lparr>files := (files w)(c_path c := Some [])\<rparr>,
            Inl (RuntimeException (''Could not rename: '' @ c_path c @ ''. Error: '' @ strerror w)))
      else (w\<lparr>files := (files w)(old_path (c_path c) := files w (c_path c), c_path c := None)\<rparr>, Inr ()))"

text \<open>The four calls \<open>initialize\<close> and \<open>apply\<close> share.\<close>

definition check_size ::
    "circular_writer \<Rightarrow> log_world \<Rightarrow> circular_writer \<times> log_world \<times> unit outcome" where
  "check_size c w =
     (case oversizedStream c w of
        Inl e \<Rightarrow> (c, w, Inl e)
      | Inr False \<Rightarrow> (c, w, Inr ())
      | Inr True \<Rightarrow>
          (case renameFile (closeStream c) w of
             (w1, Inl e) \<Rightarrow> (closeStream c, w1, Inl e)
           | (w1, Inr u) \<Rightarrow>
               (case openStream (closeStream c) w1 of
                  (c2, w2, Inl e) \<Rightarrow> (c2, w2, Inl e)
                | (c2, w2, Inr v) \<Rightarrow> (c2\<lparr>c_loops := c_loops c2 + 1\<rparr>, w2, Inr ()))))"

definition circular_initialize ::
    "circular_writer \<Rightarrow> log_world \<Rightarrow> circular_writer \<times> log_world \<times> unit outcome" where
  "circular_initialize c w =
     (case openStream c w of
        (c1, w1, Inl e) \<Rightarrow> (c1, w1, Inl e)
      | (c1, w1, Inr u) \<Rightarrow> check_size c1 w1)"

definition circular_apply ::
    "level \<Rightarrow> string \<Rightarrow> circular_writer \<Rightarrow> log_world \<Rightarrow> circular_writer \<times> log_world" where
  "circular_apply level line c w =
     (if \<not> c_stream c
      then if level \<le> Error
           then (c\<lparr>c_lineno := c_lineno c + 1\<rparr>, w\<lparr>cerr := cerr w @ [line]\<rparr>)
           else (c, w)
      else let w1 = append_file (c_path c) (line @ [LF]) w;
               c1 = c\<lparr>c_lineno := c_lineno c + 1\<rparr> in
           if c_lineno c1 mod CheckSizePeriod \<noteq> 0 then (c1, w1)
           else case check_size c1 w1 of
                  (c2, w2, Inl e) \<Rightarrow> (c2, w2\<lparr>cerr := cerr w2 @ [what e]\<rparr>)
                | (c2, w2, Inr u) \<Rightarrow> (c2, w2))"

definition circular_wants :: "level \<Rightarrow> circular_writer \<Rightarrow> level \<Rightarrow> bool" where
  "circular_wants current c level = (if c_stream c then isActive current level else level \<le> Error)"

section \<open>The other writers\<close>

record unlimited_writer =
  u_path :: string
  u_stream :: bool

definition unlimited_initialize ::
    "unlimited_writer \<Rightarrow> log_world \<Rightarrow> unlimited_writer \<times> log_world \<times> unit outcome" where
  "unlimited_initialize u w =
     (if refuses_open w (u_path u)
      then (u, w, Inl (RuntimeException (''Can not open file: '' @ u_path u @ ''. Error: '' @ strerror w)))
      else (u\<lparr>u_stream := True\<rparr>, append_file (u_path u) [] w, Inr ()))"

definition unlimited_apply :: "level \<Rightarrow> string \<Rightarrow> unlimited_writer \<Rightarrow> log_world \<Rightarrow> log_world" where
  "unlimited_apply level line u w =
     (if \<not> u_stream u
      then if level \<le> Error then w\<lparr>cerr := cerr w @ [line]\<rparr> else w
      else append_file (u_path u) (line @ [LF]) w)"

definition unlimited_wants :: "level \<Rightarrow> unlimited_writer \<Rightarrow> level \<Rightarrow> bool" where
  "unlimited_wants current u level = (if u_stream u then isActive current level else level \<le> Error)"

definition tty_apply :: "string \<Rightarrow> log_world \<Rightarrow> log_world" where
  "tty_apply line w = w\<lparr>cout := cout w @ [line]\<rparr>"

definition syslog_apply :: "level \<Rightarrow> string \<Rightarrow> log_world \<Rightarrow> log_world" where
  "syslog_apply level line w = w\<lparr>syslog := syslog w @ [(level, c_str line)]\<rparr>"

text \<open>
  \<open>SysLogWriter::OptionBuilder\<close> adds the options of \<open>syslog.h\<close> to each other.
\<close>

datatype syslog_option = ShowPid | ConsoleWhenError | DelayOpen | NoDelayOpen | LogToStdErr

fun syslog_value :: "syslog_option \<Rightarrow> cint" where
  "syslog_value ShowPid = 1"
| "syslog_value ConsoleWhenError = 2"
| "syslog_value DelayOpen = 4"
| "syslog_value NoDelayOpen = 8"
| "syslog_value LogToStdErr = 32"

definition build_options :: "syslog_option list \<Rightarrow> cint" where
  "build_options opts = fold (\<lambda>opt flags. flags + syslog_value opt) opts 0"

lemma option_repeated: "build_options [ShowPid, ShowPid] = build_options [ConsoleWhenError]"
  by (simp add: build_options_def)

section \<open>The backtrace writer\<close>

record backtrace_writer =
  b_circular :: circular_writer
  b_length :: cint
  b_lines :: "(level \<times> string) list"
  b_counter :: cint
  b_lowest :: level

definition MaxBacktrackingLength :: cint where "MaxBacktrackingLength = 4096"

definition backtrace_new :: "string \<Rightarrow> culong \<Rightarrow> cint \<Rightarrow> backtrace_writer" where
  "backtrace_new path maxSize backtrackingLength =
     \<lparr>b_circular = circular_new path maxSize,
      b_length = (if sint backtrackingLength \<le> sint MaxBacktrackingLength then backtrackingLength
                  else MaxBacktrackingLength),
      b_lines = [], b_counter = 0, b_lowest = Debug\<rparr>"

definition setLowestLevel :: "level \<Rightarrow> backtrace_writer \<Rightarrow> backtrace_writer" where
  "setLowestLevel lowest b = (if lowest > Error then b\<lparr>b_lowest := lowest\<rparr> else b)"

fun write_lines ::
    "(level \<times> string) list \<Rightarrow> circular_writer \<Rightarrow> log_world \<Rightarrow> circular_writer \<times> log_world" where
  "write_lines [] c w = (c, w)"
| "write_lines (l # ls) c w = (case circular_apply (fst l) (snd l) c w of (c1, w1) \<Rightarrow> write_lines ls c1 w1)"

definition backtrace :: "backtrace_writer \<Rightarrow> log_world \<Rightarrow> backtrace_writer \<times> log_world" where
  "backtrace b w =
     (case write_lines (b_lines b) (b_circular b) w of
        (c, w1) \<Rightarrow> (b\<lparr>b_circular := c, b_lines := [], b_counter := 0\<rparr>, w1))"

text \<open>
  \<open>pop_front\<close> of an empty list is undefined behaviour: the result is then \<open>None\<close>.
\<close>

definition backtrace_apply ::
    "level \<Rightarrow> string \<Rightarrow> backtrace_writer \<Rightarrow> log_world \<Rightarrow> (backtrace_writer \<times> log_world) option" where
  "backtrace_apply level line b w =
     (if level \<le> Error
      then case backtrace b w of
             (b1, w1) \<Rightarrow>
               (case circular_apply level line (b_circular b1) w1 of
                  (c, w2) \<Rightarrow> Some (b1\<lparr>b_circular := c\<rparr>, w2))
      else if level > Error \<and> level \<le> b_lowest b
      then if b_counter b = b_length b
           then case b_lines b of
                  [] \<Rightarrow> None
                | l # ls \<Rightarrow> Some (b\<lparr>b_lines := ls @ [(level, line)]\<rparr>, w)
           else Some (b\<lparr>b_lines := b_lines b @ [(level, line)], b_counter := b_counter b + 1\<rparr>, w)
      else Some (b, w))"

definition backtrace_wants :: "backtrace_writer \<Rightarrow> level \<Rightarrow> bool" where
  "backtrace_wants b level = (level \<le> b_lowest b)"

section \<open>The logger\<close>

datatype writer =
    Circular circular_writer
  | Backtrace backtrace_writer
  | Unlimited unlimited_writer
  | Tty
  | SysLog

record logger =
  g_level :: level
  g_writers :: "writer list"
  g_formatter :: "(level \<Rightarrow> string \<Rightarrow> string \<Rightarrow> string \<Rightarrow> cuint \<Rightarrow> string) option"

fun writer_initialize :: "writer \<Rightarrow> log_world \<Rightarrow> writer \<times> log_world \<times> unit outcome" where
  "writer_initialize (Circular c) w =
     (case circular_initialize c w of (c1, w1, r) \<Rightarrow> (Circular c1, w1, r))"
| "writer_initialize (Backtrace b) w =
     (case circular_initialize (b_circular b) w of (c, w1, r) \<Rightarrow> (Backtrace (b\<lparr>b_circular := c\<rparr>), w1, r))"
| "writer_initialize (Unlimited u) w =
     (case unlimited_initialize u w of (u1, w1, r) \<Rightarrow> (Unlimited u1, w1, r))"
| "writer_initialize Tty w = (Tty, w, Inr ())"
| "writer_initialize SysLog w = (SysLog, w, Inr ())"

fun writer_wants :: "level \<Rightarrow> level \<Rightarrow> writer \<Rightarrow> bool" where
  "writer_wants current level (Circular c) = circular_wants current c level"
| "writer_wants current level (Backtrace b) = backtrace_wants b level"
| "writer_wants current level (Unlimited u) = unlimited_wants current u level"
| "writer_wants current level Tty = isActive current level"
| "writer_wants current level SysLog = isActive current level"

fun writer_apply :: "level \<Rightarrow> string \<Rightarrow> writer \<Rightarrow> log_world \<Rightarrow> (writer \<times> log_world) option" where
  "writer_apply level line (Circular c) w =
     (case circular_apply level line c w of (c1, w1) \<Rightarrow> Some (Circular c1, w1))"
| "writer_apply level line (Backtrace b) w =
     map_option (\<lambda>(b1, w1). (Backtrace b1, w1)) (backtrace_apply level line b w)"
| "writer_apply level line (Unlimited u) w = Some (Unlimited u, unlimited_apply level line u w)"
| "writer_apply level line Tty w = Some (Tty, tty_apply line w)"
| "writer_apply level line SysLog w = Some (SysLog, syslog_apply level line w)"

definition logger_initialize ::
    "writer \<Rightarrow> (level \<Rightarrow> string \<Rightarrow> string \<Rightarrow> string \<Rightarrow> cuint \<Rightarrow> string) \<Rightarrow> logger \<Rightarrow> log_world \<Rightarrow>
     logger \<times> log_world \<times> unit outcome" where
  "logger_initialize writer formatter g w =
     (case writer_initialize writer w of
        (writer1, w1, r) \<Rightarrow> (g\<lparr>g_writers := [writer1], g_formatter := Some formatter\<rparr>, w1, r))"

definition logger_add :: "writer \<Rightarrow> logger \<Rightarrow> log_world \<Rightarrow> logger \<times> log_world \<times> unit outcome" where
  "logger_add writer g w =
     (if g_formatter g = None
      then (g, w, Inl (RuntimeException ''You should initialize the Logger before add a new writer''))
      else case writer_initialize writer w of
             (writer1, w1, Inl e) \<Rightarrow> (g, w1, Inl e)
           | (writer1, w1, Inr u) \<Rightarrow> (g\<lparr>g_writers := g_writers g @ [writer1]\<rparr>, w1, Inr ()))"

definition logger_wants :: "level \<Rightarrow> logger \<Rightarrow> bool" where
  "logger_wants level g =
     (if g_writers g = [] \<or> g_formatter g = None then False
      else let result = list_ex (writer_wants (g_level g) level) (g_writers g) in
           if \<not> result then False else if isActive (g_level g) level then True else result)"

fun write_all ::
    "level \<Rightarrow> level \<Rightarrow> string \<Rightarrow> writer list \<Rightarrow> log_world \<Rightarrow> (writer list \<times> log_world) option" where
  "write_all current level line [] w = Some ([], w)"
| "write_all current level line (x # xs) w =
     (case (if writer_wants current level x then writer_apply level line x w else Some (x, w)) of
        None \<Rightarrow> None
      | Some (x1, w1) \<Rightarrow>
          map_option (\<lambda>(xs1, w2). (x1 # xs1, w2)) (write_all current level line xs w1))"

definition logger_write ::
    "level \<Rightarrow> string \<Rightarrow> string \<Rightarrow> string \<Rightarrow> cuint \<Rightarrow> logger \<Rightarrow> log_world \<Rightarrow> (logger \<times> log_world) option" where
  "logger_write level input function file lineno g w =
     (if \<not> logger_wants level g then Some (g, w)
      else case g_formatter g of
             None \<Rightarrow> Some (g, w)
           | Some format \<Rightarrow>
               map_option (\<lambda>(xs, w1). (g\<lparr>g_writers := xs\<rparr>, w1))
                 (write_all (g_level g) level
                    (format level input function (removePathBeforeCoffee file) lineno) (g_writers g) w))"

text \<open>\<open>TraceMethod\<close>: the constructor gives the flag the destructor looks at.\<close>

definition trace_begin ::
    "level \<Rightarrow> string \<Rightarrow> string \<Rightarrow> cuint \<Rightarrow> logger \<Rightarrow> log_world \<Rightarrow> (bool \<times> logger \<times> log_world) option" where
  "trace_begin level methodName file lineno g w =
     (let ok = logger_wants level g in
      if ok then map_option (\<lambda>(g1, w1). (ok, g1, w1))
                   (logger_write level ''+++ begin +++'' methodName file lineno g w)
      else Some (ok, g, w))"

definition trace_end ::
    "bool \<Rightarrow> level \<Rightarrow> string \<Rightarrow> string \<Rightarrow> logger \<Rightarrow> log_world \<Rightarrow> (logger \<times> log_world) option" where
  "trace_end ok level methodName file g w =
     (if ok \<and> logger_wants level g
      then logger_write level ''+++ end +++'' methodName file 0 g w
      else Some (g, w))"

section \<open>The backtrace writer shows the last lines before an error\<close>

definition last_n :: "nat \<Rightarrow> 'a list \<Rightarrow> 'a list" where
  "last_n n xs = drop (length xs - n) xs"

text \<open>
  The lines that reach the file: every error, preceded by the last \<open>n\<close> lines of a level the
  writer collects since the error before.
\<close>

fun shown ::
    "nat \<Rightarrow> level \<Rightarrow> (level \<times> string) list \<Rightarrow> (level \<times> string) list \<Rightarrow> (level \<times> string) list" where
  "shown n lowest pending [] = []"
| "shown n lowest pending (l # ls) =
     (if fst l \<le> Error
      then last_n n (filter (\<lambda>x. fst x \<le> lowest) pending) @ l # shown n lowest [] ls
      else shown n lowest (pending @ [l]) ls)"

fun backtrace_run ::
    "(level \<times> string) list \<Rightarrow> backtrace_writer \<Rightarrow> log_world \<Rightarrow> (backtrace_writer \<times> log_world) option" where
  "backtrace_run [] b w = Some (b, w)"
| "backtrace_run (l # ls) b w =
     (case backtrace_apply (fst l) (snd l) b w of
        None \<Rightarrow> None
      | Some (b1, w1) \<Rightarrow> backtrace_run ls b1 w1)"

lemma length_last_n: "length (last_n n xs) = min n (length xs)"
  by (simp add: last_n_def)

lemma last_n_snoc:
  assumes "0 < n"
  shows "last_n n (xs @ [x]) =
     (if length (last_n n xs) = n then tl (last_n n xs) else last_n n xs) @ [x]"
proof (cases "n \<le> length xs")
  case True
  then have "Suc (length xs) - n = Suc (length xs - n)" by simp
  with True assms show ?thesis
    by (simp add: last_n_def drop_Suc tl_drop)
qed (use assms in \<open>simp add: last_n_def\<close>)

lemma write_lines_append:
  "write_lines (xs @ ys) c w = (case write_lines xs c w of (c1, w1) \<Rightarrow> write_lines ys c1 w1)"
  by (induction xs arbitrary: c w) (simp_all split: prod.split)

definition backtrace_inv :: "(level \<times> string) list \<Rightarrow> backtrace_writer \<Rightarrow> bool" where
  "backtrace_inv pending b \<longleftrightarrow>
     b_lines b = last_n (unat (b_length b)) (filter (\<lambda>x. fst x \<le> b_lowest b) pending) \<and>
     b_counter b = of_nat (length (b_lines b))"

lemma backtrace_collect:
  assumes inv: "backtrace_inv pending b" and n: "0 < unat (b_length b)" and l: "\<not> fst l \<le> Error"
  shows "\<exists>b1. backtrace_apply (fst l) (snd l) b w = Some (b1, w) \<and> backtrace_inv (pending @ [l]) b1 \<and>
     b_circular b1 = b_circular b \<and> b_length b1 = b_length b \<and> b_lowest b1 = b_lowest b"
proof (cases "fst l \<le> b_lowest b")
  case False
  with inv l show ?thesis by (simp add: backtrace_apply_def backtrace_inv_def)
next
  case True
  let ?n = "unat (b_length b)" and ?ps = "filter (\<lambda>x. fst x \<le> b_lowest b) pending"
  have full: "b_counter b = b_length b \<longleftrightarrow> length (b_lines b) = ?n"
  proof -
    have "length (b_lines b) \<le> ?n" using inv by (simp add: backtrace_inv_def length_last_n)
    moreover have "?n < 2 ^ 32" using unsigned_less [of "b_length b"] by simp
    ultimately have "unat (b_counter b) = length (b_lines b)"
      using inv by (simp add: backtrace_inv_def unsigned_of_nat take_bit_nat_eq_self)
    then show ?thesis by (metis unsigned_word_eqI)
  qed
  have snoc: "last_n ?n (?ps @ [l]) = (if length (b_lines b) = ?n then tl (b_lines b) else b_lines b) @ [l]"
    using inv last_n_snoc [OF n, of ?ps l] by (simp add: backtrace_inv_def)
  show ?thesis
  proof (cases "b_counter b = b_length b")
    case eq: True
    then obtain x xs where x: "b_lines b = x # xs" using full n by (cases "b_lines b") auto
    let ?b1 = "b\<lparr>b_lines := xs @ [l]\<rparr>"
    have "last_n ?n (?ps @ [l]) = xs @ [l]" using snoc full eq x by simp
    then have "backtrace_inv (pending @ [l]) ?b1"
      using inv True x by (simp add: backtrace_inv_def)
    moreover have "backtrace_apply (fst l) (snd l) b w = Some (?b1, w)"
      using True eq x l by (simp add: backtrace_apply_def)
    ultimately show ?thesis by (intro exI [of _ ?b1]) simp
  next
    case False
    let ?b1 = "b\<lparr>b_lines := b_lines b @ [l], b_counter := b_counter b + 1\<rparr>"
    have "last_n ?n (?ps @ [l]) = b_lines b @ [l]" using snoc full False by simp
    then have "backtrace_inv (pending @ [l]) ?b1"
      using inv True by (simp add: backtrace_inv_def)
    moreover have "backtrace_apply (fst l) (snd l) b w = Some (?b1, w)"
      using True False l by (simp add: backtrace_apply_def)
    ultimately show ?thesis by (intro exI [of _ ?b1]) simp
  qed
qed

lemma backtrace_run_shown:
  "backtrace_inv pending b \<Longrightarrow> 0 < unat (b_length b) \<Longrightarrow>
   \<exists>b1 w1. backtrace_run ls b w = Some (b1, w1) \<and>
     write_lines (shown (unat (b_length b)) (b_lowest b) pending ls) (b_circular b) w = (b_circular b1, w1)"
proof (induction ls arbitrary: pending b w)
  case Nil
  then show ?case by simp
next
  case (Cons l ls)
  show ?case
  proof (cases "fst l \<le> Error")
    case True
    obtain c1 w1 where 1: "write_lines (b_lines b) (b_circular b) w = (c1, w1)" by fastforce
    obtain c2 w2 where 2: "circular_apply (fst l) (snd l) c1 w1 = (c2, w2)" by fastforce
    let ?b2 = "b\<lparr>b_circular := c2, b_lines := [], b_counter := 0\<rparr>"
    have a: "backtrace_apply (fst l) (snd l) b w = Some (?b2, w2)"
      using True 1 2 by (simp add: backtrace_apply_def backtrace_def)
    have "backtrace_inv [] ?b2" by (simp add: backtrace_inv_def last_n_def)
    from Cons.IH [OF this, of w2] Cons.prems obtain b3 w3 where
      "backtrace_run ls ?b2 w2 = Some (b3, w3)"
      "write_lines (shown (unat (b_length b)) (b_lowest b) [] ls) c2 w2 = (b_circular b3, w3)"
      by auto
    moreover have "last_n (unat (b_length b)) (filter (\<lambda>x. fst x \<le> b_lowest b) pending) = b_lines b"
      using Cons.prems by (simp add: backtrace_inv_def)
    ultimately show ?thesis using True a 1 2 by (simp add: write_lines_append)
  next
    case False
    from backtrace_collect [OF Cons.prems False, of w] obtain b1 where
      b1: "backtrace_apply (fst l) (snd l) b w = Some (b1, w)" "backtrace_inv (pending @ [l]) b1"
        "b_circular b1 = b_circular b" "b_length b1 = b_length b" "b_lowest b1 = b_lowest b"
      by blast
    from Cons.IH [OF b1(2), of w] Cons.prems b1 False show ?thesis by simp
  qed
qed

text \<open>A world to evaluate in.\<close>

definition empty_world :: log_world where
  "empty_world = \<lparr>files = \<lambda>p. None, refuses_open = \<lambda>p. False, refuses_stat = \<lambda>p. False,
     refuses_rename = \<lambda>p. False, strerror = '''', cout = [], cerr = [], syslog = []\<rparr>"

text \<open>
  A backtrace writer of positive length never takes the front of an empty list, and what
  it writes, for any sequence of lines, is every error preceded by the last lines (as many as
  its length, capped at 4096) of the collected levels that came since the error before;
  everything is written through the circular writer it extends.
\<close>

theorem backtrace_shows_last_lines:
  assumes "0 < sint len"
  shows "let b = setLowestLevel lowest (backtrace_new path maxSize len) in
     \<exists>b1 w1. backtrace_run ls b w = Some (b1, w1) \<and>
       write_lines (shown (min (nat (sint len)) 4096) (b_lowest b) [] ls) (b_circular b) w = (b_circular b1, w1)"
proof -
  let ?b = "setLowestLevel lowest (backtrace_new path maxSize len)"
  have i: "backtrace_inv [] ?b"
    by (simp add: backtrace_inv_def setLowestLevel_def backtrace_new_def last_n_def)
  have "unat (b_length ?b) = min (nat (sint len)) 4096"
  proof -
    have "uint len = sint len"
      using assms sint_less [of len] by (simp add: uint_sint take_bit_int_eq_self)
    then have "unat len = nat (sint len)" by (simp flip: nat_uint_eq)
    then show ?thesis
      using assms by (simp add: setLowestLevel_def backtrace_new_def MaxBacktrackingLength_def)
  qed
  with backtrace_run_shown [OF i, of ls w] assms show ?thesis by (simp add: Let_def)
qed

theorem backtrace_shows_last_lines_witness:
  "let b = setLowestLevel Debug (backtrace_new ''t.log'' 1000 2) in
     \<exists>b1 w1. backtrace_run [(Debug, ''a''), (Debug, ''b''), (Information, ''c''), (Error, ''d'')] b empty_world = Some (b1, w1) \<and>
       write_lines [(Debug, ''b''), (Information, ''c''), (Error, ''d'')] (b_circular b) empty_world = (b_circular b1, w1)"
  using backtrace_shows_last_lines [of 2 Debug "''t.log''" 1000
      "[(Debug, ''a''), (Debug, ''b''), (Information, ''c''), (Error, ''d'')]" empty_world]
  by (simp add: last_n_def less_eq_level_def less_level_def setLowestLevel_def backtrace_new_def Let_def)

section \<open>The size of a circular trace file\<close>

definition accepts :: "string \<Rightarrow> log_world \<Rightarrow> bool" where
  "accepts path w = (\<not> refuses_open w path \<and> \<not> refuses_stat w path \<and> \<not> refuses_rename w path)"

definition bounded :: "nat \<Rightarrow> nat \<Rightarrow> circular_writer \<Rightarrow> log_world \<Rightarrow> bool" where
  "bounded L k c w \<longleftrightarrow>
     c_stream c \<and> accepts (c_path c) w \<and> length (content (c_path c) w) \<le> unat (c_maxSize c) + k * Suc L"

lemma next_line_mod: "unat ((n + 1) mod CheckSizePeriod) = Suc (unat (n :: culong) mod 128) mod 128"
proof -
  have "unat (n + 1) mod 128 = (Suc (unat n) mod 2 ^ 64) mod 128"
    by (simp add: unat_word_ariths)
  also have "\<dots> = Suc (unat n) mod 128" by (rule mod_mod_cancel) simp
  finally show ?thesis by (simp add: CheckSizePeriod_def unat_mod mod_Suc_eq)
qed

lemma accepts_files [simp]:
  "accepts p (w\<lparr>files := f\<rparr>) = accepts p w" "accepts p (append_file q c w) = accepts p w"
  by (simp_all add: accepts_def append_file_def)

lemma check_size_bounded:
  assumes "bounded L k c w"
  shows "\<exists>c1 w1. check_size c w = (c1, w1, Inr ()) \<and> bounded L 0 c1 w1 \<and>
     c_path c1 = c_path c \<and> c_maxSize c1 = c_maxSize c \<and> c_lineno c1 = c_lineno c"
proof (cases "unat (c_maxSize c) < length (content (c_path c) w)")
  case True
  let ?w1 = "w\<lparr>files := (files w)(old_path (c_path c) := files w (c_path c), c_path c := None)\<rparr>"
  have "check_size c w = (c\<lparr>c_loops := c_loops c + 1\<rparr>, append_file (c_path c) [] ?w1, Inr ())"
    using True assms
    by (simp add: check_size_def oversizedStream_def bounded_def accepts_def renameFile_def
        closeStream_def openStream_def)
  moreover have "bounded L 0 (c\<lparr>c_loops := c_loops c + 1\<rparr>) (append_file (c_path c) [] ?w1)"
    using assms by (simp add: bounded_def content_def append_file_def accepts_def)
  ultimately show ?thesis by simp
next
  case False
  then have "check_size c w = (c, w, Inr ())"
    using assms by (simp add: check_size_def oversizedStream_def bounded_def accepts_def)
  with False assms show ?thesis by (simp add: bounded_def)
qed

lemma circular_apply_bounded:
  assumes b: "bounded L (unat (c_lineno c) mod 128) c w" and l: "length line \<le> L"
  shows "\<exists>c1 w1. circular_apply level line c w = (c1, w1) \<and>
     bounded L (unat (c_lineno c1) mod 128) c1 w1 \<and> c_path c1 = c_path c \<and> c_maxSize c1 = c_maxSize c"
proof -
  let ?k = "unat (c_lineno c) mod 128"
  let ?c1 = "c\<lparr>c_lineno := c_lineno c + 1\<rparr>" and ?w1 = "append_file (c_path c) (line @ [LF]) w"
  have grown: "bounded L (Suc ?k) ?c1 ?w1"
    using b l by (simp add: bounded_def content_def append_file_def accepts_def)
  have m: "unat (c_lineno ?c1 mod CheckSizePeriod) = Suc ?k mod 128" by (simp add: next_line_mod)
  have k1: "unat (c_lineno ?c1) mod 128 = Suc ?k mod 128"
    using m by (simp add: CheckSizePeriod_def unat_mod)
  have s: "c_stream c" using b by (simp add: bounded_def)
  show ?thesis
  proof (cases "c_lineno ?c1 mod CheckSizePeriod = 0")
    case False
    then have "Suc ?k mod 128 \<noteq> 0" using m by (metis unat_eq_zero)
    then have "Suc ?k mod 128 = Suc ?k" by (simp add: mod_Suc split: if_splits)
    with False grown s k1 show ?thesis by (simp add: circular_apply_def)
  next
    case True
    from check_size_bounded [OF grown] obtain c2 w2 where c2: "check_size ?c1 ?w1 = (c2, w2, Inr ())"
      "bounded L 0 c2 w2" "c_path c2 = c_path c" "c_maxSize c2 = c_maxSize c" "c_lineno c2 = c_lineno ?c1"
      by auto
    have "unat (c_lineno c2) mod 128 = 0" using True m k1 c2(5) by simp
    with True c2 s show ?thesis by (simp add: circular_apply_def)
  qed
qed

lemma write_lines_bounded:
  "bounded L (unat (c_lineno c) mod 128) c w \<Longrightarrow> list_all (\<lambda>l. length (snd l) \<le> L) ls \<Longrightarrow>
   \<exists>c1 w1. write_lines ls c w = (c1, w1) \<and> bounded L (unat (c_lineno c1) mod 128) c1 w1 \<and>
     c_path c1 = c_path c \<and> c_maxSize c1 = c_maxSize c"
proof (induction ls arbitrary: c w)
  case Nil
  then show ?case by simp
next
  case (Cons l ls)
  from circular_apply_bounded [of L c w "snd l" "fst l"] Cons.prems obtain c1 w1 where
    "circular_apply (fst l) (snd l) c w = (c1, w1)" "bounded L (unat (c_lineno c1) mod 128) c1 w1"
    "c_path c1 = c_path c" "c_maxSize c1 = c_maxSize c" by auto
  with Cons.IH [of c1 w1] Cons.prems show ?case by simp
qed

text \<open>
  C37: On a file system that refuses nothing, a circular writer can always be initialized,
  whatever the file held, and after any number of lines its file is never longer than the
  maximum size and the 127 lines written since the last check, each with its end of line.
\<close>

theorem circular_file_bounded:
  assumes "accepts path w" and "list_all (\<lambda>l. length (snd l) \<le> L) ls"
  shows "\<exists>c1 w1. circular_initialize (circular_new path maxKbSize) w = (c1, w1, Inr ()) \<and>
     (case write_lines ls c1 w1 of
        (c2, w2) \<Rightarrow> c_stream c2 \<and>
          length (content path w2) \<le> unat (c_maxSize (circular_new path maxKbSize)) + 127 * Suc L)"
proof -
  let ?c = "circular_new path maxKbSize"
  let ?opened = "?c\<lparr>c_stream := True\<rparr>" and ?touched = "append_file path [] w"
  have o: "openStream ?c w = (?opened, ?touched, Inr ())"
    using assms(1) by (simp add: openStream_def accepts_def circular_new_def)
  have "bounded L (length (content path w)) ?opened ?touched"
    using assms(1) by (simp add: bounded_def circular_new_def append_file_def content_def accepts_def trans_le_add2)
  from check_size_bounded [OF this] obtain c1 w1 where c1: "check_size ?opened ?touched = (c1, w1, Inr ())"
    "bounded L 0 c1 w1" "c_path c1 = c_path ?opened" "c_maxSize c1 = c_maxSize ?opened" "c_lineno c1 = c_lineno ?opened"
    by blast
  have "bounded L (unat (c_lineno c1) mod 128) c1 w1"
    using c1 by (simp add: circular_new_def)
  from write_lines_bounded [OF this assms(2)] obtain c2 w2 where
    c2: "write_lines ls c1 w1 = (c2, w2)" "bounded L (unat (c_lineno c2) mod 128) c2 w2"
      "c_path c2 = c_path c1" "c_maxSize c2 = c_maxSize c1" by blast
  have "unat (c_lineno c2) mod 128 * Suc L \<le> 127 * Suc L"
    by (rule mult_le_mono1) (simp add: less_Suc_eq_le [symmetric])
  then have "length (content path w2) \<le> unat (c_maxSize ?c) + 127 * Suc L"
    using c2 c1 by (simp add: bounded_def circular_new_def)
  moreover have "circular_initialize ?c w = (c1, w1, Inr ())"
    using o c1 by (simp add: circular_initialize_def)
  ultimately show ?thesis using c2 by (auto simp: bounded_def)
qed

theorem circular_file_bounded_witness:
  "\<exists>c1 w1. circular_initialize (circular_new ''t.log'' 0) empty_world = (c1, w1, Inr ()) \<and>
     (case write_lines [(Error, ''disk full'')] c1 w1 of
        (c2, w2) \<Rightarrow> c_stream c2 \<and> length (content ''t.log'' w2) \<le> unat (c_maxSize (circular_new ''t.log'' 0)) + 127 * 10)"
  using circular_file_bounded [of "''t.log''" empty_world 9 "[(Error, ''disk full'')]" 0]
  by (simp add: accepts_def empty_world_def)

section \<open>Errors are always processed\<close>

definition collects_errors :: "writer \<Rightarrow> bool" where
  "collects_errors x = (case x of Backtrace b \<Rightarrow> b_lowest b > Error | _ \<Rightarrow> True)"

lemma setLowestLevel_collects: "b_lowest b > Error \<Longrightarrow> b_lowest (setLowestLevel lowest b) > Error"
  by (simp add: setLowestLevel_def)

lemma error_wanted: "level \<le> Error \<Longrightarrow> collects_errors x \<Longrightarrow> writer_wants current level x"
  by (cases x) (auto simp: circular_wants_def unlimited_wants_def backtrace_wants_def isActive_def
      collects_errors_def)

fun apply_all :: "level \<Rightarrow> string \<Rightarrow> writer list \<Rightarrow> log_world \<Rightarrow> (writer list \<times> log_world) option" where
  "apply_all level line [] w = Some ([], w)"
| "apply_all level line (x # xs) w =
     (case writer_apply level line x w of
        None \<Rightarrow> None
      | Some (x1, w1) \<Rightarrow> map_option (\<lambda>(xs1, w2). (x1 # xs1, w2)) (apply_all level line xs w1))"

lemma write_all_error:
  "level \<le> Error \<Longrightarrow> list_all collects_errors xs \<Longrightarrow>
   write_all current level line xs w = apply_all level line xs w"
  by (induction xs arbitrary: w) (simp_all add: error_wanted split: option.split)

text \<open>
  Whatever the level of the logger is, a message of level Error or more severe is handed,
  formatted, to every writer: the logger filters only the less severe ones.
\<close>

theorem errors_reach_every_writer:
  assumes "level \<le> Error" "g_formatter g = Some format" "list_all collects_errors (g_writers g)"
  shows "logger_write level input function file lineno g w =
     map_option (\<lambda>(xs, w1). (g\<lparr>g_writers := xs\<rparr>, w1))
       (apply_all level (format level input function (removePathBeforeCoffee file) lineno) (g_writers g) w)"
proof (cases "g_writers g")
  case Nil
  then have "g\<lparr>g_writers := []\<rparr> = g" by (cases g) simp
  with Nil show ?thesis by (simp add: logger_write_def logger_wants_def)
next
  case (Cons x xs)
  then have "logger_wants level g"
    using assms by (simp add: logger_wants_def error_wanted Let_def)
  then show ?thesis
    using assms by (simp add: logger_write_def write_all_error)
qed

theorem errors_reach_every_writer_witness:
  "logger_write Error ''disk full'' ''f'' ''x.cc'' 1
     \<lparr>g_level = Emergency, g_writers = [Tty], g_formatter = Some (\<lambda>l i f p n. i)\<rparr> empty_world =
   Some (\<lparr>g_level = Emergency, g_writers = [Tty], g_formatter = Some (\<lambda>l i f p n. i)\<rparr>,
     empty_world\<lparr>cout := [''disk full'']\<rparr>)"
  by (subst errors_reach_every_writer [of _ _ "\<lambda>l i f p n. i"])
    (simp_all add: collects_errors_def tty_apply_def empty_world_def)

end
