(* ===== verification/TimeWheel.thy ===== *)
theory TimeWheel
  imports AppCore "HOL-Library.Multiset" "HOL-Library.AList"
begin

text \<open>
  \<open>time\<close>: the time service, a wheel of quanta.  An event waits in the quantum its timeout
  selects; every tick of the clock processes the current quantum and moves on to the next.

  Milliseconds are \<open>int64_t\<close> counts: the model takes them as integers in that range.
  The thread \<open>produce\<close> only adds ticks at the rate of the resolution; \<open>consume\<close> handles
  every tick under the mutex that \<open>activate\<close> and \<open>cancel\<close> take as well, so an execution is
  a sequence of activations, cancellations and ticks.  The system clock is read by
  \<open>TimeService::now\<close>: its results are arguments.
\<close>

section \<open>Events\<close>

record time_event =
  ev_id :: cint
  ev_timeout :: int
  ev_init :: int
  ev_end :: int
  ev_periodical :: bool

definition timer_new :: "cint \<Rightarrow> int \<Rightarrow> time_event" where
  "timer_new i timeout = \<lparr>ev_id = i, ev_timeout = timeout, ev_init = 0, ev_end = 0, ev_periodical = False\<rparr>"

definition clock_new :: "cint \<Rightarrow> int \<Rightarrow> time_event" where
  "clock_new i timeout = \<lparr>ev_id = i, ev_timeout = timeout, ev_init = 0, ev_end = 0, ev_periodical = True\<rparr>"

definition ms_text :: "int \<Rightarrow> string" where
  "ms_text t = as_string_milliseconds (word_of_int t)"

definition isStarted :: "time_event \<Rightarrow> bool" where "isStarted e = (ev_init e \<noteq> 0)"
definition isFinished :: "time_event \<Rightarrow> bool" where "isFinished e = (ev_end e \<noteq> 0)"

definition event_as_string :: "time_event \<Rightarrow> string" where
  "event_as_string e =
     ''time.TimeEvent {'' @ ''pattern.observer.Event {'' @ ''Id='' @ as_string_int (ev_id e) @ ''}''
     @ '' | Timeout='' @ ms_text (ev_timeout e)
     @ (if isStarted e \<and> isFinished e then '' | Duration='' @ ms_text (ev_end e - ev_init e) else '''')
     @ ''}''"

definition getDuration :: "time_event \<Rightarrow> int outcome" where
  "getDuration e =
     (if \<not> isStarted e \<or> \<not> isFinished e
      then Inl (RuntimeException (event_as_string e @ '' was not started or finished''))
      else Inr (ev_end e - ev_init e))"

section \<open>The service\<close>

text \<open>A \<open>Location\<close>: the list that held the event when it was stored.\<close>

datatype place = Slot nat | Temporary

record time_service =
  t_service :: service
  t_maxTime :: int
  t_resolution :: int
  t_maxQuantum :: int
  t_current :: nat
  t_table :: "time_event list list"
  t_events :: "(cint \<times> place) list"
  t_temporary :: "time_event list"

text \<open>
  The loop that rounds the number of quanta up; \<open>None\<close> stands for an overflow of \<open>int\<close> and
  for a loop that does not end.
\<close>

partial_function (option) quantum_loop :: "int \<Rightarrow> int \<Rightarrow> int \<Rightarrow> int option" where
  "quantum_loop quanta maxTime resolution =
     (if 2 ^ 31 \<le> quanta then None
      else if quanta * resolution < maxTime then quantum_loop (quanta + 1) maxTime resolution
      else Some quanta)"

definition calculeMaxQuantum :: "int \<Rightarrow> int \<Rightarrow> int option" where
  "calculeMaxQuantum maxTime resolution =
     (if resolution = 0 then None
      else quantum_loop (signed_take_bit 31 (sgn maxTime * sgn resolution * (\<bar>maxTime\<bar> div \<bar>resolution\<bar>)))
             maxTime resolution)"

definition time_service_new :: "int \<Rightarrow> int \<Rightarrow> time_service option" where
  "time_service_new maxTime resolution =
     (case calculeMaxQuantum maxTime resolution of
        None \<Rightarrow> None
      | Some n \<Rightarrow>
          if n < 0 then None
          else Some \<lparr>t_service = service_new Timing ''native'', t_maxTime = maxTime,
             t_resolution = resolution, t_maxQuantum = n, t_current = 0,
             t_table = replicate (nat n) [], t_events = [], t_temporary = []\<rparr>)"

definition time_service_as_string :: "time_service \<Rightarrow> string" where
  "time_service_as_string t =
     ''time.TimeService{'' @ service_as_string (t_service t)
     @ '' | MaxTime='' @ ms_text (t_maxTime t) @ '' | Resolution='' @ ms_text (t_resolution t)
     @ '' | MaxQuantum='' @ int_to_string (t_maxQuantum t)
     @ '' | #TimeEvents='' @ dec (length (t_events t)) @ ''}''"

definition time_do_initialize :: "time_service \<Rightarrow> unit outcome" where
  "time_do_initialize t =
     (if t_maxTime t \<le> t_resolution t
      then Inl (RuntimeException (''Resolution must be lesser than '' @ ms_text (t_maxTime t)))
      else Inr ())"

text \<open>\<open>do_stop\<close> also drops the ticks that are waiting and joins both threads.\<close>

definition time_do_stop :: "time_service \<Rightarrow> time_service" where
  "time_do_stop t =
     t\<lparr>t_service := (t_service t)\<lparr>s_flags := Stopped\<rparr>, t_events := []\<rparr>"

definition quanta_of :: "time_service \<Rightarrow> time_event \<Rightarrow> nat" where
  "quanta_of t e = nat (ev_timeout e div t_resolution t)"

definition index_quantum :: "time_service \<Rightarrow> time_event \<Rightarrow> nat" where
  "index_quantum t e = (t_current t + quanta_of t e) mod nat (t_maxQuantum t)"

definition store :: "int \<Rightarrow> time_event \<Rightarrow> time_service \<Rightarrow> time_service" where
  "store now e t =
     (let i = index_quantum t e; e1 = e\<lparr>ev_init := now, ev_end := 0\<rparr> in
      if i = t_current t
      then t\<lparr>t_temporary := e1 # t_temporary t, t_events := AList.update (ev_id e) Temporary (t_events t)\<rparr>
      else t\<lparr>t_table := (t_table t)[i := e1 # t_table t ! i],
             t_events := AList.update (ev_id e) (Slot i) (t_events t)\<rparr>)"

text \<open>A null pointer is \<open>None\<close>.\<close>

definition time_activate :: "int \<Rightarrow> time_event option \<Rightarrow> time_service \<Rightarrow> time_service outcome" where
  "time_activate now event t =
     (if isStopped (s_flags (t_service t))
      then Inl (RuntimeException (time_service_as_string t @ '' can not accept new activation''))
      else case event of
        None \<Rightarrow> Inl (RuntimeException ''Time Event must be created by using TimeEvent::instantiate'')
      | Some e \<Rightarrow>
          (if ev_timeout e = 0 then Inl (RuntimeException ''Event duration should be greater that 0'')
           else if ev_timeout e > t_maxTime t \<or> ev_timeout e < t_resolution t
           then Inl (RuntimeException (''Timeout='' @ ms_text (ev_timeout e) @ '' is out range for ''
                  @ time_service_as_string t))
           else if map_of (t_events t) (ev_id e) \<noteq> None
           then Inl (RuntimeException (as_string_int (ev_id e) @ '' already activated''))
           else Inr (store now e t)))"

text \<open>
  \<open>cancel\<close> erases the event from the list its location names.  Erasing it from a list that
  does not hold it is undefined behaviour: \<open>None\<close>.
\<close>

fun erase_event :: "cint \<Rightarrow> time_event list \<Rightarrow> time_event list option" where
  "erase_event i [] = None"
| "erase_event i (e # es) = (if ev_id e = i then Some es else map_option ((#) e) (erase_event i es))"

definition time_cancel :: "time_event option \<Rightarrow> time_service \<Rightarrow> (time_service \<times> bool) option" where
  "time_cancel event t =
     (case event of
        None \<Rightarrow> Some (t, False)
      | Some e \<Rightarrow>
          (case map_of (t_events t) (ev_id e) of
             None \<Rightarrow> Some (t, False)
           | Some (Slot i) \<Rightarrow>
               map_option (\<lambda>es. (t\<lparr>t_table := (t_table t)[i := es],
                   t_events := AList.delete (ev_id e) (t_events t)\<rparr>, True))
                 (erase_event (ev_id e) (t_table t ! i))
           | Some Temporary \<Rightarrow>
               map_option (\<lambda>es. (t\<lparr>t_temporary := es,
                   t_events := AList.delete (ev_id e) (t_events t)\<rparr>, True))
                 (erase_event (ev_id e) (t_temporary t))))"

text \<open>
  The loop over the events of the current quantum: each is reported to the observers, and
  stored again when it is periodical.  An event stored again never goes into the quantum
  that is being processed.  \<open>clock i\<close> is the time at which the event \<open>i\<close> is stored again.
\<close>

fun fire_events ::
    "int \<Rightarrow> (cint \<Rightarrow> int) \<Rightarrow> time_event list \<Rightarrow> time_service \<Rightarrow> time_event list \<times> time_service" where
  "fire_events now clock [] t = ([], t)"
| "fire_events now clock (e # es) t =
     (let e1 = e\<lparr>ev_end := now\<rparr>;
          t1 = t\<lparr>t_events := AList.delete (ev_id e) (t_events t)\<rparr>;
          t2 = (if ev_periodical e then store (clock (ev_id e)) e1 t1 else t1);
          (fired, t3) = fire_events now clock es t2 in
      (e1 # fired, t3))"

definition tick :: "int \<Rightarrow> (cint \<Rightarrow> int) \<Rightarrow> time_service \<Rightarrow> time_event list \<times> time_service" where
  "tick now clock t =
     (let (fired, t1) = fire_events now clock (t_table t ! t_current t) t;
          next = (if int (t_current t1) + 1 = t_maxQuantum t1 then 0 else t_current t1 + 1) in
      (fired,
       t1\<lparr>t_table := (t_table t1)[t_current t1 := t_temporary t1], t_temporary := [],
          t_current := next\<rparr>))"

section \<open>What is pending\<close>

text \<open>
  The abstract view of a wheel: every event with the number of ticks after which it fires.
  The next tick processes the current quantum; the temporary list moves into that quantum
  at the end of the tick.
\<close>

definition distance :: "nat \<Rightarrow> nat \<Rightarrow> nat \<Rightarrow> nat" where
  "distance n cur i = Suc ((i + n - cur) mod n)"

definition table_pending :: "(nat \<Rightarrow> nat) \<Rightarrow> time_event list list \<Rightarrow> (time_event \<times> nat) multiset" where
  "table_pending d tbl = (\<Sum>i<length tbl. {#(e, d i). e \<in># mset (tbl ! i)#})"

definition pending :: "time_service \<Rightarrow> (time_event \<times> nat) multiset" where
  "pending t =
     table_pending (distance (length (t_table t)) (t_current t)) (t_table t)
     + {#(e, Suc (length (t_table t))). e \<in># mset (t_temporary t)#}"

definition fits :: "time_service \<Rightarrow> time_event \<Rightarrow> bool" where
  "fits t e = (t_resolution t \<le> ev_timeout e \<and> ev_timeout e \<le> t_maxTime t)"

definition wheel_ok :: "time_service \<Rightarrow> bool" where
  "wheel_ok t \<longleftrightarrow>
     0 < t_resolution t \<and> t_maxQuantum t = int (length (t_table t)) \<and> t_current t < length (t_table t) \<and>
     t_maxTime t \<le> t_maxQuantum t * t_resolution t \<and>
     list_all (list_all (fits t)) (t_table t) \<and> list_all (fits t) (t_temporary t)"

lemma quanta_range:
  assumes "wheel_ok t" "fits t e"
  shows "1 \<le> quanta_of t e" "quanta_of t e \<le> length (t_table t)"
proof -
  have r: "0 < t_resolution t" using assms by (simp add: wheel_ok_def)
  have "1 \<le> ev_timeout e div t_resolution t"
    using assms r zdiv_mono1 [of "t_resolution t" "ev_timeout e" "t_resolution t"] by (simp add: fits_def)
  then show "1 \<le> quanta_of t e" by (simp add: quanta_of_def)
  have "ev_timeout e div t_resolution t \<le> (t_maxQuantum t * t_resolution t) div t_resolution t"
    using assms r by (intro zdiv_mono1) (auto simp: fits_def wheel_ok_def)
  also have "\<dots> = int (length (t_table t))" using assms r by (simp add: wheel_ok_def)
  finally show "quanta_of t e \<le> length (t_table t)" by (simp add: quanta_of_def)
qed

lemma distance_current: "cur < n \<Longrightarrow> distance n cur i = 1 \<longleftrightarrow> i mod n = cur" if "i < n"
  using that unfolding distance_def
  by (cases "cur \<le> i") (auto simp: mod_if)

lemma distance_next:
  assumes "cur < n" "i < n"
  shows "distance n (if Suc cur = n then 0 else Suc cur) i = (if i = cur then n else distance n cur i - 1)"
  using assms unfolding distance_def by (auto simp: mod_if)

lemma distance_ahead:
  assumes "cur < n" "1 \<le> k" "k \<le> n"
  shows "(cur + k) mod n = cur \<longleftrightarrow> k = n"
    and "k < n \<Longrightarrow> distance n cur ((cur + k) mod n) = Suc k"
  using assms unfolding distance_def by (auto simp: mod_if)

lemma table_pending_update:
  assumes "i < length tbl"
  shows "table_pending d (tbl[i := es]) + {#(e, d i). e \<in># mset (tbl ! i)#} =
     table_pending d tbl + {#(e, d i). e \<in># mset es#}"
proof -
  let ?f = "\<lambda>tbl j. {#(e, d j). e \<in># mset (tbl ! j)#}"
  have "(\<Sum>j<length tbl. ?f (tbl[i := es]) j) = ?f (tbl[i := es]) i + (\<Sum>j\<in>{..<length tbl} - {i}. ?f (tbl[i := es]) j)"
    using assms by (intro sum.remove) auto
  moreover have "(\<Sum>j<length tbl. ?f tbl j) = ?f tbl i + (\<Sum>j\<in>{..<length tbl} - {i}. ?f tbl j)"
    using assms by (intro sum.remove) auto
  moreover have "(\<Sum>j\<in>{..<length tbl} - {i}. ?f (tbl[i := es]) j) = (\<Sum>j\<in>{..<length tbl} - {i}. ?f tbl j)"
    by (rule sum.cong) auto
  ultimately show ?thesis using assms by (simp add: table_pending_def add_ac)
qed

lemma table_pending_push:
  "i < length tbl \<Longrightarrow> table_pending d (tbl[i := e # tbl ! i]) = add_mset (e, d i) (table_pending d tbl)"
  using table_pending_update [of i tbl d "e # tbl ! i"]
  by (simp add: add.commute union_mset_add_mset_right)

lemma table_pending_cong:
  "(\<And>i. i < length tbl \<Longrightarrow> d i = c i) \<Longrightarrow> table_pending d tbl = table_pending c tbl"
  unfolding table_pending_def by (rule sum.cong) auto

section \<open>A tick on the abstract view\<close>

definition elapse :: "(time_event \<times> nat) multiset \<Rightarrow> (time_event \<times> nat) multiset" where
  "elapse m = {#(fst p, snd p - 1). p \<in># filter_mset (\<lambda>p. 1 < snd p) m#}"

definition due :: "(time_event \<times> nat) multiset \<Rightarrow> time_event multiset" where
  "due m = {#fst p. p \<in># filter_mset (\<lambda>p. snd p = 1) m#}"

lemma elapse_plus [simp]: "elapse (a + b) = elapse a + elapse b"
  by (simp add: elapse_def)

lemma due_plus [simp]: "due (a + b) = due a + due b"
  by (simp add: due_def)

lemma elapse_same: "1 < d \<Longrightarrow> elapse {#(e, d). e \<in># m#} = {#(e, d - 1). e \<in># m#}"
  by (simp add: elapse_def filter_mset_image_mset image_mset.compositionality o_def)

lemma due_same: "due {#(e, d). e \<in># m#} = (if d = 1 then m else {#})"
  by (simp add: due_def filter_mset_image_mset image_mset.compositionality o_def)

lemma elapse_sum: "elapse (\<Sum>i<(n::nat). f i) = (\<Sum>i<n. elapse (f i))"
  by (induction n) (simp_all add: elapse_def)

lemma due_sum: "due (\<Sum>i<(n::nat). f i) = (\<Sum>i<n. due (f i))"
  by (induction n) (simp_all add: due_def)

lemma table_pending_late:
  assumes "\<And>i. i < length tbl \<Longrightarrow> tbl ! i \<noteq> [] \<Longrightarrow> 1 < d i \<and> c i = d i - 1"
  shows "elapse (table_pending d tbl) = table_pending c tbl" "due (table_pending d tbl) = {#}"
proof -
  show "elapse (table_pending d tbl) = table_pending c tbl"
    unfolding table_pending_def elapse_sum
  proof (rule sum.cong)
    fix i assume "i \<in> {..<length tbl}"
    then show "elapse {#(e, d i). e \<in># mset (tbl ! i)#} = {#(e, c i). e \<in># mset (tbl ! i)#}"
      using assms [of i] by (cases "tbl ! i = []") (simp_all add: elapse_same, simp add: elapse_def)
  qed simp
  show "due (table_pending d tbl) = {#}"
    unfolding table_pending_def due_sum
  proof (intro sum.neutral ballI)
    fix i assume "i \<in> {..<length tbl}"
    then show "due {#(e, d i). e \<in># mset (tbl ! i)#} = {#}"
      using assms [of i] by (cases "tbl ! i = []") (simp_all add: due_same, simp add: due_def)
  qed
qed

text \<open>The next position, and the view of a wheel from there before the quantum is emptied.\<close>

definition next_quantum :: "time_service \<Rightarrow> nat" where
  "next_quantum t = (if Suc (t_current t) = length (t_table t) then 0 else Suc (t_current t))"

definition view :: "time_service \<Rightarrow> (time_event \<times> nat) multiset" where
  "view t =
     table_pending (distance (length (t_table t)) (next_quantum t)) (t_table t)
     + {#(e, length (t_table t)). e \<in># mset (t_temporary t)#}"

lemma split_current:
  assumes "wheel_ok t"
  shows "view t = elapse (pending t) + {#(e, length (t_table t)). e \<in># mset (t_table t ! t_current t)#}"
    and "due (pending t) = mset (t_table t ! t_current t)"
proof -
  let ?n = "length (t_table t)" and ?q = "t_current t"
  let ?f = "distance ?n ?q" and ?g = "distance ?n (next_quantum t)"
  let ?rest = "(t_table t)[?q := []]"
  have q: "?q < ?n" using assms by (simp add: wheel_ok_def)
  have late: "1 < ?f i \<and> ?g i = ?f i - 1" if "i < length ?rest" "?rest ! i \<noteq> []" for i
  proof -
    have i: "i < ?n" "i \<noteq> ?q" using that q by (auto simp: nth_list_update split: if_splits)
    then have "?f i \<noteq> 1" using distance_current [OF i(1) q] by simp
    then show ?thesis using distance_next [OF q i(1)] i by (simp add: next_quantum_def distance_def)
  qed
  have f1: "?f ?q = 1" using distance_current [OF q q] q by simp
  have gn: "?g ?q = ?n" using distance_next [OF q q] by (simp add: next_quantum_def)
  have f: "table_pending ?f (t_table t) = table_pending ?f ?rest + {#(e, 1). e \<in># mset (t_table t ! ?q)#}"
    using table_pending_update [OF q, of ?f "[]"] f1 by simp
  have g: "table_pending ?g (t_table t) = table_pending ?g ?rest + {#(e, ?n). e \<in># mset (t_table t ! ?q)#}"
    using table_pending_update [OF q, of ?g "[]"] gn by simp
  have n: "1 < Suc ?n" using q by linarith
  have "elapse {#(e, 1). e \<in># mset (t_table t ! ?q)#} = {#}"
    by (simp add: elapse_def filter_mset_image_mset)
  moreover have "elapse {#(e, Suc ?n). e \<in># mset (t_temporary t)#} = {#(e, ?n). e \<in># mset (t_temporary t)#}"
    using elapse_same [OF n] by simp
  ultimately show "view t = elapse (pending t) + {#(e, ?n). e \<in># mset (t_table t ! ?q)#}"
    using table_pending_late(1) [of ?rest ?f ?g] late f g by (simp add: view_def pending_def ac_simps)
  show "due (pending t) = mset (t_table t ! ?q)"
    using table_pending_late(2) [of ?rest ?f ?g] late f n
    by (simp only: pending_def due_plus due_same length_list_update) simp
qed

definition restarted :: "int \<Rightarrow> time_event \<Rightarrow> time_event" where
  "restarted now e = e\<lparr>ev_init := now, ev_end := 0\<rparr>"

text \<open>What \<open>store\<close> leaves as it was.\<close>

definition same_wheel :: "time_service \<Rightarrow> time_service \<Rightarrow> bool" where
  "same_wheel t u \<longleftrightarrow>
     t_resolution u = t_resolution t \<and> t_maxTime u = t_maxTime t \<and> t_maxQuantum u = t_maxQuantum t \<and>
     t_current u = t_current t \<and> length (t_table u) = length (t_table t) \<and>
     t_table u ! t_current t = t_table t ! t_current t"

lemma same_wheel_refl: "same_wheel t t"
  by (simp add: same_wheel_def)

lemma same_wheel_trans: "same_wheel t u \<Longrightarrow> same_wheel u v \<Longrightarrow> same_wheel t v"
  by (simp add: same_wheel_def)

lemma same_wheel_fits: "same_wheel t u \<Longrightarrow> fits u e = fits t e"
  by (simp add: same_wheel_def fits_def)

lemma same_wheel_quanta: "same_wheel t u \<Longrightarrow> quanta_of u e = quanta_of t e"
  by (simp add: same_wheel_def quanta_of_def)

lemma fits_events [simp]: "fits (t\<lparr>t_events := es\<rparr>) = fits t"
  by (simp add: fits_def fun_eq_iff)

lemma same_wheel_events [simp]:
  "same_wheel t (t\<lparr>t_events := es\<rparr>)" "wheel_ok (t\<lparr>t_events := es\<rparr>) = wheel_ok t"
  "view (t\<lparr>t_events := es\<rparr>) = view t" "pending (t\<lparr>t_events := es\<rparr>) = pending t"
  by (simp_all add: same_wheel_def wheel_ok_def view_def next_quantum_def pending_def fits_def)

lemma store_result:
  assumes ok: "wheel_ok t" and f: "fits t e"
  shows "wheel_ok (store now e t)" "same_wheel t (store now e t)"
    and "view (store now e t) = add_mset (restarted now e, quanta_of t e) (view t)"
    and "pending (store now e t) = add_mset (restarted now e, Suc (quanta_of t e)) (pending t)"
proof -
  let ?n = "length (t_table t)" and ?q = "t_current t" and ?k = "quanta_of t e"
  let ?i = "index_quantum t e"
  have q: "?q < ?n" using ok by (simp add: wheel_ok_def)
  note k = quanta_range [OF ok f]
  have i: "?i = (?q + ?k) mod ?n" using ok by (simp add: index_quantum_def wheel_ok_def)
  have iff: "?i = ?q \<longleftrightarrow> ?k = ?n" unfolding i by (rule distance_ahead(1) [OF q k])
  have lt: "?i < ?n" unfolding i using q by (intro mod_less_divisor) linarith
  have fr: "fits t (restarted now e)" using f by (simp add: fits_def restarted_def)
  show "wheel_ok (store now e t)" "same_wheel t (store now e t)"
    using ok fr lt
    by (auto simp: store_def Let_def wheel_ok_def same_wheel_def fits_def restarted_def list_all_length
        nth_list_update nth_Cons split: if_splits nat.splits)
  have "view (store now e t) = add_mset (restarted now e, ?k) (view t) \<and>
      pending (store now e t) = add_mset (restarted now e, Suc ?k) (pending t)"
  proof (cases "?i = ?q")
    case True
    then show ?thesis
      using iff by (simp add: store_def Let_def view_def pending_def next_quantum_def restarted_def)
  next
    case False
    then have lk: "?k < ?n" using iff k by simp
    have d: "distance ?n ?q ?i = Suc ?k" unfolding i by (rule distance_ahead(2) [OF q k lk])
    have d2: "distance ?n (next_quantum t) ?i = ?k"
      using distance_next [OF q lt] d False by (simp add: next_quantum_def)
    have nq: "next_quantum (t\<lparr>t_table := (t_table t)[?i := es], t_events := evs\<rparr>) = next_quantum t" for es evs
      by (simp add: next_quantum_def)
    from False show ?thesis
      by (simp add: store_def Let_def view_def pending_def nq restarted_def table_pending_push [OF lt] d d2)
  qed
  then show "view (store now e t) = add_mset (restarted now e, ?k) (view t)"
    "pending (store now e t) = add_mset (restarted now e, Suc ?k) (pending t)" by auto
qed

definition again :: "(cint \<Rightarrow> int) \<Rightarrow> time_service \<Rightarrow> time_event multiset \<Rightarrow> (time_event \<times> nat) multiset" where
  "again clock t m =
     {#(restarted (clock (ev_id e)) e, quanta_of t e). e \<in># filter_mset ev_periodical m#}"

lemma again_cong: "same_wheel t u \<Longrightarrow> again clock u m = again clock t m"
  by (simp add: again_def same_wheel_quanta)

lemma fire_events_result:
  "wheel_ok t \<Longrightarrow> list_all (fits t) es \<Longrightarrow> fire_events now clock es t = (fired, u) \<Longrightarrow>
   fired = map (\<lambda>e. e\<lparr>ev_end := now\<rparr>) es \<and> wheel_ok u \<and> same_wheel t u \<and>
   view u = view t + again clock t (mset es)"
proof (induction es arbitrary: t fired u)
  case Nil
  then show ?case by (simp add: again_def same_wheel_refl)
next
  case (Cons e es)
  let ?e1 = "e\<lparr>ev_end := now\<rparr>"
  let ?t1 = "t\<lparr>t_events := AList.delete (ev_id e) (t_events t)\<rparr>"
  let ?t2 = "if ev_periodical e then store (clock (ev_id e)) ?e1 ?t1 else ?t1"
  have f: "fits ?t1 ?e1" using Cons.prems by (simp add: fits_def)
  have r: "restarted x ?e1 = restarted x e" "quanta_of ?t1 ?e1 = quanta_of t e" for x
    by (simp_all add: restarted_def quanta_of_def)
  have ok1: "wheel_ok ?t1" using Cons.prems by simp
  have "same_wheel t (store x ?e1 ?t1)" for x
    by (rule same_wheel_trans [OF same_wheel_events(1) store_result(2) [OF ok1 f]])
  then have 2: "wheel_ok ?t2" "same_wheel t ?t2"
    using store_result(1) [OF ok1 f] ok1 by simp_all
  have v: "view ?t2 = view t + again clock t {#e#}"
    using store_result(3) [OF ok1 f] by (simp add: again_def r)
  obtain fs where fs: "fire_events now clock es ?t2 = (fs, u)" "fired = ?e1 # fs"
    using Cons.prems(3) by (auto simp: Let_def split: prod.splits)
  have "list_all (fits ?t2) es"
    using Cons.prems same_wheel_fits [OF 2(2)] by (simp add: list_all_iff)
  from Cons.IH [OF 2(1) this fs(1)] fs(2) v 2(2) again_cong [OF 2(2)] show ?case
    by (auto intro: same_wheel_trans simp: again_def)
qed

lemma tick_result:
  assumes ok: "wheel_ok t" and step: "tick now clock t = (fired, u)"
  shows "wheel_ok u"
    and "mset fired = {#e\<lparr>ev_end := now\<rparr>. e \<in># due (pending t)#}"
    and "pending u = elapse (pending t) + again clock t (due (pending t))"
    and "\<And>e. quanta_of u e = quanta_of t e"
proof -
  let ?n = "length (t_table t)" and ?q = "t_current t" and ?es = "t_table t ! t_current t"
  obtain u1 where u1: "fire_events now clock ?es t = (fired, u1)"
    using step by (auto simp: tick_def Let_def split: prod.splits)
  have q: "?q < ?n" using ok by (simp add: wheel_ok_def)
  have fe: "list_all (fits t) ?es" using ok q by (simp add: wheel_ok_def list_all_length)
  note r = fire_events_result [OF ok fe u1]
  have s: "t_current u1 = ?q" "length (t_table u1) = ?n" "t_maxQuantum u1 = int ?n" "t_table u1 ! ?q = ?es"
    using r ok by (auto simp: same_wheel_def wheel_ok_def)
  have u: "u = u1\<lparr>t_table := (t_table u1)[?q := t_temporary u1], t_temporary := [],
      t_current := next_quantum t\<rparr>"
    using step u1 s by (auto simp: tick_def Let_def next_quantum_def)
  have "list_all (fits u1) (t_temporary u1)" "list_all (list_all (fits u1)) (t_table u1)"
    using r by (auto simp: wheel_ok_def)
  then have "list_all (list_all (fits u1)) ((t_table u1)[?q := t_temporary u1])"
    using set_update_subset_insert [of "t_table u1" ?q "t_temporary u1"] by (auto simp: list_all_iff)
  moreover have "fits u = fits u1" by (simp add: u fits_def fun_eq_iff)
  ultimately show "wheel_ok u"
    using r q s by (auto simp: wheel_ok_def u next_quantum_def split: if_splits)
  show "mset fired = {#e\<lparr>ev_end := now\<rparr>. e \<in># due (pending t)#}"
    using r by (simp add: split_current(2) [OF ok])
  show "quanta_of u e = quanta_of t e" for e
    using r by (simp add: u quanta_of_def same_wheel_def)
  have q1: "?q < length (t_table u1)" using s q by simp
  have g: "distance ?n (next_quantum t) ?q = ?n"
    using distance_next [OF q q] by (simp add: next_quantum_def)
  have "pending u + {#(e, ?n). e \<in># mset ?es#} = view u1"
    using table_pending_update [OF q1, of "distance ?n (next_quantum t)" "t_temporary u1"] s g
    by (simp add: pending_def view_def u next_quantum_def)
  also have "\<dots> = elapse (pending t) + again clock t (mset ?es) + {#(e, ?n). e \<in># mset ?es#}"
    using r split_current(1) [OF ok] by (simp add: ac_simps)
  finally show "pending u = elapse (pending t) + again clock t (due (pending t))"
    by (simp add: split_current(2) [OF ok])
qed

section \<open>When an event fires\<close>

text \<open>The events that each of a sequence of ticks reports to the observers.\<close>

fun run_ticks :: "(int \<times> (cint \<Rightarrow> int)) list \<Rightarrow> time_service \<Rightarrow> time_event list list" where
  "run_ticks [] t = []"
| "run_ticks (c # cs) t = (case tick (fst c) (snd c) t of (fired, u) \<Rightarrow> fired # run_ticks cs u)"

definition entries :: "cint \<Rightarrow> (time_event \<times> nat) multiset \<Rightarrow> (time_event \<times> nat) multiset" where
  "entries i m = filter_mset (\<lambda>p. ev_id (fst p) = i) m"

definition times_fired :: "cint \<Rightarrow> time_event list \<Rightarrow> nat" where
  "times_fired i fired = size (filter_mset (\<lambda>e. ev_id e = i) (mset fired))"

lemma entries_elapse: "entries i (elapse m) = elapse (entries i m)"
  by (simp add: entries_def elapse_def filter_mset_image_mset filter_filter_mset conj_commute o_def)

lemma due_entries: "filter_mset (\<lambda>e. ev_id e = i) (due m) = due (entries i m)"
  by (simp add: entries_def due_def filter_mset_image_mset filter_filter_mset conj_commute o_def)

lemma entries_again: "entries i (again c t m) = again c t (filter_mset (\<lambda>e. ev_id e = i) m)"
  by (simp add: entries_def again_def filter_mset_image_mset filter_filter_mset conj_commute o_def restarted_def)

lemma entries_plus [simp]: "entries i (a + b) = entries i a + entries i b"
  by (simp add: entries_def)

lemma tick_entries:
  assumes "wheel_ok t" "tick now clock t = (fired, u)"
  shows "times_fired i fired = size (due (entries i (pending t)))"
    and "entries i (pending u) = elapse (entries i (pending t)) + again clock t (due (entries i (pending t)))"
proof -
  note r = tick_result [OF assms]
  show "times_fired i fired = size (due (entries i (pending t)))"
    by (simp add: times_fired_def r(2) filter_mset_image_mset o_def flip: due_entries)
  show "entries i (pending u) = elapse (entries i (pending t)) + again clock t (due (entries i (pending t)))"
    by (simp add: r(3) entries_elapse entries_again due_entries)
qed

lemma run_ticks_silent:
  "wheel_ok t \<Longrightarrow> entries i (pending t) = {#} \<Longrightarrow> j < length cs \<Longrightarrow> times_fired i (run_ticks cs t ! j) = 0"
proof (induction cs arbitrary: t j)
  case Nil
  then show ?case by simp
next
  case (Cons c cs)
  obtain fired u where u: "tick (fst c) (snd c) t = (fired, u)" by fastforce
  have "entries i (pending u) = {#}" "times_fired i fired = 0"
    using tick_entries [OF Cons.prems(1) u, of i] Cons.prems(2)
    by (simp_all add: elapse_def due_def again_def)
  with Cons u tick_result(1) [OF Cons.prems(1) u] show ?case by (cases j) (auto simp: run_ticks.simps)
qed

definition fires_at :: "nat \<Rightarrow> bool \<Rightarrow> nat \<Rightarrow> nat \<Rightarrow> bool" where
  "fires_at k periodical r j = (r \<le> j \<and> (if periodical then k dvd (j - r) else j = r))"

declare run_ticks.simps [simp del]

lemma fires_at_simps:
  "1 < r \<Longrightarrow> \<not> fires_at k p r (Suc 0)"
  "1 < r \<Longrightarrow> fires_at k p r (Suc (Suc n)) = fires_at k p (r - 1) (Suc n)"
  "fires_at k p (Suc 0) (Suc 0)"
  "\<not> fires_at k False (Suc 0) (Suc (Suc n))"
  "fires_at k True (Suc 0) (Suc (Suc n)) = (k dvd Suc n)"
  by (auto simp: fires_at_def)

lemma fires_at_turn: "1 \<le> k \<Longrightarrow> fires_at k True k j = (1 \<le> j \<and> k dvd j)"
  unfolding fires_at_def by (auto dest: dvd_imp_le simp: dvd_diff_nat dvd_minus_self)

lemma run_ticks_entry:
  "wheel_ok t \<Longrightarrow> entries i (pending t) = {#(e, r)#} \<Longrightarrow> 1 \<le> r \<Longrightarrow> 1 \<le> quanta_of t e \<Longrightarrow> j < length cs \<Longrightarrow>
   times_fired i (run_ticks cs t ! j) = of_bool (fires_at (quanta_of t e) (ev_periodical e) r (Suc j))"
proof (induction cs arbitrary: t e r j)
  case Nil
  then show ?case by simp
next
  case (Cons c cs)
  let ?k = "quanta_of t e"
  obtain fired u where u: "tick (fst c) (snd c) t = (fired, u)" by fastforce
  note ok = tick_result(1) [OF Cons.prems(1) u] and q = tick_result(4) [OF Cons.prems(1) u]
  note en = tick_entries [OF Cons.prems(1) u, of i, unfolded Cons.prems(2)]
  have later: "run_ticks (c # cs) t = fired # run_ticks cs u" using u by (simp add: run_ticks.simps)
  show ?case
  proof (cases "r = 1")
    case False
    then have "entries i (pending u) = {#(e, r - 1)#}" "times_fired i fired = 0"
      using en Cons.prems(3) by (simp_all add: elapse_def due_def again_def)
    then show ?thesis
      using Cons.IH [OF ok, of e "r - 1"] Cons.prems False q
      by (cases j) (simp_all add: later fires_at_simps)
  next
    case True
    then have now: "times_fired i fired = 1" using en by (simp add: due_def)
    show ?thesis
    proof (cases "ev_periodical e")
      case False
      then have "entries i (pending u) = {#}" using en True by (simp add: elapse_def due_def again_def)
      with run_ticks_silent [OF ok] Cons.prems True False now show ?thesis
        by (cases j) (simp_all add: later fires_at_simps)
    next
      case periodical: True
      let ?e = "restarted (snd c (ev_id e)) e"
      have "entries i (pending u) = {#(?e, ?k)#}"
        using en True periodical by (simp add: elapse_def due_def again_def)
      moreover have "quanta_of u ?e = ?k" "ev_periodical ?e"
        using q periodical by (simp_all add: restarted_def quanta_of_def)
      ultimately show ?thesis
        using Cons.IH [OF ok, of ?e ?k] Cons.prems True periodical now fires_at_turn [OF Cons.prems(4)]
        by (cases j) (simp_all add: later fires_at_simps)
    qed
  qed
qed

lemma activated:
  assumes "wheel_ok t" "time_activate now (Some e) t = Inr u"
  shows "fits t e" "u = store now e t" "map_of (t_events t) (ev_id e) = None"
  using assms by (auto simp: time_activate_def fits_def split: if_splits)

text \<open>
  C18: An accepted event fires exactly when its timeout says: with \<open>k\<close> the timeout divided by
  the resolution, a timer fires once, on tick \<open>k + 1\<close> after its activation, and a clock fires
  first on tick \<open>k + 1\<close> and then every \<open>k\<close> ticks, whatever else is in the wheel.
\<close>

theorem event_fires_on_time:
  assumes "wheel_ok t" "time_activate now (Some e) t = Inr u"
    and "entries (ev_id e) (pending t) = {#}" "j < length cs"
  shows "1 \<le> quanta_of t e \<and>
     times_fired (ev_id e) (run_ticks cs u ! j) =
       of_bool (quanta_of t e \<le> j \<and>
         (if ev_periodical e then quanta_of t e dvd (j - quanta_of t e) else j = quanta_of t e))"
proof -
  note a = activated [OF assms(1,2)]
  note k = quanta_range [OF assms(1) a(1)]
  note st = store_result [OF assms(1) a(1), of now, folded a(2)]
  let ?e = "restarted now e"
  have "entries (ev_id e) (pending u) = {#(?e, Suc (quanta_of t e))#}"
    using st(4) assms(3) by (simp add: entries_def restarted_def)
  moreover have "quanta_of u ?e = quanta_of t e" "ev_periodical ?e = ev_periodical e"
    using same_wheel_quanta [OF st(2)] by (simp_all add: restarted_def quanta_of_def)
  ultimately show ?thesis
    using run_ticks_entry [OF st(1), of "ev_id e" ?e "Suc (quanta_of t e)" j cs] k assms(4)
    by (simp add: fires_at_def)
qed

definition small_wheel :: time_service where
  "small_wheel = \<lparr>t_service = (service_new Timing ''native'')\<lparr>s_flags := Running\<rparr>, t_maxTime = 2,
     t_resolution = 1, t_maxQuantum = 2, t_current = 0, t_table = [[], []], t_events = [], t_temporary = []\<rparr>"

lemma small_wheel_ok: "wheel_ok small_wheel"
  by (simp add: wheel_ok_def small_wheel_def)

lemma small_wheel_empty: "pending small_wheel = {#}"
proof -
  have "{..<Suc (Suc 0)} = {0, Suc 0}" by auto
  then show ?thesis by (simp add: pending_def table_pending_def small_wheel_def)
qed

lemma small_wheel_activate:
  "1 \<le> ev_timeout e \<Longrightarrow> ev_timeout e \<le> 2 \<Longrightarrow>
   time_activate now (Some e) small_wheel = Inr (store now e small_wheel)"
  by (simp add: time_activate_def small_wheel_def)

lemma small_quanta: "quanta_of small_wheel e = nat (ev_timeout e)"
  by (simp add: quanta_of_def small_wheel_def)

lemma small_store:
  "ev_timeout e = 1 \<Longrightarrow> store now e small_wheel =
     small_wheel\<lparr>t_table := [[], [restarted now e]], t_events := [(ev_id e, Slot 1)]\<rparr>"
  by (simp add: store_def restarted_def index_quantum_def quanta_of_def small_wheel_def Let_def)

theorem event_fires_on_time_witness:
  "times_fired 7 (run_ticks [(1, \<lambda>i. 1), (2, \<lambda>i. 2), (3, \<lambda>i. 3)]
      (store 5 (clock_new 7 1) small_wheel) ! 2) = 1"
  using event_fires_on_time [OF small_wheel_ok small_wheel_activate, of "clock_new 7 1" 2
      "[(1, \<lambda>i. 1), (2, \<lambda>i. 2), (3, \<lambda>i. 3)]" 5]
  by (simp add: small_wheel_empty entries_def clock_new_def small_quanta)

text \<open>
  C19: The wheel refines a set of countdowns: a tick reports exactly the events whose
  countdown is one, takes one off every other countdown, and starts the countdown of a clock
  that fired again with its timeout in ticks; activating an event adds its countdown.
\<close>

theorem tick_refines_countdowns:
  assumes "wheel_ok t" "tick now clock t = (fired, u)"
  shows "wheel_ok u \<and> mset fired = {#e\<lparr>ev_end := now\<rparr>. e \<in># due (pending t)#} \<and>
     pending u = elapse (pending t) + again clock t (due (pending t)) \<and>
     (case time_activate at (Some x) t of
        Inl e \<Rightarrow> True
      | Inr v \<Rightarrow> wheel_ok v \<and> pending v = add_mset (restarted at x, Suc (quanta_of t x)) (pending t))"
proof -
  have "wheel_ok v \<and> pending v = add_mset (restarted at x, Suc (quanta_of t x)) (pending t)"
    if "time_activate at (Some x) t = Inr v" for v
    using activated [OF assms(1) that] store_result [OF assms(1)] by simp
  with tick_result [OF assms] show ?thesis by (simp split: sum.split)
qed

theorem tick_refines_countdowns_witness:
  "\<exists>fired u. tick 1 (\<lambda>i. 1) small_wheel = (fired, u) \<and> mset fired = {#} \<and> pending u = {#}"
proof -
  obtain fired u where "tick 1 (\<lambda>i. 1) small_wheel = (fired, u)" by fastforce
  with tick_refines_countdowns [OF small_wheel_ok this, of 0 "timer_new 1 1"] show ?thesis
    by (auto simp: small_wheel_empty due_def elapse_def again_def)
qed

section \<open>Cancelling and stopping\<close>

lemma erase_event_mset:
  "erase_event i es = Some ds \<Longrightarrow> \<exists>x. ev_id x = i \<and> mset es = add_mset x (mset ds)"
  by (induction es arbitrary: ds) (auto split: if_splits)

lemma table_pending_erase:
  assumes "i < length tbl" "mset (tbl ! i) = add_mset x (mset es)"
  shows "table_pending d tbl = add_mset (x, d i) (table_pending d (tbl[i := es]))"
proof -
  have "add_mset (x, d i) (table_pending d (tbl[i := es])) + {#(e, d i). e \<in># mset es#}
      = table_pending d (tbl[i := es]) + {#(e, d i). e \<in># mset (tbl ! i)#}"
    by (simp add: assms(2))
  also have "\<dots> = table_pending d tbl + {#(e, d i). e \<in># mset es#}"
    by (rule table_pending_update [OF assms(1)])
  finally show ?thesis by simp
qed

lemma map_of_delete_same: "map_of (AList.delete k al) k = None"
  by (simp add: delete_conv)

text \<open>Locations point into the wheel.\<close>

definition places_ok :: "time_service \<Rightarrow> bool" where
  "places_ok t = list_all (\<lambda>p. case snd p of Slot i \<Rightarrow> i < length (t_table t) | Temporary \<Rightarrow> True) (t_events t)"

text \<open>
  Cancelling an event that is not active changes nothing and returns false; when a call
  returns true, exactly one pending event, with that identifier, has been taken out of the
  wheel, and the identifier can be activated again.
\<close>

theorem cancel_removes_one:
  assumes "places_ok t" "time_cancel (Some e) t = Some (u, done)"
  shows "if map_of (t_events t) (ev_id e) = None then \<not> done \<and> u = t
     else done \<and> map_of (t_events u) (ev_id e) = None \<and>
       (\<exists>x r. ev_id x = ev_id e \<and> pending t = add_mset (x, r) (pending u))"
proof (cases "map_of (t_events t) (ev_id e)")
  case None
  with assms show ?thesis by (simp add: time_cancel_def)
next
  case (Some p)
  show ?thesis
  proof (cases p)
    case (Slot i)
    then have i: "i < length (t_table t)"
      using assms(1) map_of_SomeD [OF Some] by (auto simp: places_ok_def list_all_iff)
    from Some Slot assms(2) obtain es where es: "erase_event (ev_id e) (t_table t ! i) = Some es"
      and u: "u = t\<lparr>t_table := (t_table t)[i := es], t_events := AList.delete (ev_id e) (t_events t)\<rparr>" "done"
      by (auto simp: time_cancel_def)
    from erase_event_mset [OF es] obtain x where x: "ev_id x = ev_id e"
      "mset (t_table t ! i) = add_mset x (mset es)" by blast
    have "pending t = add_mset (x, distance (length (t_table t)) (t_current t) i) (pending u)"
      using table_pending_erase [OF i x(2)] by (simp add: pending_def u)
    with x u Some show ?thesis by (auto simp: map_of_delete_same)
  next
    case Temporary
    with Some assms(2) obtain es where es: "erase_event (ev_id e) (t_temporary t) = Some es"
      and u: "u = t\<lparr>t_temporary := es, t_events := AList.delete (ev_id e) (t_events t)\<rparr>" "done"
      by (auto simp: time_cancel_def)
    from erase_event_mset [OF es] obtain x where x: "ev_id x = ev_id e"
      "mset (t_temporary t) = add_mset x (mset es)" by blast
    have "pending t = add_mset (x, Suc (length (t_table t))) (pending u)"
      by (simp add: pending_def u x)
    with x u Some show ?thesis by (auto simp: map_of_delete_same)
  qed
qed

theorem cancel_removes_one_witness:
  "\<exists>u. time_cancel (Some (timer_new 7 1)) (store 5 (timer_new 7 1) small_wheel) = Some (u, True) \<and>
     map_of (t_events u) 7 = None"
proof -
  let ?t = "store 5 (timer_new 7 1) small_wheel"
  have t: "?t = small_wheel\<lparr>t_table := [[], [restarted 5 (timer_new 7 1)]], t_events := [(7, Slot 1)]\<rparr>"
    by (simp add: small_store timer_new_def)
  have p: "places_ok ?t" by (simp add: t places_ok_def)
  have "\<exists>u b. time_cancel (Some (timer_new 7 1)) ?t = Some (u, b)"
    unfolding t by (auto simp: time_cancel_def timer_new_def restarted_def)
  then obtain u b where u: "time_cancel (Some (timer_new 7 1)) ?t = Some (u, b)" by blast
  have i: "ev_id (timer_new 7 1) = 7" by (simp add: timer_new_def)
  have "map_of (t_events ?t) 7 \<noteq> None" unfolding t by simp
  with cancel_removes_one [OF p u] u i show ?thesis by simp
qed

text \<open>
  Cancelling an event of the longest timeout one tick after its activation erases it
  from a list that no longer holds it: the tick moved it from the temporary list into the
  wheel, and its location still names the temporary list.
\<close>

theorem cancel_after_turn_undefined:
  "\<exists>t u fired. time_activate 5 (Some (timer_new 7 2)) small_wheel = Inr t \<and>
     tick 6 (\<lambda>i. 0) t = (fired, u) \<and> entries 7 (pending u) \<noteq> {#} \<and>
     time_cancel (Some (timer_new 7 2)) u = None"
proof -
  let ?t = "store 5 (timer_new 7 2) small_wheel"
  obtain fired u where u: "tick 6 (\<lambda>i. 0) ?t = (fired, u)" by fastforce
  have f: "fits small_wheel (timer_new 7 2)" by (simp add: fits_def small_wheel_def timer_new_def)
  note st = store_result [OF small_wheel_ok f, of 5]
  have "entries 7 (pending ?t) = {#(restarted 5 (timer_new 7 2), 3)#}"
    by (simp add: st(4) small_wheel_empty entries_def small_quanta) (simp add: restarted_def timer_new_def)
  then have "entries 7 (pending u) \<noteq> {#}"
    using tick_entries(2) [OF st(1) u, of 7] by (simp add: elapse_def)
  moreover have "time_cancel (Some (timer_new 7 2)) u = None"
    using u by (auto simp: tick_def store_def timer_new_def small_wheel_def index_quantum_def
        quanta_of_def time_cancel_def)
  ultimately show ?thesis
    using u small_wheel_activate [of "timer_new 7 2" 5] by (auto simp: timer_new_def)
qed

lemma fire_events_fired: "fst (fire_events now clock es t) = map (\<lambda>e. e\<lparr>ev_end := now\<rparr>) es"
  by (induction es arbitrary: t) (simp_all add: Let_def case_prod_beta)

lemma tick_fired:
  "fst (tick now clock t) = map (\<lambda>e. e\<lparr>ev_end := now\<rparr>) (t_table t ! t_current t)"
  by (simp add: tick_def Let_def case_prod_beta fire_events_fired)

text \<open>
  Stopping the service forgets the identifiers but leaves the events in the wheel: no
  event counts as active any more, every countdown is kept, and a service started again
  still fires them.
\<close>

theorem stop_keeps_countdowns:
  "t_events (time_do_stop t) = [] \<and> pending (time_do_stop t) = pending t \<and>
   fst (tick now clock (time_do_stop t)) = fst (tick now clock t)"
  by (simp add: time_do_stop_def pending_def tick_fired)

section \<open>The size of the wheel\<close>

lemma quantum_loop_rounds_up:
  assumes r: "0 < resolution" and m: "0 \<le> maxTime" and b: "(maxTime + resolution - 1) div resolution < 2 ^ 31"
  shows "calculeMaxQuantum maxTime resolution = Some ((maxTime + resolution - 1) div resolution)"
proof -
  let ?q = "maxTime div resolution" and ?c = "(maxTime + resolution - 1) div resolution"
  have q0: "0 \<le> ?q" using r m by (simp add: pos_imp_zdiv_nonneg_iff)
  have qc: "?q \<le> ?c" using r by (intro zdiv_mono1) auto
  have step: "sgn maxTime * sgn resolution * (\<bar>maxTime\<bar> div \<bar>resolution\<bar>) = ?q"
    using r m by (cases "maxTime = 0") auto
  have id: "signed_take_bit 31 ?q = ?q"
    using q0 qc b by (intro signed_take_bit_int_eq_self) auto
  have e: "maxTime = ?q * resolution + maxTime mod resolution" by simp
  have "quantum_loop ?q maxTime resolution = Some ?c"
  proof (cases "maxTime mod resolution = 0")
    case True
    then have "maxTime = ?q * resolution" using e by simp
    moreover have "(q * resolution + resolution - 1) div resolution = q" for q
    proof -
      have "(resolution - 1 + q * resolution) div resolution = q + (resolution - 1) div resolution"
        using r by (intro div_mult_self1) simp
      then show ?thesis using r by (simp add: div_pos_pos_trivial algebra_simps)
    qed
    then have "?c = ?q" using \<open>maxTime = ?q * resolution\<close> by metis
    ultimately show ?thesis using b by (subst quantum_loop.simps) simp
  next
    case False
    then have f: "0 < maxTime mod resolution" "maxTime mod resolution < resolution"
      using r pos_mod_sign [of resolution maxTime] pos_mod_bound [of resolution maxTime] by linarith+
    have c: "?c = ?q + 1"
    proof -
      have "maxTime + resolution - 1 = (maxTime mod resolution - 1) + (?q + 1) * resolution"
        using e by (simp add: algebra_simps)
      moreover have "(maxTime mod resolution - 1) div resolution = 0" using f by (simp add: div_pos_pos_trivial)
      ultimately show ?thesis using r by (simp only: div_mult_self3) simp
    qed
    have "?q * resolution < maxTime" using e f(1) by linarith
    moreover have "(?q + 1) * resolution = ?q * resolution + resolution" by (simp only: distrib_right mult_1)
    then have "\<not> (?q + 1) * resolution < maxTime" using e f(2) by linarith
    ultimately show ?thesis
      using b c by (subst quantum_loop.simps, simp, subst quantum_loop.simps, simp)
  qed
  then show ?thesis using r unfolding calculeMaxQuantum_def step id by simp
qed

text \<open>
  The number of quanta is the maximum time divided by the resolution, rounded up, as long
  as it fits an \<open>int\<close>: the loop ends, and a service built with a positive resolution and
  maximum time is a well-formed empty wheel that covers its maximum time.
\<close>

theorem wheel_covers_maxTime:
  assumes "0 < resolution" "0 < maxTime" "(maxTime + resolution - 1) div resolution < 2 ^ 31"
  shows "\<exists>t. time_service_new maxTime resolution = Some t \<and> wheel_ok t \<and> pending t = {#} \<and>
     t_maxQuantum t = (maxTime + resolution - 1) div resolution \<and>
     maxTime \<le> t_maxQuantum t * resolution \<and> t_maxQuantum t * resolution < maxTime + resolution"
proof -
  let ?c = "(maxTime + resolution - 1) div resolution"
  have c: "calculeMaxQuantum maxTime resolution = Some ?c"
    using assms by (intro quantum_loop_rounds_up) auto
  have "maxTime + resolution - 1 = ?c * resolution + (maxTime + resolution - 1) mod resolution" by simp
  moreover have "0 \<le> (maxTime + resolution - 1) mod resolution" "(maxTime + resolution - 1) mod resolution < resolution"
    using assms by simp_all
  ultimately have b: "maxTime \<le> ?c * resolution" "?c * resolution < maxTime + resolution" by linarith+
  have p: "0 < ?c" using b(1) assms by (metis less_le_trans mult_le_0_iff not_le order_less_imp_le)
  have "table_pending d (replicate n []) = {#}" for d n
    unfolding table_pending_def by (rule sum.neutral) simp
  with c b p assms show ?thesis
    by (simp add: time_service_new_def wheel_ok_def pending_def list_all_iff)
qed

theorem wheel_covers_maxTime_witness:
  "\<exists>t. time_service_new 1000 300 = Some t \<and> t_maxQuantum t = 4"
  using wheel_covers_maxTime [of 300 1000] by auto

end
