(* ===== verification/DbmsData.thy ===== *)
theory DbmsData
  imports Basis Registry
begin

text \<open>
  \<open>dbms/datatype\<close>: the typed, possibly null values that go in and out of SQL statements and
  make up primary keys, and the sets of named values.

  A value is an object behind a shared pointer: the sets hold references into a heap, so
  that copies of a set share their values as they do in the code.  Floats are kept as their
  IEEE bit patterns.  What the standard library renders, hashes or parses (\<open>printf\<close> of a
  float, \<open>std::hash\<close>, \<open>strptime\<close> and \<open>mktime\<close>) and the addresses of buffers come from the
  record \<open>env\<close>.
\<close>

section \<open>Values\<close>

datatype content =
    IntegerValue cint
  | StringValue string
  | FloatValue "32 word"
  | ShortBlockValue string
  | LongBlockValue string
  | DateValue clong
  | TimeStampValue clong cint
  | MultiStringValue "string list"

datatype datatype_id =
    TypeInteger | TypeString | TypeFloat | TypeShortBlock | TypeLongBlock | TypeDate
  | TypeTimeStamp | TypeMultiString

fun type_of :: "content \<Rightarrow> datatype_id" where
  "type_of (IntegerValue i) = TypeInteger"
| "type_of (StringValue s) = TypeString"
| "type_of (FloatValue f) = TypeFloat"
| "type_of (ShortBlockValue b) = TypeShortBlock"
| "type_of (LongBlockValue b) = TypeLongBlock"
| "type_of (DateValue d) = TypeDate"
| "type_of (TimeStampValue d f) = TypeTimeStamp"
| "type_of (MultiStringValue vs) = TypeMultiString"

record data =
  d_name :: string
  d_maxSize :: nat
  d_canBeNull :: bool
  d_isNull :: bool
  d_format :: string
  d_content :: content

record env =
  float_text :: "string \<Rightarrow> 32 word \<Rightarrow> string"
  block_address :: "string \<Rightarrow> culong"
  hash_int :: "cint \<Rightarrow> culong"
  hash_float :: "32 word \<Rightarrow> culong"
  hash_string :: "string \<Rightarrow> culong"
  parse_date :: "string \<Rightarrow> string \<Rightarrow> clong option"

text \<open>An environment to evaluate with.\<close>

definition sample_env :: env where
  "sample_env = \<lparr>float_text = (\<lambda>fmt x. ''0''), block_address = (\<lambda>b. 0), hash_int = (\<lambda>i. ucast i),
     hash_float = (\<lambda>f. ucast f), hash_string = (\<lambda>s. of_nat (length s)), parse_date = (\<lambda>s fmt. None)\<rparr>"

abbreviation getType :: "data \<Rightarrow> datatype_id" where "getType d \<equiv> type_of (d_content d)"

text \<open>The constructors: a value that can be null starts as null.\<close>

definition data_new :: "string \<Rightarrow> nat \<Rightarrow> bool \<Rightarrow> content \<Rightarrow> data" where
  "data_new name maxSize canBeNull c =
     \<lparr>d_name = name, d_maxSize = maxSize, d_canBeNull = canBeNull, d_isNull = canBeNull,
      d_format = ''%f'', d_content = c\<rparr>"

definition integer_new :: "string \<Rightarrow> bool \<Rightarrow> data" where
  "integer_new name canBeNull = data_new name 4 canBeNull (IntegerValue 0)"

definition string_new :: "string \<Rightarrow> nat \<Rightarrow> bool \<Rightarrow> data" where
  "string_new name maxSize canBeNull = data_new name maxSize canBeNull (StringValue '''')"

definition float_new :: "string \<Rightarrow> bool \<Rightarrow> string \<Rightarrow> data" where
  "float_new name canBeNull format = (data_new name 4 canBeNull (FloatValue 0))\<lparr>d_format := format\<rparr>"

definition shortblock_new :: "string \<Rightarrow> nat \<Rightarrow> bool \<Rightarrow> data" where
  "shortblock_new name maxSize canBeNull = data_new name maxSize canBeNull (ShortBlockValue [])"

definition longblock_new :: "string \<Rightarrow> bool \<Rightarrow> data" where
  "longblock_new name canBeNull = data_new name 0 canBeNull (LongBlockValue [])"

definition MaxDateSize :: nat where "MaxDateSize = 48"

definition date_new :: "string \<Rightarrow> bool \<Rightarrow> data" where
  "date_new name canBeNull = data_new name MaxDateSize canBeNull (DateValue 0)"

definition timestamp_new :: "string \<Rightarrow> bool \<Rightarrow> data" where
  "timestamp_new name canBeNull = data_new name MaxDateSize canBeNull (TimeStampValue 0 0)"

definition multistring_new :: "string \<Rightarrow> bool \<Rightarrow> data" where
  "multistring_new name canBeNull = data_new name 0 canBeNull (MultiStringValue [])"

definition hasValue :: "data \<Rightarrow> bool" where "hasValue d = (\<not> d_isNull d)"

definition abstract_as_string :: "data \<Rightarrow> string" where
  "abstract_as_string d =
     ''datatype.Abstract { Name='' @ d_name d @ '' | IsNull='' @ as_string_bool (d_isNull d)
     @ '' | Constraint='' @ (if d_canBeNull d then ''CanBeNull'' else ''CanNotBeNull'') @ '' }''"

fun quoted_values :: "string list \<Rightarrow> string" where
  "quoted_values [] = ''''"
| "quoted_values [v] = CHR 0x27 # v @ [CHR 0x27]"
| "quoted_values (v # vs) = CHR 0x27 # v @ [CHR 0x27] @ '' '' @ quoted_values vs"

definition integer_as_string :: "data \<Rightarrow> cint \<Rightarrow> string" where
  "integer_as_string d i =
     ''datatype.Integer { '' @ abstract_as_string d
     @ (if hasValue d then '' | Value='' @ as_string_int i else '''') @ '' }''"

definition string_as_string :: "data \<Rightarrow> string \<Rightarrow> string" where
  "string_as_string d s =
     ''datatype.String { '' @ abstract_as_string d @ '' | MaxSize='' @ dec (d_maxSize d)
     @ (if hasValue d then '' | Value='' @ [CHR 0x27] @ s @ [CHR 0x27] else '''') @ '' }''"

definition float_as_string :: "env \<Rightarrow> data \<Rightarrow> 32 word \<Rightarrow> string" where
  "float_as_string env d f =
     ''datatype.Float { '' @ abstract_as_string d
     @ (if hasValue d then '' | Value='' @ float_text env (d_format d) f else '''') @ '' }''"

definition shortblock_as_string :: "env \<Rightarrow> data \<Rightarrow> string \<Rightarrow> string" where
  "shortblock_as_string env d b =
     ''datatype.ShortBlock { '' @ abstract_as_string d @ '' | MaxSize='' @ dec (d_maxSize d)
     @ (if hasValue d
        then '' | Buffer='' @ as_hex_int64 (block_address env (d_name d)) @ '' | Size='' @ dec (length b)
        else '''') @ '' }''"

definition longblock_as_string :: "data \<Rightarrow> string \<Rightarrow> string" where
  "longblock_as_string d b =
     ''datatype.LongBlock { '' @ abstract_as_string d @ '' | MaxSize='' @ dec (d_maxSize d)
     @ (if hasValue d then '' | Buffer='' @ as_hex_int64 0 @ '' | Size='' @ dec (length b) else '''')
     @ '' }''"

definition date_as_string :: "data \<Rightarrow> clong \<Rightarrow> string" where
  "date_as_string d t =
     ''datatype.Date { '' @ abstract_as_string d
     @ (if hasValue d then '' | Value='' @ [CHR 0x27] @ as_string_seconds t @ [CHR 0x27] else '''') @ '' }''"

definition multistring_as_string :: "data \<Rightarrow> string list \<Rightarrow> string" where
  "multistring_as_string d vs =
     ''datatype.MultiString { '' @ abstract_as_string d @ '' | Values={'' @ quoted_values vs @ ''}'' @ '' }''"

text \<open>The virtual \<open>asString\<close>; a time stamp has that of a date.\<close>

definition data_as_string :: "env \<Rightarrow> data \<Rightarrow> string" where
  "data_as_string env d =
     (case d_content d of
        IntegerValue i \<Rightarrow> integer_as_string d i
      | StringValue s \<Rightarrow> string_as_string d s
      | FloatValue f \<Rightarrow> float_as_string env d f
      | ShortBlockValue b \<Rightarrow> shortblock_as_string env d b
      | LongBlockValue b \<Rightarrow> longblock_as_string d b
      | DateValue t \<Rightarrow> date_as_string d t
      | TimeStampValue t f \<Rightarrow> date_as_string d t
      | MultiStringValue vs \<Rightarrow> multistring_as_string d vs)"

section \<open>Setting and clearing\<close>

text \<open>\<open>asString\<close> is virtual: the text of the exception is that of the concrete type.\<close>

definition isNull :: "env \<Rightarrow> data \<Rightarrow> data outcome" where
  "isNull env d =
     (if \<not> d_canBeNull d
      then Inl (RuntimeException (data_as_string env d @ '' | Data can not be NULL''))
      else Inr (d\<lparr>d_isNull := True\<rparr>))"

fun do_clear :: "content \<Rightarrow> content" where
  "do_clear (IntegerValue i) = IntegerValue 0"
| "do_clear (StringValue s) = StringValue ''''"
| "do_clear (FloatValue f) = FloatValue 0"
| "do_clear (ShortBlockValue b) = ShortBlockValue []"
| "do_clear (LongBlockValue b) = LongBlockValue []"
| "do_clear (DateValue t) = DateValue 0"
| "do_clear (TimeStampValue t f) = TimeStampValue 0 0"
| "do_clear (MultiStringValue vs) = MultiStringValue []"

definition data_clear :: "data \<Rightarrow> data" where
  "data_clear d = d\<lparr>d_isNull := (if d_canBeNull d then True else d_isNull d), d_content := do_clear (d_content d)\<rparr>"

definition put_value :: "content \<Rightarrow> data \<Rightarrow> data" where
  "put_value c d = d\<lparr>d_content := c, d_isNull := False\<rparr>"

definition exceptionWhenIsNull :: "data \<Rightarrow> unit outcome" where
  "exceptionWhenIsNull d =
     (if d_isNull d
      then Inl (RuntimeException (''Data '' @ [CHR 0x27] @ d_name d @ [CHR 0x27]
              @ '' is null and it can not return any value''))
      else Inr ())"

text \<open>\<open>String::setValue\<close>: a null pointer is \<open>None\<close>.\<close>

definition string_set :: "env \<Rightarrow> string option \<Rightarrow> data \<Rightarrow> data outcome" where
  "string_set env str d =
     (case str of
        None \<Rightarrow> (case isNull env d of Inl e \<Rightarrow> Inl e | Inr d1 \<Rightarrow> Inr (data_clear d1))
      | Some s \<Rightarrow>
          if length (c_str s) > d_maxSize d
          then Inl (RuntimeException ([CHR 0x27] @ c_str s @ [CHR 0x27] @ '' out of range | MaxLen=''
                 @ dec (d_maxSize d) @ '' | Len='' @ dec (length (c_str s))))
          else Inr (put_value (StringValue (c_str s)) d))"

definition shortblock_set :: "string \<Rightarrow> data \<Rightarrow> data outcome" where
  "shortblock_set b d =
     (if length b > d_maxSize d
      then Inl (RuntimeException (''Block out of range ('' @ dec (d_maxSize d) @ '' and '' @ dec (length b)))
      else Inr (put_value (ShortBlockValue b) d))"

definition longblock_set :: "string \<Rightarrow> data \<Rightarrow> data" where
  "longblock_set b d = put_value (LongBlockValue b) d"

fun with_seconds :: "clong \<Rightarrow> content \<Rightarrow> content" where
  "with_seconds t (TimeStampValue u f) = TimeStampValue t f"
| "with_seconds t c = DateValue t"

definition date_set :: "clong \<Rightarrow> data \<Rightarrow> data" where
  "date_set t d = put_value (with_seconds t (d_content d)) d"

text \<open>The text form clears the value first, whatever happens then.\<close>

definition date_set_text :: "env \<Rightarrow> string \<Rightarrow> string option \<Rightarrow> data \<Rightarrow> data \<times> unit outcome" where
  "date_set_text env str format d =
     (let d1 = data_clear d in
      case format of
        None \<Rightarrow> (d1, Inl (RuntimeException ''This method requires a format specification''))
      | Some fmt \<Rightarrow>
          (case parse_date env str fmt of
             None \<Rightarrow> (d1, Inl (RuntimeException ([CHR 0x27] @ str @ [CHR 0x27]
                 @ '' is not a valid date using format '' @ [CHR 0x27] @ fmt @ [CHR 0x27])))
           | Some t \<Rightarrow>
               if t = -1
               then (d1, Inl (RuntimeException ([CHR 0x27] @ str @ [CHR 0x27]
                 @ '' can not be treated as std::chrono::seconds '' @ [CHR 0x27] @ fmt @ [CHR 0x27])))
               else (date_set t d1, Inr ())))"

definition multistring_add :: "string \<Rightarrow> data \<Rightarrow> data" where
  "multistring_add v d =
     (case d_content d of MultiStringValue vs \<Rightarrow> put_value (MultiStringValue (vs @ [v])) d | _ \<Rightarrow> d)"

text \<open>
  \<open>clone\<close>: the copy of a \<open>String\<close> takes \<open>maxSize\<close> bytes, so the text of a full buffer loses
  its terminator and reading the copy is undefined (\<open>None\<close>).
\<close>

definition clone :: "data \<Rightarrow> data option" where
  "clone d =
     (case d_content d of
        StringValue s \<Rightarrow> if length s < d_maxSize d then Some d else None
      | _ \<Rightarrow> Some d)"

section \<open>Comparing\<close>

text \<open>
  The difference of two floats as \<open>Float::do_compare\<close> looks at it.  \<open>float_key\<close> orders the
  bit patterns as the numbers they stand for, infinities included; the difference is a NaN,
  which is neither zero nor negative, when one of them is, and for equal infinities.
\<close>

definition float_magnitude :: "32 word \<Rightarrow> int" where
  "float_magnitude f = uint f mod 2 ^ 31"

definition float_isnan :: "32 word \<Rightarrow> bool" where
  "float_isnan f = (float_magnitude f > 0x7F800000)"

definition float_isinf :: "32 word \<Rightarrow> bool" where
  "float_isinf f = (float_magnitude f = 0x7F800000)"

definition float_key :: "32 word \<Rightarrow> int" where
  "float_key f = (if uint f \<ge> 2 ^ 31 then - float_magnitude f else float_magnitude f)"

definition float_compare :: "32 word \<Rightarrow> 32 word \<Rightarrow> int" where
  "float_compare a b =
     (if float_isnan a \<or> float_isnan b then 1
      else if float_isinf a \<and> float_key a = float_key b then 1
      else sgn (float_key a - float_key b))"

fun strings_compare :: "string list \<Rightarrow> string list \<Rightarrow> int" where
  "strings_compare (a # as) (b # bs) = (if strcmp a b \<noteq> 0 then strcmp a b else strings_compare as bs)"
| "strings_compare as bs = 0"

definition invalid_down_cast :: "env \<Rightarrow> data \<Rightarrow> exn" where
  "invalid_down_cast env d = InvalidDataException (data_as_string env d @ '' | Invalid down cast'')"

text \<open>
  The subtraction of integers is on \<open>int\<close>, which wraps around; that of dates is on
  \<open>int64_t\<close> and its result is cut to an \<open>int\<close>, as is the difference of two sizes.
\<close>

definition integer_compare :: "cint \<Rightarrow> cint \<Rightarrow> int" where
  "integer_compare i j = sint (i - j)"

definition date_compare :: "clong \<Rightarrow> clong \<Rightarrow> int" where
  "date_compare t u = sint (ucast (t - u) :: cint)"

definition multistring_compare :: "string list \<Rightarrow> string list \<Rightarrow> int" where
  "multistring_compare vs ws =
     (let diffSize = sint (word_of_int (int (length vs) - int (length ws)) :: cint) in
      if diffSize \<noteq> 0 then diffSize else strings_compare vs ws)"

definition shortblock_compare :: "env \<Rightarrow> data \<Rightarrow> int outcome" where
  "shortblock_compare env a = Inl (RuntimeException (data_as_string env a @ '' | Can not apply''))"

definition longblock_compare :: "env \<Rightarrow> data \<Rightarrow> int outcome" where
  "longblock_compare env a = Inl (RuntimeException (data_as_string env a @ '' | Can not apply''))"

text \<open>The virtual \<open>do_compare\<close>.  \<open>compare\<close> has checked the types, so the down casts succeed.\<close>

definition do_compare :: "env \<Rightarrow> data \<Rightarrow> data \<Rightarrow> int outcome" where
  "do_compare env a b =
     (case (d_content a, d_content b) of
        (IntegerValue i, IntegerValue j) \<Rightarrow> Inr (integer_compare i j)
      | (StringValue s, StringValue t) \<Rightarrow> Inr (strcmp s t)
      | (FloatValue f, FloatValue g) \<Rightarrow> Inr (float_compare f g)
      | (ShortBlockValue x, _) \<Rightarrow> shortblock_compare env a
      | (LongBlockValue x, _) \<Rightarrow> longblock_compare env a
      | (DateValue t, DateValue u) \<Rightarrow> Inr (date_compare t u)
      | (TimeStampValue t f, TimeStampValue u g) \<Rightarrow> Inr (date_compare t u)
      | (MultiStringValue vs, MultiStringValue ws) \<Rightarrow> Inr (multistring_compare vs ws)
      | _ \<Rightarrow> Inl (invalid_down_cast env b))"

lemmas compare_defs = do_compare_def integer_compare_def date_compare_def multistring_compare_def

definition data_compare :: "env \<Rightarrow> data \<Rightarrow> data \<Rightarrow> int outcome" where
  "data_compare env a b =
     (if getType a \<noteq> getType b
      then Inl (RuntimeException (data_as_string env a @ '' type does not matches with '' @ data_as_string env b))
      else if \<not> hasValue a \<and> \<not> hasValue b then Inr 0
      else if hasValue a \<and> \<not> hasValue b then Inr 1
      else if \<not> hasValue a \<and> hasValue b then Inr (-1)
      else do_compare env a b)"

definition hash_strings :: "env \<Rightarrow> string list \<Rightarrow> culong" where
  "hash_strings env vs = fold (\<lambda>v h. xor h (hash_string env v)) vs (of_nat (length vs))"

definition data_hash :: "env \<Rightarrow> data \<Rightarrow> culong" where
  "data_hash env d =
     (case d_content d of
        IntegerValue i \<Rightarrow> hash_int env i
      | StringValue s \<Rightarrow> hash_string env s
      | FloatValue f \<Rightarrow> hash_float env f
      | ShortBlockValue b \<Rightarrow> of_nat (length b)
      | LongBlockValue b \<Rightarrow> of_nat (length b)
      | DateValue t \<Rightarrow> t
      | TimeStampValue t f \<Rightarrow> t
      | MultiStringValue vs \<Rightarrow> hash_strings env vs)"

section \<open>Sets of named values\<close>

text \<open>
  \<open>m_datas\<close> and \<open>m_creationOrder\<close> hold the same entries in the same order until \<open>clear\<close>,
  which empties the first only: the iterators it leaves behind dangle.  \<open>set_stale\<close> counts
  them; using one is undefined (\<open>None\<close>).
\<close>

type_synonym heap = "nat \<Rightarrow> data"

record data_set =
  set_datas :: "(string \<times> nat) list"
  set_stale :: nat

definition set_new :: data_set where
  "set_new = \<lparr>set_datas = [], set_stale = 0\<rparr>"

definition set_clear :: "data_set \<Rightarrow> data_set" where
  "set_clear s = \<lparr>set_datas = [], set_stale = set_stale s + length (set_datas s)\<rparr>"

definition insert_named :: "string \<times> nat \<Rightarrow> data_set \<Rightarrow> data_set outcome" where
  "insert_named p s =
     (if map_of (set_datas s) (fst p) \<noteq> None
      then Inl (RuntimeException (fst p @ '' already defined''))
      else Inr (s\<lparr>set_datas := set_datas s @ [p]\<rparr>))"

definition set_insert :: "heap \<Rightarrow> nat option \<Rightarrow> data_set \<Rightarrow> data_set outcome" where
  "set_insert h r s =
     (case r of
        None \<Rightarrow> Inl (RuntimeException ''data must be initialized'')
      | Some ref \<Rightarrow> insert_named (c_str (d_name (h ref)), ref) s)"

definition set_find :: "string \<Rightarrow> data_set \<Rightarrow> nat outcome" where
  "set_find name s =
     (case map_of (set_datas s) name of
        None \<Rightarrow> Inl (RuntimeException (name @ '' is not defined''))
      | Some ref \<Rightarrow> Inr ref)"

definition set_contains :: "string \<Rightarrow> data_set \<Rightarrow> bool" where
  "set_contains name s = (map_of (set_datas s) name \<noteq> None)"

definition set_size :: "data_set \<Rightarrow> nat" where
  "set_size s = length (set_datas s)"

fun insert_all :: "(string \<times> nat) list \<Rightarrow> data_set \<Rightarrow> data_set outcome" where
  "insert_all [] s = Inr s"
| "insert_all (p # ps) s = (case insert_named p s of Inl e \<Rightarrow> Inl e | Inr s1 \<Rightarrow> insert_all ps s1)"

definition set_copy :: "data_set \<Rightarrow> data_set outcome option" where
  "set_copy other =
     (if set_stale other > 0 then None else Some (insert_all (set_datas other) set_new))"

definition set_assign :: "bool \<Rightarrow> data_set \<Rightarrow> data_set \<Rightarrow> data_set outcome option" where
  "set_assign same other s =
     (if same then Some (Inr s)
      else if set_stale other > 0 then None
      else Some (insert_all (set_datas other) set_new))"

fun compare_members ::
    "env \<Rightarrow> heap \<Rightarrow> data_set \<Rightarrow> (string \<times> nat) list \<Rightarrow> int outcome" where
  "compare_members env h other [] = Inr 0"
| "compare_members env h other (p # ps) =
     (case set_find (fst p) other of
        Inl e \<Rightarrow> Inl e
      | Inr ref \<Rightarrow>
          (case data_compare env (h (snd p)) (h ref) of
             Inl e \<Rightarrow> Inl e
           | Inr r \<Rightarrow> if r \<noteq> 0 then Inr r else compare_members env h other ps))"

definition set_compare :: "env \<Rightarrow> heap \<Rightarrow> bool \<Rightarrow> data_set \<Rightarrow> data_set \<Rightarrow> int outcome option" where
  "set_compare env h same s other =
     (if same then Some (Inr 0)
      else if set_size s \<noteq> set_size other
      then Some (Inl (RuntimeException
             (''Can not compare sets with different number of components | N-Size='' @ dec (set_size s)
              @ '' | other-Size='' @ dec (set_size other))))
      else if set_stale s > 0 then None
      else Some (compare_members env h other (set_datas s)))"

definition set_equal :: "env \<Rightarrow> heap \<Rightarrow> bool \<Rightarrow> data_set \<Rightarrow> data_set \<Rightarrow> bool option" where
  "set_equal env h same s other =
     map_option (\<lambda>r. case r of Inl e \<Rightarrow> False | Inr c \<Rightarrow> c = 0) (set_compare env h same s other)"

section \<open>Reading and writing the members of a set\<close>

text \<open>\<open>downcast\<close> accepts the objects of the class and of the classes derived from it.\<close>

definition downcast :: "env \<Rightarrow> datatype_id list \<Rightarrow> data \<Rightarrow> data outcome" where
  "downcast env types d = (if getType d \<in> set types then Inr d else Inl (invalid_down_cast env d))"

definition set_member :: "env \<Rightarrow> heap \<Rightarrow> datatype_id list \<Rightarrow> string \<Rightarrow> data_set \<Rightarrow> (nat \<times> data) outcome" where
  "set_member env h types name s =
     (case set_find name s of
        Inl e \<Rightarrow> Inl e
      | Inr ref \<Rightarrow> (case downcast env types (h ref) of Inl e \<Rightarrow> Inl e | Inr d \<Rightarrow> Inr (ref, d)))"

definition member_value :: "env \<Rightarrow> heap \<Rightarrow> datatype_id list \<Rightarrow> string \<Rightarrow> data_set \<Rightarrow> content outcome" where
  "member_value env h types name s =
     (case set_member env h types name s of
        Inl e \<Rightarrow> Inl e
      | Inr (ref, d) \<Rightarrow> (case exceptionWhenIsNull d of Inl e \<Rightarrow> Inl e | Inr u \<Rightarrow> Inr (d_content d)))"

fun map_outcome :: "('a \<Rightarrow> 'b) \<Rightarrow> 'a outcome \<Rightarrow> 'b outcome" where
  "map_outcome f (Inl e) = Inl e"
| "map_outcome f (Inr x) = Inr (f x)"

fun integer_of :: "content \<Rightarrow> cint" where
  "integer_of (IntegerValue i) = i" | "integer_of c = 0"

fun string_of :: "content \<Rightarrow> string" where
  "string_of (StringValue s) = s" | "string_of c = ''''"

fun float_of :: "content \<Rightarrow> 32 word" where
  "float_of (FloatValue f) = f" | "float_of c = 0"

fun block_of :: "content \<Rightarrow> string" where
  "block_of (ShortBlockValue b) = b" | "block_of (LongBlockValue b) = b" | "block_of c = []"

fun seconds_of :: "content \<Rightarrow> clong" where
  "seconds_of (DateValue t) = t" | "seconds_of (TimeStampValue t f) = t" | "seconds_of c = 0"

definition getInteger :: "env \<Rightarrow> heap \<Rightarrow> string \<Rightarrow> data_set \<Rightarrow> cint outcome" where
  "getInteger env h name s = map_outcome integer_of (member_value env h [TypeInteger] name s)"

definition getString :: "env \<Rightarrow> heap \<Rightarrow> string \<Rightarrow> data_set \<Rightarrow> string outcome" where
  "getString env h name s = map_outcome string_of (member_value env h [TypeString] name s)"

definition getFloat :: "env \<Rightarrow> heap \<Rightarrow> string \<Rightarrow> data_set \<Rightarrow> 32 word outcome" where
  "getFloat env h name s = map_outcome float_of (member_value env h [TypeFloat] name s)"

definition getDataBlock :: "env \<Rightarrow> heap \<Rightarrow> string \<Rightarrow> data_set \<Rightarrow> string outcome" where
  "getDataBlock env h name s =
     (case set_find name s of
        Inl e \<Rightarrow> Inl e
      | Inr ref \<Rightarrow>
          if getType (h ref) = TypeLongBlock
          then map_outcome block_of (member_value env h [TypeLongBlock] name s)
          else map_outcome block_of (member_value env h [TypeShortBlock] name s))"

definition getDate :: "env \<Rightarrow> heap \<Rightarrow> string \<Rightarrow> data_set \<Rightarrow> clong outcome" where
  "getDate env h name s = map_outcome seconds_of (member_value env h [TypeDate, TypeTimeStamp] name s)"

definition write_member ::
    "env \<Rightarrow> datatype_id list \<Rightarrow> (data \<Rightarrow> data outcome) \<Rightarrow> string \<Rightarrow> data_set \<Rightarrow> heap \<Rightarrow> heap \<times> unit outcome" where
  "write_member env types f name s h =
     (case set_member env h types name s of
        Inl e \<Rightarrow> (h, Inl e)
      | Inr (ref, d) \<Rightarrow> (case f d of Inl e \<Rightarrow> (h, Inl e) | Inr d1 \<Rightarrow> (h(ref := d1), Inr ())))"

definition setInteger :: "env \<Rightarrow> string \<Rightarrow> cint \<Rightarrow> data_set \<Rightarrow> heap \<Rightarrow> heap \<times> unit outcome" where
  "setInteger env name i = write_member env [TypeInteger] (\<lambda>d. Inr (put_value (IntegerValue i) d)) name"

definition setString :: "env \<Rightarrow> string \<Rightarrow> string \<Rightarrow> data_set \<Rightarrow> heap \<Rightarrow> heap \<times> unit outcome" where
  "setString env name v = write_member env [TypeString] (string_set env (Some v)) name"

definition setFloat :: "env \<Rightarrow> string \<Rightarrow> 32 word \<Rightarrow> data_set \<Rightarrow> heap \<Rightarrow> heap \<times> unit outcome" where
  "setFloat env name f = write_member env [TypeFloat] (\<lambda>d. Inr (put_value (FloatValue f) d)) name"

definition setDataBlock :: "env \<Rightarrow> string \<Rightarrow> string \<Rightarrow> data_set \<Rightarrow> heap \<Rightarrow> heap \<times> unit outcome" where
  "setDataBlock env name b s h =
     (case set_find name s of
        Inl e \<Rightarrow> (h, Inl e)
      | Inr ref \<Rightarrow>
          if getType (h ref) = TypeLongBlock
          then write_member env [TypeLongBlock] (\<lambda>d. Inr (longblock_set b d)) name s h
          else write_member env [TypeShortBlock] (shortblock_set b) name s h)"

definition setDate :: "env \<Rightarrow> string \<Rightarrow> clong \<Rightarrow> data_set \<Rightarrow> heap \<Rightarrow> heap \<times> unit outcome" where
  "setDate env name t = write_member env [TypeDate, TypeTimeStamp] (\<lambda>d. Inr (date_set t d)) name"

section \<open>Values keep their type\<close>

definition wf_data :: "data \<Rightarrow> bool" where
  "wf_data d \<longleftrightarrow>
     (d_isNull d \<longrightarrow> d_canBeNull d) \<and>
     (case d_content d of
        StringValue s \<Rightarrow> length s \<le> d_maxSize d \<and> NUL \<notin> set s
      | ShortBlockValue b \<Rightarrow> length b \<le> d_maxSize d
      | _ \<Rightarrow> True)"

definition same_schema :: "data \<Rightarrow> data \<Rightarrow> bool" where
  "same_schema d e \<longleftrightarrow>
     d_name e = d_name d \<and> d_maxSize e = d_maxSize d \<and> d_canBeNull e = d_canBeNull d \<and> getType e = getType d"

lemma type_do_clear [simp]: "type_of (do_clear c) = type_of c"
  by (cases c) auto

lemma type_with_seconds:
  "type_of c \<in> {TypeDate, TypeTimeStamp} \<Longrightarrow> type_of (with_seconds t c) = type_of c"
  by (cases c) auto

lemma same_schema_refl [simp]: "same_schema d d"
  by (simp add: same_schema_def)

lemma same_schema_trans: "same_schema a b \<Longrightarrow> same_schema b c \<Longrightarrow> same_schema a c"
  by (simp add: same_schema_def)

lemma wf_new:
  "wf_data (integer_new n b)" "wf_data (string_new n m b)" "wf_data (float_new n b f)"
  "wf_data (shortblock_new n m b)" "wf_data (longblock_new n b)" "wf_data (date_new n b)"
  "wf_data (timestamp_new n b)" "wf_data (multistring_new n b)"
  by (simp_all add: wf_data_def data_new_def integer_new_def string_new_def float_new_def
      shortblock_new_def longblock_new_def date_new_def timestamp_new_def multistring_new_def)

lemma wf_clear: "wf_data d \<Longrightarrow> wf_data (data_clear d) \<and> same_schema d (data_clear d)"
  by (cases "d_content d") (auto simp: wf_data_def data_clear_def same_schema_def)

lemma wf_isNull: "wf_data d \<Longrightarrow> isNull env d = Inr e \<Longrightarrow> wf_data e \<and> same_schema d e"
  by (cases "d_content d") (auto simp: wf_data_def isNull_def same_schema_def split: if_splits)

lemma wf_put:
  "wf_data d \<Longrightarrow> type_of c = getType d \<Longrightarrow>
   (case c of StringValue s \<Rightarrow> length s \<le> d_maxSize d \<and> NUL \<notin> set s
    | ShortBlockValue b \<Rightarrow> length b \<le> d_maxSize d | _ \<Rightarrow> True) \<Longrightarrow>
   wf_data (put_value c d) \<and> same_schema d (put_value c d)"
  by (cases c) (auto simp: wf_data_def put_value_def same_schema_def)

lemma wf_string_set:
  assumes d: "wf_data d" and ty: "getType d = TypeString" and set: "string_set env str d = Inr e"
  shows "wf_data e \<and> same_schema d e"
proof (cases str)
  case None
  with set obtain d1 where d1: "isNull env d = Inr d1" and e: "e = data_clear d1"
    by (auto simp: string_set_def split: sum.splits)
  from wf_isNull [OF d d1] wf_clear [of d1] show ?thesis
    unfolding e by (blast intro: same_schema_trans)
next
  case (Some s)
  with set have "e = put_value (StringValue (c_str s)) d" "length (c_str s) \<le> d_maxSize d"
    by (auto simp: string_set_def split: if_splits)
  then show ?thesis using d ty wf_put [of d "StringValue (c_str s)"] by simp
qed

lemma wf_shortblock_set:
  "wf_data d \<Longrightarrow> getType d = TypeShortBlock \<Longrightarrow> shortblock_set b d = Inr e \<Longrightarrow> wf_data e \<and> same_schema d e"
  by (auto simp: shortblock_set_def wf_put split: if_splits)

lemma wf_date_set:
  "wf_data d \<Longrightarrow> getType d \<in> {TypeDate, TypeTimeStamp} \<Longrightarrow> wf_data (date_set t d) \<and> same_schema d (date_set t d)"
  unfolding date_set_def by (rule wf_put) (cases "d_content d"; simp)+

text \<open>The calls a client can make on a value.\<close>

datatype data_call =
    CallClear
  | CallIsNull
  | CallSetInteger cint
  | CallSetString "string option"
  | CallSetFloat "32 word"
  | CallSetShortBlock string
  | CallSetLongBlock string
  | CallSetDate clong
  | CallSetDateText string "string option"
  | CallAddValue string

fun keep_or :: "data \<Rightarrow> data outcome \<Rightarrow> data" where
  "keep_or d (Inl e) = d"
| "keep_or d (Inr e) = e"

text \<open>A call of a method the class of the value does not have is no call: it leaves the value.\<close>

fun call_data :: "env \<Rightarrow> data_call \<Rightarrow> data \<Rightarrow> data" where
  "call_data env CallClear d = data_clear d"
| "call_data env CallIsNull d = keep_or d (isNull env d)"
| "call_data env (CallSetInteger i) d =
     (if getType d = TypeInteger then put_value (IntegerValue i) d else d)"
| "call_data env (CallSetString s) d =
     (if getType d = TypeString then keep_or d (string_set env s d) else d)"
| "call_data env (CallSetFloat f) d = (if getType d = TypeFloat then put_value (FloatValue f) d else d)"
| "call_data env (CallSetShortBlock b) d =
     (if getType d = TypeShortBlock then keep_or d (shortblock_set b d) else d)"
| "call_data env (CallSetLongBlock b) d = (if getType d = TypeLongBlock then longblock_set b d else d)"
| "call_data env (CallSetDate t) d =
     (if getType d \<in> {TypeDate, TypeTimeStamp} then date_set t d else d)"
| "call_data env (CallSetDateText s f) d =
     (if getType d \<in> {TypeDate, TypeTimeStamp} then fst (date_set_text env s f d) else d)"
| "call_data env (CallAddValue v) d = (if getType d = TypeMultiString then multistring_add v d else d)"

lemma call_data_wf: "wf_data d \<Longrightarrow> wf_data (call_data env c d) \<and> same_schema d (call_data env c d)"
proof (cases c)
  case CallIsNull
  assume "wf_data d"
  with CallIsNull show ?thesis by (cases "isNull env d") (auto dest: wf_isNull)
next
  case (CallSetString s)
  assume "wf_data d"
  with CallSetString show ?thesis by (cases "string_set env s d") (auto dest: wf_string_set)
next
  case (CallSetShortBlock b)
  assume "wf_data d"
  with CallSetShortBlock show ?thesis by (cases "shortblock_set b d") (auto dest: wf_shortblock_set)
next
  case (CallSetDateText s f)
  assume d: "wf_data d"
  have "wf_data (date_set t (data_clear d)) \<and> same_schema d (date_set t (data_clear d))"
    if "getType d \<in> {TypeDate, TypeTimeStamp}" for t
    using that d wf_clear [OF d] wf_date_set [of "data_clear d"]
    by (auto simp: same_schema_def)
  with CallSetDateText d wf_clear [OF d] show ?thesis
    by (auto simp: date_set_text_def Let_def split: option.splits)
next
  case (CallAddValue v)
  assume "wf_data d"
  with CallAddValue show ?thesis
    by (cases "d_content d") (auto simp: multistring_add_def wf_put)
qed (auto simp: wf_clear wf_put wf_date_set longblock_set_def)

text \<open>
  C34: Whatever is called on a value, in any order and whether the calls throw or not, it
  keeps its name, type, nullability and maximum size; strings and short blocks never grow
  past the maximum size, strings hold no NUL, and only a nullable value is ever null.
\<close>

theorem data_stays_typed:
  assumes "wf_data d"
  shows "wf_data (fold (call_data env) cs d) \<and> same_schema d (fold (call_data env) cs d)"
  using assms
proof (induction cs arbitrary: d)
  case Nil
  then show ?case by simp
next
  case (Cons c cs)
  with call_data_wf [OF Cons.prems] Cons.IH [of "call_data env c d"] show ?case
    by (auto intro: same_schema_trans)
qed

theorem data_stays_typed_witness:
  "d_content (fold (call_data sample_env) [CallSetString (Some ''ab''), CallSetString (Some ''abcd'')]
     (string_new ''s'' 3 True)) = StringValue ''ab'' \<and>
   wf_data (fold (call_data sample_env) [CallSetString (Some ''ab''), CallSetString (Some ''abcd'')]
     (string_new ''s'' 3 True))"
  using data_stays_typed [OF wf_new(2), of sample_env "[CallSetString (Some ''ab''), CallSetString (Some ''abcd'')]" "''s''" 3 True]
  by (simp add: string_new_def data_new_def string_set_def c_str_def put_value_def)

section \<open>A set is a registry\<close>

definition set_lookup :: "string \<Rightarrow> data_set \<Rightarrow> (string \<times> nat) option" where
  "set_lookup name s = map_option (\<lambda>ref. (name, ref)) (to_option (set_find name s))"

lemma insert_named_ok:
  "insert_named p s = Inr s' \<longleftrightarrow> fst p \<notin> fst ` set (set_datas s) \<and> s' = s\<lparr>set_datas := set_datas s @ [p]\<rparr>"
  by (auto simp: insert_named_def map_of_eq_None_iff)

interpretation data_sets: open_registry set_datas fst "\<lambda>p s. to_option (insert_named p s)" set_lookup
  by unfold_locales
    (auto simp: insert_named_ok insert_named_def set_lookup_def set_find_def map_of_eq_None_iff
      image_iff split: option.splits if_splits dest: map_of_SomeD)

text \<open>
  Copying a set that was never cleared gives a set with the same members: the same names
  in the same order, bound to the same objects.  What is written through one of the two
  sets is read through the other.
\<close>

lemma insert_all_append:
  "distinct_keys fst (set_datas s @ ps) \<Longrightarrow> insert_all ps s = Inr (s\<lparr>set_datas := set_datas s @ ps\<rparr>)"
proof (induction ps arbitrary: s)
  case (Cons p ps)
  then have "insert_named p s = Inr (s\<lparr>set_datas := set_datas s @ [p]\<rparr>)"
    by (auto simp: insert_named_ok distinct_keys_def)
  with Cons show ?case by simp
qed simp

lemma set_copy_same:
  "set_stale s = 0 \<Longrightarrow> distinct_keys fst (set_datas s) \<Longrightarrow> set_copy s = Some (Inr s)"
  using insert_all_append [of set_new "set_datas s"] by (simp add: set_copy_def set_new_def)

end
