(* ===== verification/DbmsOrder.thy ===== *)
theory DbmsOrder
  imports DbmsData
begin

text \<open>
  The orders of \<open>dbms/datatype\<close>: what \<open>Abstract::compare\<close> and \<open>Set::compare\<close> promise where
  they do not throw, as the interface \<open>comparison\<close>.  The interface is interpreted on the
  comparison of values, lifted to lists, and interpreted again on the comparison of sets.
\<close>

section \<open>The interface\<close>

locale comparison =
  fixes comparable :: "'a \<Rightarrow> 'a \<Rightarrow> bool"
    and compare :: "'a \<Rightarrow> 'a \<Rightarrow> int outcome"
    and value_of :: "'a \<Rightarrow> 'v"
  assumes comparable_sym: "comparable a b \<Longrightarrow> comparable b a"
    and comparable_trans: "comparable a b \<Longrightarrow> comparable b c \<Longrightarrow> comparable a c"
    and returns: "comparable a b \<Longrightarrow> \<exists>r. compare a b = Inr r"
    and zero: "comparable a b \<Longrightarrow> compare a b = Inr 0 \<longleftrightarrow> value_of a = value_of b"
    and antisym: "comparable a b \<Longrightarrow> compare a b = Inr r \<Longrightarrow> compare b a = Inr q \<Longrightarrow> sgn q = - sgn r"
    and less_trans: "comparable a b \<Longrightarrow> comparable b c \<Longrightarrow> compare a b = Inr r \<Longrightarrow> compare b c = Inr q
      \<Longrightarrow> compare a c = Inr p \<Longrightarrow> r < 0 \<Longrightarrow> q < 0 \<Longrightarrow> p < 0"
    and equal_left: "comparable a b \<Longrightarrow> comparable b c \<Longrightarrow> compare a b = Inr 0 \<Longrightarrow> compare b c = Inr q
      \<Longrightarrow> compare a c = Inr p \<Longrightarrow> sgn p = sgn q"
begin

lemma returns2:
  assumes "comparable a b"
  obtains r q where "compare a b = Inr r" "compare b a = Inr q" "sgn q = - sgn r"
proof -
  from returns [OF assms] obtain r where r: "compare a b = Inr r" by auto
  from returns [OF comparable_sym [OF assms]] obtain q where q: "compare b a = Inr q" by auto
  from that [OF r q antisym [OF assms r q]] show thesis .
qed

lemma equal_right:
  assumes ab: "comparable a b" and bc: "comparable b c" and r: "compare a b = Inr r"
    and q: "compare b c = Inr 0" and p: "compare a c = Inr p"
  shows "sgn p = sgn r"
proof -
  note ca = comparable_sym [OF comparable_trans [OF ab bc]]
  from returns2 [OF ab] r obtain r' where r': "compare b a = Inr r'" "sgn r' = - sgn r" by auto
  from returns2 [OF bc] q have q': "compare c b = Inr 0" by (auto simp: sgn_0_0)
  from returns2 [OF comparable_trans [OF ab bc]] p
  obtain p' where p': "compare c a = Inr p'" "sgn p' = - sgn p" by auto
  from equal_left [OF comparable_sym [OF bc] comparable_sym [OF ab] q' r'(1) p'(1)] r'(2) p'(2)
  show ?thesis by linarith
qed

lemma leq_trans:
  assumes ab: "comparable a b" and bc: "comparable b c" and r: "compare a b = Inr r"
    and q: "compare b c = Inr q" and p: "compare a c = Inr p" and "r \<le> 0" "q \<le> 0"
  shows "p \<le> 0"
proof -
  consider "r = 0" | "q = 0" | "r < 0" "q < 0" using assms by linarith
  then show ?thesis
  proof cases
    case 1
    with equal_left [OF ab bc _ q p] r assms(7) show ?thesis by (auto simp: sgn_if split: if_splits)
  next
    case 2
    with equal_right [OF ab bc r _ p] q assms(6) show ?thesis by (auto simp: sgn_if split: if_splits)
  next
    case 3
    with less_trans [OF ab bc r q p] show ?thesis by simp
  qed
qed

lemma refl: "comparable a b \<Longrightarrow> compare a a = Inr 0"
  using zero [of a a] comparable_trans [OF _ comparable_sym] by blast

end

text \<open>The laws carry over to objects compared by a part of them.\<close>

lemma comparison_pull_back:
  assumes c: "comparison R cmp v"
    and S: "\<And>a b. S a b \<Longrightarrow> R (f a) (f b)" "\<And>a b. S a b \<Longrightarrow> S b a" "\<And>a b c. S a b \<Longrightarrow> S b c \<Longrightarrow> S a c"
    and cmp': "\<And>a b. S a b \<Longrightarrow> cmp' a b = cmp (f a) (f b)"
  shows "comparison S cmp' (\<lambda>a. v (f a))"
proof (unfold_locales, goal_cases)
  case (1 a b)
  then show ?case by (rule S)
next
  case (2 a b c)
  then show ?case by (rule S)
next
  case (3 a b)
  then show ?case using comparison.returns [OF c S(1) [OF 3]] cmp' by auto
next
  case (4 a b)
  then show ?case using comparison.zero [OF c S(1) [OF 4]] cmp' by auto
next
  case (5 a b r q)
  then show ?case using comparison.antisym [OF c S(1) [OF 5(1)]] S(2) [OF 5(1)] cmp' by auto
next
  case (6 a b c r q p)
  then show ?case
    using comparison.less_trans [OF assms(1) S(1) [OF 6(1)] S(1) [OF 6(2)]] S(3) [OF 6(1,2)] cmp' by auto
next
  case (7 a b c q p)
  then show ?case
    using comparison.equal_left [OF assms(1) S(1) [OF 7(1)] S(1) [OF 7(2)]] S(3) [OF 7(1,2)] cmp' by auto
qed

section \<open>The first difference in a list\<close>

fun first_difference :: "('a \<Rightarrow> 'a \<Rightarrow> int outcome) \<Rightarrow> 'a list \<Rightarrow> 'a list \<Rightarrow> int outcome" where
  "first_difference cmp (a # as) (b # bs) =
     (case cmp a b of Inl e \<Rightarrow> Inl e | Inr r \<Rightarrow> if r \<noteq> 0 then Inr r else first_difference cmp as bs)"
| "first_difference cmp as bs = Inr 0"

context comparison
begin

lemma list_sym: "list_all2 comparable as bs \<Longrightarrow> list_all2 comparable bs as"
  by (induction rule: list_all2_induct) (auto intro: comparable_sym)

lemma list_trans: "list_all2 comparable as bs \<Longrightarrow> list_all2 comparable bs cs \<Longrightarrow> list_all2 comparable as cs"
  by (rule list_all2_trans [of comparable comparable]) (auto intro: comparable_trans)

lemma list_returns: "list_all2 comparable as bs \<Longrightarrow> \<exists>r. first_difference compare as bs = Inr r"
proof (induction rule: list_all2_induct)
  case (Cons a as b bs)
  with returns [OF Cons.hyps(1)] show ?case by auto
qed simp

lemma list_zero:
  "list_all2 comparable as bs \<Longrightarrow>
   first_difference compare as bs = Inr 0 \<longleftrightarrow> map value_of as = map value_of bs"
proof (induction rule: list_all2_induct)
  case (Cons a as b bs)
  with returns [OF Cons.hyps(1)] zero [OF Cons.hyps(1)] show ?case by auto
qed simp

lemma list_antisym:
  "list_all2 comparable as bs \<Longrightarrow> first_difference compare as bs = Inr r \<Longrightarrow>
   first_difference compare bs as = Inr q \<Longrightarrow> sgn q = - sgn r"
proof (induction rule: list_all2_induct)
  case (Cons a as b bs)
  from returns2 [OF Cons.hyps(1)] obtain x y where
    "compare a b = Inr x" "compare b a = Inr y" "sgn y = - sgn x" by auto
  with Cons show ?case by (auto simp: sgn_0_0 split: if_splits)
qed simp

text \<open>The two laws of composition, by the same induction over three lists.\<close>

lemma list_compose:
  assumes "list_all2 comparable as bs" "list_all2 comparable bs cs"
    "first_difference compare as bs = Inr r" "first_difference compare bs cs = Inr q"
    "first_difference compare as cs = Inr p"
  shows "(r < 0 \<longrightarrow> q < 0 \<longrightarrow> p < 0) \<and> (r = 0 \<longrightarrow> sgn p = sgn q)"
  using assms
proof (induction as arbitrary: bs cs)
  case Nil
  then show ?case by auto
next
  case (Cons a as)
  then obtain b bs' c cs' where
    l: "bs = b # bs'" "cs = c # cs'" and ab: "comparable a b" and bc: "comparable b c"
    and rest: "list_all2 comparable as bs'" "list_all2 comparable bs' cs'"
    by (auto simp: list_all2_Cons1)
  obtain x where x: "compare a b = Inr x" using returns [OF ab] by auto
  obtain y where y: "compare b c = Inr y" using returns [OF bc] by auto
  obtain z where z: "compare a c = Inr z" using returns [OF comparable_trans [OF ab bc]] by auto
  have both: "x < 0 \<Longrightarrow> y < 0 \<Longrightarrow> z < 0" using less_trans [OF ab bc x y z] .
  have left: "x = 0 \<Longrightarrow> sgn z = sgn y" using equal_left [OF ab bc _ y z] x by simp
  have right: "y = 0 \<Longrightarrow> sgn z = sgn x" using equal_right [OF ab bc x _ z] y by simp
  consider "x = 0" "y = 0" | "x = 0" "y \<noteq> 0" | "x \<noteq> 0" "y = 0" | "x \<noteq> 0" "y \<noteq> 0" by blast
  then show ?case
  proof cases
    case 1
    with left have "z = 0" by (simp add: sgn_0_0)
    with 1 Cons.prems Cons.IH [OF rest] show ?thesis by (simp add: l x y z)
  next
    case 2
    with left have "z \<noteq> 0" "sgn z = sgn y" by (auto simp: sgn_0_0)
    with 2 Cons.prems show ?thesis by (auto simp: l x y z sgn_if split: if_splits)
  next
    case 3
    with right have "z \<noteq> 0" "sgn z = sgn x" by (auto simp: sgn_0_0)
    with 3 Cons.prems show ?thesis by (auto simp: l x y z sgn_if split: if_splits)
  next
    case 4
    with both Cons.prems show ?thesis by (auto simp: l x y z split: if_splits)
  qed
qed

lemma lists: "comparison (list_all2 comparable) (first_difference compare) (map value_of)"
proof (unfold_locales, goal_cases)
  case (1 as bs)
  then show ?case by (rule list_sym)
next
  case (2 as bs cs)
  then show ?case by (rule list_trans)
next
  case (3 as bs)
  then show ?case by (rule list_returns)
next
  case (4 as bs)
  then show ?case by (rule list_zero)
next
  case (5 as bs r q)
  then show ?case by (rule list_antisym)
next
  case (6 as bs cs r q p)
  with list_compose show ?case by blast
next
  case (7 as bs cs q p)
  with list_compose show ?case by blast
qed

end

section \<open>The order on values\<close>

text \<open>
  The values on which the comparison means what it should: the differences of numbers and
  dates fit an \<open>int\<close>, the floats are finite, and blocks cannot be compared at all.
\<close>

fun orderable :: "content \<Rightarrow> bool" where
  "orderable (IntegerValue i) = (\<bar>sint i\<bar> < 2 ^ 30)"
| "orderable (StringValue s) = True"
| "orderable (FloatValue f) = (\<not> float_isnan f \<and> \<not> float_isinf f)"
| "orderable (ShortBlockValue b) = False"
| "orderable (LongBlockValue b) = False"
| "orderable (DateValue t) = (\<bar>sint t\<bar> < 2 ^ 30)"
| "orderable (TimeStampValue t f) = (\<bar>sint t\<bar> < 2 ^ 30)"
| "orderable (MultiStringValue vs) = (length vs < 2 ^ 30)"

definition comparable_data :: "data \<Rightarrow> data \<Rightarrow> bool" where
  "comparable_data a b \<longleftrightarrow> getType a = getType b \<and> orderable (d_content a) \<and> orderable (d_content b)"

text \<open>
  What the comparison sees of a value: C strings, both zeros as one, and a time stamp
  without its fraction.
\<close>

fun view :: "content \<Rightarrow> content" where
  "view (StringValue s) = StringValue (c_str s)"
| "view (FloatValue f) = FloatValue (if float_key f = 0 then 0 else f)"
| "view (TimeStampValue t f) = TimeStampValue t 0"
| "view (MultiStringValue vs) = MultiStringValue (map c_str vs)"
| "view c = c"

definition data_view :: "data \<Rightarrow> content option" where
  "data_view d = (if d_isNull d then None else Some (view (d_content d)))"

text \<open>The order that is meant.\<close>

fun ideal :: "content \<Rightarrow> content \<Rightarrow> int" where
  "ideal (IntegerValue i) (IntegerValue j) = sint i - sint j"
| "ideal (StringValue s) (StringValue t) = strcmp s t"
| "ideal (FloatValue f) (FloatValue g) = float_key f - float_key g"
| "ideal (DateValue t) (DateValue u) = sint t - sint u"
| "ideal (TimeStampValue t f) (TimeStampValue u g) = sint t - sint u"
| "ideal (MultiStringValue vs) (MultiStringValue ws) =
     (if length vs \<noteq> length ws then int (length vs) - int (length ws) else strings_compare vs ws)"
| "ideal c d = 0"

definition ideal_data :: "data \<Rightarrow> data \<Rightarrow> int" where
  "ideal_data a b =
     (if d_isNull a then (if d_isNull b then 0 else -1)
      else if d_isNull b then 1 else ideal (d_content a) (d_content b))"

lemma sint_minus:
  fixes i j :: "'a :: len word"
  assumes "- (2 ^ (LENGTH('a) - 1)) \<le> sint i - sint j" "sint i - sint j < 2 ^ (LENGTH('a) - 1)"
  shows "sint (i - j) = sint i - sint j"
  using assms by (simp add: sint_word_ariths signed_take_bit_int_eq_self)

lemma sint_narrow:
  fixes w :: clong
  assumes "- (2 ^ 31) \<le> sint w" "sint w < 2 ^ 31"
  shows "sint (ucast w :: cint) = sint w"
proof -
  have "sint (ucast w :: cint) = signed_take_bit 31 (uint w)"
    by (simp add: sint_uint unsigned_ucast_eq signed_take_bit_take_bit)
  also have "uint w = take_bit 64 (sint w)" by (simp add: uint_sint)
  also have "signed_take_bit 31 (take_bit 64 (sint w)) = signed_take_bit 31 (sint w)"
    by (simp add: signed_take_bit_take_bit)
  also have "\<dots> = sint w" using assms by (simp add: signed_take_bit_int_eq_self)
  finally show ?thesis .
qed

lemma sint_date_minus:
  fixes t u :: clong
  assumes "\<bar>sint t\<bar> < 2 ^ 30" "\<bar>sint u\<bar> < 2 ^ 30"
  shows "sint (ucast (t - u) :: cint) = sint t - sint u"
proof -
  have "sint (t - u) = sint t - sint u" using assms by (intro sint_minus) auto
  with assms sint_narrow [of "t - u"] show ?thesis by auto
qed

lemma sint_size_minus:
  assumes "m < 2 ^ 30" "n < 2 ^ 30"
  shows "sint ((of_nat m :: cint) - of_nat n) = int m - int n"
proof -
  have small: "sint (of_nat k :: cint) = int k" if "k < 2 ^ 30" for k
  proof -
    have "int k < 2 ^ 31" using that by simp
    then show ?thesis by (simp add: signed_of_nat signed_take_bit_int_eq_self)
  qed
  show ?thesis using assms by (subst sint_minus) (simp_all add: small)
qed

lemma do_compare_ideal:
  assumes "type_of (d_content a) = type_of (d_content b)" "orderable (d_content a)" "orderable (d_content b)"
  shows "\<exists>r. do_compare env a b = Inr r \<and> sgn r = sgn (ideal (d_content a) (d_content b))"
  using assms
  by (cases "d_content a"; cases "d_content b")
    (auto simp: compare_defs Let_def sint_minus sint_date_minus sint_size_minus float_compare_def)

lemma data_compare_ideal:
  assumes "comparable_data a b"
  shows "\<exists>r. data_compare env a b = Inr r \<and> sgn r = sgn (ideal_data a b)"
  using assms do_compare_ideal [of a b env]
  by (auto simp: comparable_data_def data_compare_def ideal_data_def hasValue_def)

lemma strcmp_trans: "strcmp a b < 0 \<Longrightarrow> strcmp b c < 0 \<Longrightarrow> strcmp a c < 0"
  unfolding strcmp_def by (rule bytes_cmp_trans)

lemma strcmp_0: "strcmp a b = 0 \<longleftrightarrow> c_str a = c_str b"
  by (simp add: strcmp_def bytes_cmp_0)

lemma strcmp_cong: "c_str a = c_str a' \<Longrightarrow> strcmp a b = strcmp a' b"
  by (simp add: strcmp_def)

lemma strings_antisym: "strings_compare as bs = - strings_compare bs as"
proof (induction as bs rule: strings_compare.induct)
  case (1 a as b bs)
  then show ?case using strcmp_antisym [of a b] by auto
qed auto

lemma strings_0:
  "length as = length bs \<Longrightarrow> strings_compare as bs = 0 \<longleftrightarrow> map c_str as = map c_str bs"
  by (induction as bs rule: strings_compare.induct) (auto simp: strcmp_0)

lemma strings_cong: "map c_str as = map c_str as' \<Longrightarrow> strings_compare as bs = strings_compare as' bs"
proof (induction as bs arbitrary: as' rule: strings_compare.induct)
  case (1 a as b bs)
  then obtain a' as'' where "as' = a' # as''" "c_str a = c_str a'" "map c_str as = map c_str as''"
    by (cases as') auto
  with 1 show ?case using strcmp_cong [of a a' b] by simp
qed auto

lemma strings_trans:
  "length as = length bs \<Longrightarrow> length bs = length cs \<Longrightarrow> strings_compare as bs < 0 \<Longrightarrow>
   strings_compare bs cs < 0 \<Longrightarrow> strings_compare as cs < 0"
proof (induction as bs arbitrary: cs rule: strings_compare.induct)
  case (1 a as b bs)
  then obtain c cs' where cs: "cs = c # cs'" by (cases cs) auto
  consider "strcmp a b = 0" | "strcmp b c = 0" "strcmp a b \<noteq> 0" | "strcmp a b \<noteq> 0" "strcmp b c \<noteq> 0" by blast
  then show ?case
  proof cases
    case 1
    then have "strcmp a c = strcmp b c" by (intro strcmp_cong) (simp add: strcmp_0)
    with 1 "1.prems" "1.IH" [of cs'] show ?thesis by (auto simp: cs split: if_splits)
  next
    case 2
    then have "strcmp a c = strcmp a b"
      using strcmp_cong [of c b a] strcmp_antisym [of a c] strcmp_antisym [of a b] by (simp add: strcmp_0)
    with 2 "1.prems" show ?thesis by (auto simp: cs split: if_splits)
  next
    case 3
    with "1.prems" have "strcmp a b < 0" "strcmp b c < 0" by (auto simp: cs split: if_splits)
    with strcmp_trans [of a b c] show ?thesis by (simp add: cs)
  qed
qed auto

lemma float_key_inj: "\<not> float_isnan f \<Longrightarrow> float_key f = float_key g \<Longrightarrow> float_key f \<noteq> 0 \<Longrightarrow> f = g"
proof -
  assume k: "float_key f = float_key g" "float_key f \<noteq> 0"
  have lim: "0 \<le> uint w" "uint w < 2 ^ 32" for w :: "32 word"
    using uint_lt2p [of w] by auto
  have split: "uint w = (if uint w \<ge> 2 ^ 31 then 2 ^ 31 + float_magnitude w else float_magnitude w)"
    and mag: "0 \<le> float_magnitude w" "float_magnitude w < 2 ^ 31" for w :: "32 word"
  proof -
    from lim [of w] have "uint w \<ge> 2 ^ 31 \<Longrightarrow> uint w mod 2 ^ 31 = uint w - 2 ^ 31"
      by (intro int_mod_pos_eq [of _ _ 1]) auto
    with lim [of w] show "uint w = (if uint w \<ge> 2 ^ 31 then 2 ^ 31 + float_magnitude w else float_magnitude w)"
      by (simp add: float_magnitude_def)
  qed (simp_all add: float_magnitude_def)
  have "uint f = uint g"
    using k split [of f] split [of g] mag [of f] mag [of g]
    by (auto simp: float_key_def split: if_splits)
  then show "f = g" by (simp only: unsigned_word_eqI)
qed

lemma float_key_0 [simp]: "float_key 0 = 0"
  by (simp add: float_key_def float_magnitude_def)

lemma same_type_cases:
  assumes "type_of c = type_of d"
  obtains i j where "c = IntegerValue i" "d = IntegerValue j"
  | s t where "c = StringValue s" "d = StringValue t"
  | f g where "c = FloatValue f" "d = FloatValue g"
  | x y where "c = ShortBlockValue x" "d = ShortBlockValue y"
  | x y where "c = LongBlockValue x" "d = LongBlockValue y"
  | t u where "c = DateValue t" "d = DateValue u"
  | t f u g where "c = TimeStampValue t f" "d = TimeStampValue u g"
  | vs ws where "c = MultiStringValue vs" "d = MultiStringValue ws"
  using assms by (cases c; cases d) auto

lemma type_view [simp]: "type_of (view c) = type_of c"
  by (cases c) auto

lemma ideal_antisym: "type_of c = type_of d \<Longrightarrow> ideal c d = - ideal d c"
proof (erule same_type_cases)
  fix s t
  assume "c = StringValue s" "d = StringValue t"
  then show ?thesis using strcmp_antisym [of s t] by simp
next
  fix vs ws
  assume "c = MultiStringValue vs" "d = MultiStringValue ws"
  then show ?thesis using strings_antisym [of vs ws] by simp
qed simp_all

lemma ideal_zero:
  assumes "type_of c = type_of d" "orderable c" "orderable d"
  shows "ideal c d = 0 \<longleftrightarrow> view c = view d"
  using assms
proof (cases rule: same_type_cases)
  case (3 f g)
  with assms float_key_inj [of f g] show ?thesis by auto
next
  case (8 vs ws)
  with assms show ?thesis by (auto simp: strings_0 dest: map_eq_imp_length_eq)
qed (auto simp: strcmp_0 signed_word_eqI)

lemma ideal_view:
  assumes "view c = view c'" "type_of c = type_of d"
  shows "ideal c d = ideal c' d"
proof -
  have "type_of c = type_of c'" using arg_cong [OF assms(1), of type_of] by simp
  then show ?thesis
  proof (cases rule: same_type_cases)
    case (2 s t)
    with assms show ?thesis by (cases d) (auto intro: strcmp_cong)
  next
    case (3 f g)
    with assms show ?thesis by (cases d) (auto split: if_splits)
  next
    case (7 t f u g)
    with assms show ?thesis by (cases d) auto
  next
    case (8 vs ws)
    with assms show ?thesis
      by (cases d) (auto dest: map_eq_imp_length_eq intro: strings_cong)
  qed (use assms in auto)
qed

lemma ideal_trans:
  assumes "type_of c = type_of d" "type_of d = type_of e" "ideal c d < 0" "ideal d e < 0"
  shows "ideal c e < 0"
  using assms(1)
proof (cases rule: same_type_cases)
  case (2 s t)
  with assms show ?thesis by (cases e) (auto intro: strcmp_trans)
next
  case (8 vs ws)
  with assms strings_trans [of vs ws] show ?thesis by (cases e) (auto split: if_splits)
qed (use assms in \<open>cases e; simp\<close>)+

lemma ideal_data_zero: "comparable_data a b \<Longrightarrow> ideal_data a b = 0 \<longleftrightarrow> data_view a = data_view b"
  by (auto simp: comparable_data_def ideal_data_def data_view_def ideal_zero)

lemma ideal_data_antisym: "comparable_data a b \<Longrightarrow> ideal_data b a = - ideal_data a b"
  using ideal_antisym [of "d_content b" "d_content a"]
  by (auto simp: comparable_data_def ideal_data_def)

lemma ideal_data_view:
  "comparable_data a b \<Longrightarrow> comparable_data b c \<Longrightarrow> data_view a = data_view b \<Longrightarrow> ideal_data a c = ideal_data b c"
  by (auto simp: comparable_data_def ideal_data_def data_view_def intro: ideal_view split: if_splits)

lemma ideal_data_trans:
  "comparable_data a b \<Longrightarrow> comparable_data b c \<Longrightarrow> ideal_data a b < 0 \<Longrightarrow> ideal_data b c < 0 \<Longrightarrow> ideal_data a c < 0"
  using ideal_trans [of "d_content a" "d_content b" "d_content c"]
  by (auto simp: comparable_data_def ideal_data_def split: if_splits)

lemma comparable_data_trans: "comparable_data a b \<Longrightarrow> comparable_data b c \<Longrightarrow> comparable_data a c"
  by (simp add: comparable_data_def)

lemma data_compare_sgn:
  "comparable_data a b \<Longrightarrow> data_compare env a b = Inr r \<Longrightarrow> sgn r = sgn (ideal_data a b)"
  using data_compare_ideal [of a b env] by auto

interpretation vals: comparison comparable_data "data_compare env" data_view for env
proof (unfold_locales, goal_cases)
  case (1 a b)
  then show ?case by (simp add: comparable_data_def)
next
  case (2 a b c)
  then show ?case by (rule comparable_data_trans)
next
  case (3 a b)
  then show ?case using data_compare_ideal [of a b env] by auto
next
  case (4 a b)
  then obtain r where r: "data_compare env a b = Inr r" "sgn r = sgn (ideal_data a b)"
    using data_compare_ideal [of a b env] by auto
  then have "r = 0 \<longleftrightarrow> ideal_data a b = 0" by (metis sgn_0_0)
  with r(1) ideal_data_zero [OF 4] show ?case by simp
next
  case (5 a b r q)
  from 5(1) have "comparable_data b a" by (simp add: comparable_data_def)
  from data_compare_sgn [OF this 5(3)] data_compare_sgn [OF 5(1,2)] ideal_data_antisym [OF 5(1)]
  show ?case by (simp add: sgn_minus)
next
  case (6 a b c r q p)
  from data_compare_sgn [OF 6(1,3)] data_compare_sgn [OF 6(2,4)] 6(6,7)
  have "ideal_data a b < 0" "ideal_data b c < 0" by (auto simp: sgn_if split: if_splits)
  from ideal_data_trans [OF 6(1,2) this] data_compare_sgn [OF comparable_data_trans [OF 6(1,2)] 6(5)]
  show ?case by (auto simp: sgn_if split: if_splits)
next
  case (7 a b c q p)
  from data_compare_sgn [OF 7(1,3)] have "ideal_data a b = 0" by (simp add: sgn_0_0)
  then have "ideal_data a c = ideal_data b c"
    using 7(1,2) by (intro ideal_data_view) (simp_all add: ideal_data_zero)
  with data_compare_sgn [OF 7(2,4)] data_compare_sgn [OF comparable_data_trans [OF 7(1,2)] 7(5)]
  show ?case by simp
qed



text \<open>
  The comparison of integers subtracts at the width of \<open>int\<close>: outside half of the range it
  is no order.  The smallest integer compares greater than one, and three values compare in
  a circle.
\<close>

theorem integer_compare_overflows:
  "data_compare env (put_value (IntegerValue (- (2 ^ 31))) (integer_new n b))
     (put_value (IntegerValue 1) (integer_new n b)) = Inr (2 ^ 31 - 1) \<and>
   data_compare env (put_value (IntegerValue 1) (integer_new n b))
     (put_value (IntegerValue (2 ^ 31 - 1)) (integer_new n b)) = Inr (2 - 2 ^ 31) \<and>
   data_compare env (put_value (IntegerValue (2 ^ 31 - 1)) (integer_new n b))
     (put_value (IntegerValue (- (2 ^ 31))) (integer_new n b)) = Inr (- 1)"
  by (simp add: data_compare_def compare_defs put_value_def integer_new_def data_new_def hasValue_def)

section \<open>The order on sets\<close>

text \<open>Sets with the same names in the same order, with comparable values.\<close>

definition comparable_member :: "heap \<Rightarrow> string \<times> nat \<Rightarrow> string \<times> nat \<Rightarrow> bool" where
  "comparable_member h p q \<longleftrightarrow> fst p = fst q \<and> comparable_data (h (snd p)) (h (snd q))"

definition comparable_sets :: "heap \<Rightarrow> data_set \<Rightarrow> data_set \<Rightarrow> bool" where
  "comparable_sets h s t \<longleftrightarrow>
     set_stale s = 0 \<and> set_stale t = 0 \<and> distinct_keys fst (set_datas s) \<and> distinct_keys fst (set_datas t) \<and>
     list_all2 (comparable_member h) (set_datas s) (set_datas t)"

definition set_values :: "heap \<Rightarrow> data_set \<Rightarrow> data list" where
  "set_values h s = map (\<lambda>p. h (snd p)) (set_datas s)"

text \<open>What \<open>compare\<close> returns for two set objects; an undefined comparison has no result.\<close>

definition set_result :: "env \<Rightarrow> heap \<Rightarrow> data_set \<Rightarrow> data_set \<Rightarrow> int outcome" where
  "set_result env h s t =
     (case set_compare env h False s t of None \<Rightarrow> Inl (RuntimeException ''undefined'') | Some r \<Rightarrow> r)"

lemma compare_members_first:
  "list_all2 (comparable_member h) ps qs \<Longrightarrow>
   (\<forall>q \<in> set qs. map_of (set_datas t) (fst q) = Some (snd q)) \<Longrightarrow>
   compare_members env h t ps =
     first_difference (data_compare env) (map (\<lambda>p. h (snd p)) ps) (map (\<lambda>p. h (snd p)) qs)"
  by (induction rule: list_all2_induct)
    (auto simp: set_find_def comparable_member_def split: sum.splits option.splits)

lemma set_compare_first:
  assumes "comparable_sets h s t"
  shows "set_compare env h False s t =
    Some (first_difference (data_compare env) (set_values h s) (set_values h t))"
proof -
  have "\<forall>q \<in> set (set_datas t). map_of (set_datas t) (fst q) = Some (snd q)"
    using assms by (auto simp: comparable_sets_def distinct_keys_def intro: map_of_is_SomeI)
  with assms compare_members_first [of h "set_datas s" "set_datas t" t env] show ?thesis
    by (auto simp: set_compare_def comparable_sets_def set_values_def set_size_def dest: list_all2_lengthD)
qed

lemma comparable_sets_values:
  "comparable_sets h s t \<Longrightarrow> list_all2 comparable_data (set_values h s) (set_values h t)"
  by (auto simp: comparable_sets_def set_values_def comparable_member_def list_all2_map1 list_all2_map2
      elim: list_all2_mono)

lemma comparable_sets_sym: "comparable_sets h s t \<Longrightarrow> comparable_sets h t s"
proof -
  assume c: "comparable_sets h s t"
  have "list_all2 (comparable_member h)\<inverse>\<inverse> (set_datas s) (set_datas t)"
    using c by (auto simp: comparable_sets_def comparable_member_def comparable_data_def elim!: list_all2_mono)
  with c show ?thesis by (simp add: comparable_sets_def list.rel_flip)
qed

lemma comparable_sets_trans:
  assumes "comparable_sets h s t" "comparable_sets h t u"
  shows "comparable_sets h s u"
proof -
  have "list_all2 (comparable_member h) (set_datas s) (set_datas u)"
    by (rule list_all2_trans [of "comparable_member h" "comparable_member h" _ _ "set_datas t"])
      (use assms comparable_data_trans in \<open>auto simp: comparable_sets_def comparable_member_def\<close>)
  with assms show ?thesis by (simp add: comparable_sets_def)
qed

interpretation sets: comparison "comparable_sets h" "set_result env h" "\<lambda>s. map data_view (set_values h s)"
  for env h
  by (rule comparison_pull_back [OF vals.lists])
    (auto simp: set_result_def set_compare_first
      intro: comparable_sets_values comparable_sets_sym comparable_sets_trans)

text \<open>
  On sets with the same names in the same order and comparable values \<open>Set::compare\<close> is a
  total preorder: it returns, exchanging the operands exchanges the sign, it is transitive,
  and it is zero (\<open>operator==\<close> holds) exactly when all members have the same values.
\<close>

theorem set_compare_preorder:
  assumes st: "comparable_sets h s t" and tu: "comparable_sets h t u"
  shows "\<exists>r r' q p. set_compare env h False s t = Some (Inr r) \<and>
    set_compare env h False t s = Some (Inr r') \<and> sgn r' = - sgn r \<and>
    set_compare env h False t u = Some (Inr q) \<and> set_compare env h False s u = Some (Inr p) \<and>
    (r \<le> 0 \<longrightarrow> q \<le> 0 \<longrightarrow> p \<le> 0) \<and>
    set_equal env h False s t = Some (map data_view (set_values h s) = map data_view (set_values h t))"
proof -
  have result: "set_compare env h False a b = Some (set_result env h a b)" if "comparable_sets h a b" for a b
    using set_compare_first [OF that, of env] by (simp add: set_result_def)
  note su = comparable_sets_trans [OF st tu]
  obtain r r' where r: "set_result env h s t = Inr r" "set_result env h t s = Inr r'" "sgn r' = - sgn r"
    by (rule sets.returns2 [OF st])
  obtain q where q: "set_result env h t u = Inr q" using sets.returns [OF tu] by auto
  obtain p where p: "set_result env h s u = Inr p" using sets.returns [OF su] by auto
  have "r \<le> 0 \<longrightarrow> q \<le> 0 \<longrightarrow> p \<le> 0" using sets.leq_trans [OF st tu r(1) q p] by blast
  moreover have "set_equal env h False s t =
      Some (map data_view (set_values h s) = map data_view (set_values h t))"
    using sets.zero [OF st, of env] by (simp add: set_equal_def result [OF st] r(1))
  ultimately show ?thesis
    using r q p by (simp add: result [OF st] result [OF tu] result [OF su]
        result [OF comparable_sets_sym [OF st]])
qed

definition two_integers :: "nat \<Rightarrow> data_set" where
  "two_integers k = \<lparr>set_datas = [(''a'', 0), (''b'', k)], set_stale = 0\<rparr>"

definition integer_heap :: heap where
  "integer_heap ref = put_value (IntegerValue (of_nat ref)) (integer_new ''i'' True)"

lemma two_integers_comparable:
  assumes "j < 4" "k < 4"
  shows "comparable_sets integer_heap (two_integers j) (two_integers k)"
proof -
  have "j \<in> {0, 1, 2, 3}" "k \<in> {0, 1, 2, 3}" using assms by auto
  then show ?thesis
    by (auto simp: comparable_sets_def two_integers_def integer_heap_def distinct_keys_def
        comparable_member_def comparable_data_def put_value_def integer_new_def data_new_def)
qed

theorem set_compare_preorder_witness:
  "comparable_sets integer_heap (two_integers 1) (two_integers 2) \<and>
   comparable_sets integer_heap (two_integers 2) (two_integers 3) \<and>
   (\<exists>p. set_compare sample_env integer_heap False (two_integers 1) (two_integers 3) = Some (Inr p) \<and> p \<le> 0)"
proof -
  have c: "comparable_sets integer_heap (two_integers 1) (two_integers 2)"
    "comparable_sets integer_heap (two_integers 2) (two_integers 3)"
    by (simp_all add: two_integers_comparable)
  have "set_compare sample_env integer_heap False (two_integers 1) (two_integers 2) = Some (Inr (- 1))"
    "set_compare sample_env integer_heap False (two_integers 2) (two_integers 3) = Some (Inr (- 1))"
    by (simp_all add: set_compare_def two_integers_def integer_heap_def set_size_def set_find_def
        data_compare_def compare_defs put_value_def integer_new_def data_new_def hasValue_def)
  with set_compare_preorder [OF c, of sample_env] c show ?thesis by auto
qed

text \<open>Values that compare equal have one hash, for the types whose hash uses the value only.\<close>

lemma equal_strings_hash:
  assumes "d_content a = StringValue s" "d_content b = StringValue t" "NUL \<notin> set s" "NUL \<notin> set t"
    "d_isNull a = False" "d_isNull b = False" "data_compare env a b = Inr 0"
  shows "data_hash env a = data_hash env b"
  using assms by (simp add: data_compare_def compare_defs hasValue_def strcmp_0 data_hash_def)

end
