(* ===== verification/DbmsConn.thy ===== *)
theory DbmsConn
  imports DbmsData Balance AppCore
begin

text \<open>
  \<open>dbms/Connection\<close>, \<open>dbms/Statement\<close>, \<open>dbms/ResultCode\<close>, \<open>dbms/Database\<close> and the guards: how a
  unit of work is opened, filled with statements, committed and rolled back.

  The concrete database is behind virtual functions.  They are the fields of the record
  \<open>driver\<close>, over a state \<open>'d\<close> that holds whatever the concrete connection, its statements and
  their values are; every definition takes the driver as an argument.  The mutex of a
  connection is a flag: a call that would block has no result (\<open>None\<close>), nor has one that
  throws out of a \<open>noexcept\<close> function, which ends the program.  The trace is not modelled.
\<close>

section \<open>Result codes\<close>

record interpreter =
  eci_notFound :: "cint \<Rightarrow> bool"
  eci_successful :: "cint \<Rightarrow> bool"
  eci_locked :: "cint \<Rightarrow> bool"
  eci_lostConnection :: "cint \<Rightarrow> bool"

record result_code =
  rc_interpreter :: "interpreter option"
  rc_numericCode :: cint
  rc_errorText :: string

definition result_code :: "interpreter option \<Rightarrow> cint \<Rightarrow> string \<Rightarrow> result_code" where
  "result_code eci code text = \<lparr>rc_interpreter = eci, rc_numericCode = code, rc_errorText = text\<rparr>"

definition rc_as_string :: "result_code \<Rightarrow> string" where
  "rc_as_string rc =
     ''dbms.ResultCode { Status=''
     @ (case rc_interpreter rc of
          None \<Rightarrow> ''''
        | Some i \<Rightarrow>
            if eci_successful i (rc_numericCode rc) then ''Successful''
            else if eci_notFound i (rc_numericCode rc) then ''Not-Found''
            else if eci_locked i (rc_numericCode rc) then ''Locked''
            else if eci_lostConnection i (rc_numericCode rc) then ''Lost-Connection''
            else '''')
     @ ''('' @ as_string_int (rc_numericCode rc) @ '')''
     @ (if rc_errorText rc \<noteq> [] then '' | Comment='' @ rc_errorText rc else '''')
     @ '' }''"

definition no_interpreter :: "result_code \<Rightarrow> exn" where
  "no_interpreter rc =
     RuntimeException (rc_as_string rc @ '' does not have associated database to decode error'')"

definition notFound :: "result_code \<Rightarrow> bool outcome" where
  "notFound rc =
     (case rc_interpreter rc of None \<Rightarrow> Inl (no_interpreter rc)
      | Some i \<Rightarrow> Inr (eci_notFound i (rc_numericCode rc)))"

definition successful :: "result_code \<Rightarrow> bool outcome" where
  "successful rc =
     (case rc_interpreter rc of None \<Rightarrow> Inl (no_interpreter rc)
      | Some i \<Rightarrow> Inr (eci_successful i (rc_numericCode rc)))"

definition locked :: "result_code \<Rightarrow> bool outcome" where
  "locked rc =
     (case rc_interpreter rc of None \<Rightarrow> Inl (no_interpreter rc)
      | Some i \<Rightarrow> Inr (eci_locked i (rc_numericCode rc)))"

definition lostConnection :: "result_code \<Rightarrow> bool outcome" where
  "lostConnection rc =
     (case rc_interpreter rc of None \<Rightarrow> Inl (no_interpreter rc)
      | Some i \<Rightarrow> Inr (eci_lostConnection i (rc_numericCode rc)))"

text \<open>\<open>COFFEE_THROW_NAME_DB_EXCEPTION\<close>.\<close>

definition named_exception :: "string \<Rightarrow> result_code \<Rightarrow> exn" where
  "named_exception logicalName rc = DatabaseException (logicalName @ '': '' @ rc_as_string rc)"

section \<open>Statements\<close>

datatype action_on_error = Ignore | Rollback

text \<open>A binder is the reference of the value it binds.\<close>

record statement =
  st_name :: string
  st_expression :: string
  st_action :: action_on_error
  st_inputs :: "nat list"
  st_outputs :: "nat list"
  st_elapsed :: average
  st_requiresCommit :: bool
  st_prepared :: bool
  st_locked :: bool

definition statement_new :: "string \<Rightarrow> string \<Rightarrow> action_on_error \<Rightarrow> statement" where
  "statement_new name expression action =
     \<lparr>st_name = name, st_expression = expression, st_action = action, st_inputs = [],
      st_outputs = [], st_elapsed = average_new, st_requiresCommit = False, st_prepared = False,
      st_locked = False\<rparr>"

text \<open>\<open>allocateInputBind\<close> and \<open>allocateOutputBind\<close> may refuse a value with a null pointer.\<close>

definition createBinderInput ::
    "(nat \<Rightarrow> nat option) \<Rightarrow> (nat \<Rightarrow> string) \<Rightarrow> nat \<Rightarrow> statement \<Rightarrow> statement outcome" where
  "createBinderInput allocateInputBind text_of ref st =
     (case allocateInputBind ref of
        None \<Rightarrow> Inl (RuntimeException (text_of ref @ '' | Data returned a null binder''))
      | Some b \<Rightarrow> Inr (st\<lparr>st_inputs := st_inputs st @ [b]\<rparr>))"

definition createBinderOutput ::
    "(nat \<Rightarrow> nat option) \<Rightarrow> (nat \<Rightarrow> string) \<Rightarrow> nat \<Rightarrow> statement \<Rightarrow> statement outcome" where
  "createBinderOutput allocateOutputBind text_of ref st =
     (case allocateOutputBind ref of
        None \<Rightarrow> Inl (RuntimeException (text_of ref @ '' | Data returned a null binder''))
      | Some b \<Rightarrow> Inr (st\<lparr>st_outputs := st_outputs st @ [b]\<rparr>))"

text \<open>A negative position passes the test and indexes before the vector (\<open>None\<close>).\<close>

definition binder_at :: "nat list \<Rightarrow> cint \<Rightarrow> nat outcome option" where
  "binder_at binds pos =
     (if sint pos \<ge> int (length binds)
      then Some (Inl (RuntimeException (as_string_int pos @ '' is out of range [0,''
             @ dec (length binds) @ '')'')))
      else if sint pos < 0 then None
      else Some (Inr (binds ! nat (sint pos))))"

definition getInputData :: "statement \<Rightarrow> cint \<Rightarrow> nat outcome option" where
  "getInputData st pos = binder_at (st_inputs st) pos"

definition getOutputData :: "statement \<Rightarrow> cint \<Rightarrow> nat outcome option" where
  "getOutputData st pos = binder_at (st_outputs st) pos"

definition requiresCommit :: "statement \<Rightarrow> bool" where
  "requiresCommit st = (st_requiresCommit st \<or> st_outputs st = [])"

definition setRequiresCommit :: "bool \<Rightarrow> statement \<Rightarrow> statement \<times> bool" where
  "setRequiresCommit v st = (st\<lparr>st_requiresCommit := v\<rparr>, requiresCommit (st\<lparr>st_requiresCommit := v\<rparr>))"

definition registerElapsedTime :: "clong \<Rightarrow> statement \<Rightarrow> statement" where
  "registerElapsedTime us st = st\<lparr>st_elapsed := average_add (st_elapsed st) us\<rparr>"

definition statement_as_string :: "statement \<Rightarrow> string" where
  "statement_as_string st =
     ''dbms::Statement { Name: '' @ st_name st
     @ '' | N-input: '' @ dec (length (st_inputs st))
     @ '' | N-output: '' @ dec (length (st_outputs st))
     @ '' | '' @ average_as_string ''Timing'' ''us'' (st_elapsed st)
     @ '' | Expression: '' @ st_expression st @ '' }''"

definition statement_as_xml :: "(string \<Rightarrow> string) \<Rightarrow> statement \<Rightarrow> xml_node outcome" where
  "statement_as_xml latin1 st =
     (case create_attributes [(''Name'', st_name st)] (new_node ''dbms.Statement'') of
        Inl e \<Rightarrow> Inl e
      | Inr n \<Rightarrow>
          add_children
            [create_attributes
               [(''N'', as_string_uint (samples (st_elapsed st))),
                (''Accumulator'', as_string_int64 (accumulator (st_elapsed st))),
                (''ElapsedTime'', as_string_uint64 (average_value (st_elapsed st)))]
               (new_node ''Timing''),
             Inr (create_text latin1 (st_expression st) (new_node ''Expression''))] n)"

section \<open>The virtual functions of a database\<close>

record 'd driver =
  drv_isAvailable :: "'d \<Rightarrow> bool"
  drv_describe :: "string \<Rightarrow> 'd \<Rightarrow> string"
  drv_open :: "'d \<Rightarrow> 'd \<times> unit outcome"
  drv_close :: "'d \<Rightarrow> 'd"
  drv_beginTransaction :: "'d \<Rightarrow> 'd \<times> bool outcome"
  drv_commit :: "'d \<Rightarrow> 'd \<times> unit outcome"
  drv_rollback :: "'d \<Rightarrow> 'd"
  drv_isPrepared :: "statement \<Rightarrow> 'd \<Rightarrow> bool"
  drv_prepare :: "statement \<Rightarrow> 'd \<Rightarrow> 'd \<times> unit outcome"
  drv_prepareInput :: "statement \<Rightarrow> nat \<Rightarrow> nat \<Rightarrow> 'd \<Rightarrow> 'd \<times> unit outcome"
  drv_prepareOutput :: "statement \<Rightarrow> nat \<Rightarrow> nat \<Rightarrow> 'd \<Rightarrow> 'd \<times> unit outcome"
  drv_encode :: "statement \<Rightarrow> nat \<Rightarrow> nat \<Rightarrow> 'd \<Rightarrow> 'd \<times> unit outcome"
  drv_execute :: "statement \<Rightarrow> 'd \<Rightarrow> 'd \<times> result_code outcome"
  drv_fetch :: "statement \<Rightarrow> 'd \<Rightarrow> 'd \<times> bool outcome"
  drv_decode :: "statement \<Rightarrow> nat \<Rightarrow> nat \<Rightarrow> 'd \<Rightarrow> 'd \<times> unit outcome"
  drv_failRecovery :: "('d \<Rightarrow> 'd \<times> unit outcome) option"

text \<open>The loops over the binders, with the position that is counted up.\<close>

fun bind_loop :: "(nat \<Rightarrow> nat \<Rightarrow> 'd \<Rightarrow> 'd \<times> unit outcome) \<Rightarrow> nat \<Rightarrow> nat list \<Rightarrow> 'd \<Rightarrow> 'd \<times> unit outcome" where
  "bind_loop f pos [] w = (w, Inr ())"
| "bind_loop f pos (b # bs) w =
     (case f pos b w of (w1, Inl e) \<Rightarrow> (w1, Inl e) | (w1, Inr u) \<Rightarrow> bind_loop f (Suc pos) bs w1)"

definition statement_prepare :: "'d driver \<Rightarrow> statement \<Rightarrow> 'd \<Rightarrow> 'd \<times> unit outcome" where
  "statement_prepare drv st w =
     (case drv_prepare drv st w of
        (w1, Inl e) \<Rightarrow> (w1, Inl e)
      | (w1, Inr u) \<Rightarrow>
          (case bind_loop (drv_prepareInput drv st) 0 (st_inputs st) w1 of
             (w2, Inl e) \<Rightarrow> (w2, Inl e)
           | (w2, Inr u2) \<Rightarrow> bind_loop (drv_prepareOutput drv st) 0 (st_outputs st) w2))"

definition statement_execute :: "'d driver \<Rightarrow> statement \<Rightarrow> 'd \<Rightarrow> 'd \<times> result_code outcome" where
  "statement_execute drv st w =
     (case bind_loop (drv_encode drv st) 0 (st_inputs st) w of
        (w1, Inl e) \<Rightarrow> (w1, Inl e)
      | (w1, Inr u) \<Rightarrow> drv_execute drv st w1)"

definition statement_fetch :: "'d driver \<Rightarrow> statement \<Rightarrow> 'd \<Rightarrow> 'd \<times> bool outcome" where
  "statement_fetch drv st w =
     (case drv_fetch drv st w of
        (w1, Inl e) \<Rightarrow> (w1, Inl e)
      | (w1, Inr True) \<Rightarrow>
          (case bind_loop (drv_decode drv st) 0 (st_outputs st) w1 of
             (w2, Inl e) \<Rightarrow> (w2, Inl e) | (w2, Inr u) \<Rightarrow> (w2, Inr True))
      | (w1, Inr False) \<Rightarrow> (w1, Inr False))"

section \<open>Connections\<close>

record 'd connection =
  c_name :: string
  c_user :: string
  c_password :: string
  c_database :: string
  c_commitPending :: cint
  c_rollbackPending :: bool
  c_maxCommitPending :: cint
  c_lockingCounter :: cint
  c_accesingCounter :: cuint
  c_mutex :: bool
  c_world :: 'd

definition connection_new :: "string \<Rightarrow> string \<Rightarrow> string \<Rightarrow> string \<Rightarrow> 'd \<Rightarrow> 'd connection" where
  "connection_new database name user password w =
     \<lparr>c_name = name, c_user = user, c_password = password, c_database = database,
      c_commitPending = 0, c_rollbackPending = False, c_maxCommitPending = 0,
      c_lockingCounter = 0, c_accesingCounter = 0, c_mutex = False, c_world = w\<rparr>"

definition isAvailable :: "'d driver \<Rightarrow> 'd connection \<Rightarrow> bool" where
  "isAvailable drv c = drv_isAvailable drv (c_world c)"

text \<open>The text of this class, and the virtual \<open>asString\<close> that the exceptions print.\<close>

definition connection_as_string :: "'d driver \<Rightarrow> 'd connection \<Rightarrow> string" where
  "connection_as_string drv c =
     ''dbms::Connection { '' @ resource_as_string \<lparr>r_name = c_name c, r_available = isAvailable drv c\<rparr>
     @ '' | Database='' @ c_database c @ '' | User='' @ c_user c
     @ '' | LockingCounter='' @ as_string_int (c_lockingCounter c) @ '' | password=****''
     @ '' | MaxCommitPending='' @ as_string_int (c_maxCommitPending c)
     @ '' | CommitPending='' @ as_string_int (c_commitPending c)
     @ '' | RollbackPending='' @ as_string_bool (c_rollbackPending c) @ '' }''"

abbreviation described_as :: "'d driver \<Rightarrow> 'd connection \<Rightarrow> string" where
  "described_as drv c \<equiv> drv_describe drv (connection_as_string drv c) (c_world c)"

definition connection_as_xml :: "'d driver \<Rightarrow> 'd connection \<Rightarrow> xml_node outcome" where
  "connection_as_xml drv c =
     (case create_attributes
             [(''Name'', c_name c), (''IsAvailable'', as_string_bool (isAvailable drv c))]
             (new_node ''balance.Resource'') of
        Inl e \<Rightarrow> Inl e
      | Inr r \<Rightarrow>
          create_attributes
            [(''User'', c_user c),
             (''AccessingCounter'', as_string_uint (c_accesingCounter c)),
             (''LockingCounter'', as_string_int (c_lockingCounter c)),
             (''MaxCommitPending'', as_string_int (c_maxCommitPending c)),
             (''CommitPending'', as_string_int (c_commitPending c)),
             (''RollbackPending'', as_string_bool (c_rollbackPending c))]
            (add_child r (new_node ''dbms.Connection'')))"

definition setMaxCommitPending :: "cint \<Rightarrow> 'd connection \<Rightarrow> 'd connection \<times> cint" where
  "setMaxCommitPending n c = (c\<lparr>c_maxCommitPending := n\<rparr>, c_maxCommitPending c)"

definition reachMaxCommitPending :: "'d connection \<Rightarrow> bool" where
  "reachMaxCommitPending c = (0 <s c_maxCommitPending c \<and> c_maxCommitPending c \<le>s c_commitPending c)"

text \<open>\<open>recover\<close> is \<open>noexcept\<close>; the handler of failed recoveries runs inside it.\<close>

definition notifyRecoveryFail :: "'d driver \<Rightarrow> 'd connection \<Rightarrow> 'd connection option" where
  "notifyRecoveryFail drv c =
     (case drv_failRecovery drv of
        None \<Rightarrow> Some c
      | Some handler \<Rightarrow>
          (case handler (c_world c) of (w, Inl e) \<Rightarrow> None | (w, Inr u) \<Rightarrow> Some (c\<lparr>c_world := w\<rparr>)))"

definition recover :: "'d driver \<Rightarrow> 'd connection \<Rightarrow> ('d connection \<times> bool) option" where
  "recover drv c =
     (case drv_open drv (drv_close drv (c_world c)) of
        (w, Inr u) \<Rightarrow> Some (c\<lparr>c_world := w\<rparr>, True)
      | (w, Inl e) \<Rightarrow> map_option (\<lambda>c1. (c1, False)) (notifyRecoveryFail drv (c\<lparr>c_world := w\<rparr>)))"

definition connection_commit :: "'d driver \<Rightarrow> 'd connection \<Rightarrow> 'd connection \<times> unit outcome" where
  "connection_commit drv c =
     (if \<not> isAvailable drv c
      then (c, Inl (RuntimeException (described_as drv c @ '' | Connection is not available'')))
      else case drv_commit drv (c_world c) of
             (w, Inl e) \<Rightarrow> (c\<lparr>c_world := w\<rparr>, Inl e)
           | (w, Inr u) \<Rightarrow> (c\<lparr>c_world := w, c_commitPending := 0, c_rollbackPending := False\<rparr>, Inr ()))"

definition connection_rollback :: "'d driver \<Rightarrow> 'd connection \<Rightarrow> 'd connection" where
  "connection_rollback drv c =
     c\<lparr>c_world := drv_rollback drv (c_world c), c_commitPending := 0, c_rollbackPending := False\<rparr>"

text \<open>
  \<open>lock\<close>: the mutex is a \<open>std::mutex\<close>, so a second \<open>lock\<close> never returns, by whichever thread.
  A transaction that cannot begin leaves the function by an exception with the mutex held.
\<close>

definition begin_work :: "'d driver \<Rightarrow> 'd connection \<Rightarrow> 'd connection \<times> unit outcome" where
  "begin_work drv c =
     (let c1 = c\<lparr>c_accesingCounter := c_accesingCounter c + 1, c_commitPending := 0,
                 c_rollbackPending := False\<rparr>
      in case drv_beginTransaction drv (c_world c1) of
           (w, Inl e) \<Rightarrow>
             (c1\<lparr>c_world := w\<rparr>, Inl (if is_runtime e then e else RuntimeException (what e)))
         | (w, Inr began) \<Rightarrow>
             (c1\<lparr>c_world := w, c_commitPending := (if began then 1 else 0)\<rparr>, Inr ()))"

definition acquire :: "'d driver \<Rightarrow> 'd connection \<Rightarrow> ('d connection \<times> unit outcome) option" where
  "acquire drv c =
     (if c_mutex c then None
      else let c1 = c\<lparr>c_mutex := True, c_lockingCounter := c_lockingCounter c + 1\<rparr>
           in Some (if c_lockingCounter c = 0 then begin_work drv c1 else (c1, Inr ())))"

definition connection_lock :: "'d driver \<Rightarrow> 'd connection \<Rightarrow> ('d connection \<times> unit outcome) option" where
  "connection_lock drv c =
     (if isAvailable drv c then acquire drv c
      else case recover drv c of
             None \<Rightarrow> None
           | Some (c1, True) \<Rightarrow> acquire drv c1
           | Some (c1, False) \<Rightarrow>
               Some (c1, Inl (RuntimeException (described_as drv c1 @ '' | Connection is not available''))))"

text \<open>\<open>unlock\<close> swallows what \<open>commit\<close> throws; unlocking a free mutex is undefined.\<close>

definition finish_work :: "'d driver \<Rightarrow> 'd connection \<Rightarrow> 'd connection" where
  "finish_work drv c =
     (if c_rollbackPending c then connection_rollback drv c
      else if 0 <s c_commitPending c then fst (connection_commit drv c)
      else c)"

definition connection_unlock :: "'d driver \<Rightarrow> 'd connection \<Rightarrow> 'd connection option" where
  "connection_unlock drv c =
     (if \<not> c_mutex c then None
      else let n = c_lockingCounter c - 1;
               c1 = (if n \<le>s 0 then finish_work drv (c\<lparr>c_lockingCounter := 0\<rparr>)
                     else c\<lparr>c_lockingCounter := n\<rparr>)
           in Some (c1\<lparr>c_mutex := False\<rparr>))"

section \<open>Executing a statement\<close>

type_synonym 'd execution = "'d connection \<times> statement \<times> result_code outcome"

definition ensure_prepared :: "'d driver \<Rightarrow> statement \<Rightarrow> 'd connection \<Rightarrow> 'd connection \<times> statement \<times> unit outcome" where
  "ensure_prepared drv st c =
     (if drv_isPrepared drv st (c_world c) then (c, st, Inr ())
      else case statement_prepare drv st (c_world c) of
             (w, Inl e) \<Rightarrow> (c\<lparr>c_world := w\<rparr>, st, Inl e)
           | (w, Inr u) \<Rightarrow> (c\<lparr>c_world := w\<rparr>, st\<lparr>st_prepared := True\<rparr>, Inr ()))"

definition note_result :: "'d driver \<Rightarrow> statement \<Rightarrow> result_code \<Rightarrow> 'd connection \<Rightarrow> 'd execution" where
  "note_result drv st result c =
     (if \<not> requiresCommit st then (c, st, Inr result)
      else case successful result of
             Inl e \<Rightarrow> (c, st, Inl e)
           | Inr False \<Rightarrow>
               if st_action st = Rollback
               then (c\<lparr>c_rollbackPending := True\<rparr>, st, Inl (named_exception (st_name st) result))
               else (c, st, Inr result)
           | Inr True \<Rightarrow>
               (let c1 = c\<lparr>c_commitPending := c_commitPending c + 1\<rparr>
                in if reachMaxCommitPending c1
                   then (case connection_commit drv c1 of
                           (c2, Inl e) \<Rightarrow> (c2, st, Inl e)
                         | (c2, Inr u) \<Rightarrow> (c2, st, Inr result))
                   else (c1, st, Inr result)))"

definition handle_result :: "'d driver \<Rightarrow> clong \<Rightarrow> statement \<Rightarrow> result_code \<Rightarrow> 'd connection \<Rightarrow> 'd execution option" where
  "handle_result drv us st result c =
     (case lostConnection result of
        Inl e \<Rightarrow> Some (c, st, Inl e)
      | Inr True \<Rightarrow>
          map_option (\<lambda>(c1, recovered). (c1, st, Inl (named_exception (st_name st) result))) (recover drv c)
      | Inr False \<Rightarrow> Some (note_result drv (registerElapsedTime us st) result c))"

definition connection_execute :: "'d driver \<Rightarrow> clong \<Rightarrow> statement \<Rightarrow> 'd connection \<Rightarrow> 'd execution option" where
  "connection_execute drv us st c =
     (if requiresCommit st \<and> c_rollbackPending c
      then Some (c, st, Inl (RuntimeException (described_as drv c
             @ '' | This connection must execute a previous ROLLBACK'' @ [CHR 0x27] @ ''s'')))
      else case ensure_prepared drv st c of
             (c1, st1, Inl e) \<Rightarrow> Some (c1, st1, Inl e)
           | (c1, st1, Inr u) \<Rightarrow>
               (case statement_execute drv st1 (c_world c1) of
                  (w, Inl e) \<Rightarrow> Some (c1\<lparr>c_world := w\<rparr>, st1, Inl e)
                | (w, Inr result) \<Rightarrow> handle_result drv us st1 result (c1\<lparr>c_world := w\<rparr>)))"

section \<open>Guards\<close>

record 'd guard =
  g_connection :: "'d connection"
  g_countLinkedStatement :: cint

text \<open>A guard whose constructor throws is never destroyed: the connection stays as it is.\<close>

definition guard_new :: "'d driver \<Rightarrow> 'd connection \<Rightarrow> ('d connection \<times> 'd guard outcome) option" where
  "guard_new drv c =
     map_option (\<lambda>(c1, r). (c1, case r of Inl e \<Rightarrow> Inl e
         | Inr u \<Rightarrow> Inr \<lparr>g_connection = c1, g_countLinkedStatement = 0\<rparr>))
       (connection_lock drv c)"

definition guard_delete :: "'d driver \<Rightarrow> 'd guard \<Rightarrow> 'd connection option" where
  "guard_delete drv g = connection_unlock drv (g_connection g)"

definition guard_setMaxCommitPending :: "cint \<Rightarrow> 'd guard \<Rightarrow> 'd guard \<times> cint" where
  "guard_setMaxCommitPending n g =
     (g\<lparr>g_connection := fst (setMaxCommitPending n (g_connection g))\<rparr>, snd (setMaxCommitPending n (g_connection g)))"

definition guard_execute :: "'d driver \<Rightarrow> clong \<Rightarrow> statement \<Rightarrow> 'd guard \<Rightarrow> ('d guard \<times> statement \<times> result_code outcome) option" where
  "guard_execute drv us st g =
     map_option (\<lambda>(c, st1, r). (g\<lparr>g_connection := c\<rparr>, st1, r)) (connection_execute drv us st (g_connection g))"

definition guard_commit :: "'d driver \<Rightarrow> 'd guard \<Rightarrow> 'd guard \<times> unit outcome" where
  "guard_commit drv g =
     (case connection_commit drv (g_connection g) of (c, r) \<Rightarrow> (g\<lparr>g_connection := c\<rparr>, r))"

text \<open>Taking a statement: its mutex blocks a second guard, as that of the connection.\<close>

definition guard_statement ::
    "'d driver \<Rightarrow> statement \<Rightarrow> 'd guard \<Rightarrow> ('d guard \<times> statement \<times> unit outcome) option" where
  "guard_statement drv st g =
     (if \<not> isAvailable drv (g_connection g)
      then Some (g, st, Inl (RuntimeException (described_as drv (g_connection g)
             @ '' | Connection is not available'')))
      else if st_locked st then None
      else Some (g\<lparr>g_countLinkedStatement := g_countLinkedStatement g + 1\<rparr>, st\<lparr>st_locked := True\<rparr>, Inr ()))"

definition guard_statement_delete :: "statement \<Rightarrow> 'd guard \<Rightarrow> 'd guard \<times> statement" where
  "guard_statement_delete st g =
     (g\<lparr>g_countLinkedStatement := g_countLinkedStatement g - 1\<rparr>, st\<lparr>st_locked := False\<rparr>)"

section \<open>The database\<close>

record 'd database =
  db_service :: service
  db_name :: string
  db_connections :: "'d connection list"
  db_statements :: "statement list"
  db_translator :: "(string \<times> (string \<Rightarrow> string outcome)) option"
  db_interpreter :: "interpreter option"

definition database_new :: "string \<Rightarrow> string option \<Rightarrow> 'd database" where
  "database_new implementation dbmsName =
     \<lparr>db_service = service_new Database implementation,
      db_name = (case dbmsName of None \<Rightarrow> ''local'' | Some n \<Rightarrow> n),
      db_connections = [], db_statements = [], db_translator = None, db_interpreter = None\<rparr>"

definition database_as_string :: "'d database \<Rightarrow> string" where
  "database_as_string db =
     ''dbms::Database { '' @ service_as_string (db_service db) @ '' | Name='' @ db_name db
     @ (case db_translator db of None \<Rightarrow> '''' | Some (n, f) \<Rightarrow> '' | StatementTranslator='' @ n) @ '' }''"

definition database_as_xml :: "'d driver \<Rightarrow> (string \<Rightarrow> string) \<Rightarrow> 'd database \<Rightarrow> xml_node outcome" where
  "database_as_xml drv latin1 db =
     (case create_attributes
             ((''Name'', db_name db)
              # (case db_translator db of None \<Rightarrow> [] | Some (n, f) \<Rightarrow> [(''Translator'', n)]))
             (new_node ''dbms.Database'') of
        Inl e \<Rightarrow> Inl e
      | Inr n \<Rightarrow>
          add_children
            [service_as_xml (db_service db),
             add_children (map (connection_as_xml drv) (db_connections db)) (new_node ''Connections''),
             add_children (map (statement_as_xml latin1) (db_statements db)) (new_node ''Statements'')] n)"

text \<open>\<open>do_initialize\<close> opens what it can and fails only when nothing could be opened.\<close>

fun open_all :: "'d driver \<Rightarrow> 'd connection list \<Rightarrow> nat \<Rightarrow> bool \<Rightarrow> 'd connection list \<times> nat \<times> bool" where
  "open_all drv [] counter error = ([], counter, error)"
| "open_all drv (c # cs) counter error =
     (case drv_open drv (c_world c) of
        (w, Inr u) \<Rightarrow>
          (case open_all drv cs (counter + 1) error of (ds, n, b) \<Rightarrow> (c\<lparr>c_world := w\<rparr> # ds, n, b))
      | (w, Inl e) \<Rightarrow>
          (case open_all drv cs counter True of (ds, n, b) \<Rightarrow> (c\<lparr>c_world := w\<rparr> # ds, n, b)))"

definition database_do_initialize :: "'d driver \<Rightarrow> 'd database \<Rightarrow> 'd database \<times> unit outcome" where
  "database_do_initialize drv db =
     (case open_all drv (db_connections db) 0 False of
        (cs, counter, error) \<Rightarrow>
          (let db1 = db\<lparr>db_connections := cs\<rparr>
           in if counter = 0 \<and> error
              then (db1, Inl (RuntimeException (database_as_string db1 @ '' | There is not connection available'')))
              else (db1, Inr ())))"

text \<open>\<open>do_stop\<close> returns the worlds of the connections it closed and forgets.\<close>

definition database_do_stop :: "'d driver \<Rightarrow> 'd database \<Rightarrow> 'd database \<times> 'd list" where
  "database_do_stop drv db =
     (db\<lparr>db_connections := [], db_statements := []\<rparr>,
      map (\<lambda>c. drv_close drv (c_world c)) (db_connections db))"

definition MaxConnection :: nat where "MaxConnection = 32"

text \<open>What the virtual allocation does: it gives an object, fails a cast, or throws.\<close>

datatype 'a allocation = Allocated 'a | BadCast | Thrown exn

definition createConnection ::
    "'d driver \<Rightarrow> (string \<Rightarrow> string \<Rightarrow> string \<Rightarrow> 'd connection allocation) \<Rightarrow> string \<Rightarrow> string \<Rightarrow> string
     \<Rightarrow> 'd database \<Rightarrow> 'd database \<times> 'd connection outcome" where
  "createConnection drv allocateConnection name user password db =
     (if length (db_connections db) \<ge> MaxConnection
      then (db, Inl (RuntimeException (database_as_string db @ '' Can not create more than '' @ dec MaxConnection)))
      else if lookup_by c_name name (db_connections db) \<noteq> None
      then (db, Inl (RuntimeException (database_as_string db @ '' | Connection='' @ name @ '' is already defined'')))
      else case allocateConnection name user password of
             BadCast \<Rightarrow> (db, Inl (RuntimeException ''std::bad_cast''))
           | Thrown e \<Rightarrow> (db, Inl e)
           | Allocated c \<Rightarrow>
               if AppCore.isRunning (s_flags (db_service db))
               then (case drv_open drv (c_world c) of
                       (w, Inl e) \<Rightarrow> (db, Inl e)
                     | (w, Inr u) \<Rightarrow>
                         (db\<lparr>db_connections := db_connections db @ [c\<lparr>c_world := w\<rparr>]\<rparr>, Inr (c\<lparr>c_world := w\<rparr>)))
               else (db\<lparr>db_connections := db_connections db @ [c]\<rparr>, Inr c))"

definition findConnection :: "string \<Rightarrow> 'd database \<Rightarrow> 'd connection outcome" where
  "findConnection name db =
     (case lookup_by c_name name (db_connections db) of
        Some c \<Rightarrow> Inr c
      | None \<Rightarrow> Inl (RuntimeException (database_as_string db @ '' | Connection='' @ [CHR 0x27] @ name @ [CHR 0x27]
                 @ '' is not defined'')))"

definition createStatement ::
    "(string \<Rightarrow> string \<Rightarrow> action_on_error \<Rightarrow> statement allocation) \<Rightarrow> string \<Rightarrow> string \<Rightarrow> action_on_error
     \<Rightarrow> 'd database \<Rightarrow> 'd database \<times> statement outcome" where
  "createStatement allocateStatement name expression action db =
     (if lookup_by st_name name (db_statements db) \<noteq> None
      then (db, Inl (RuntimeException (''Sentence '' @ [CHR 0x27] @ name @ [CHR 0x27] @ '' is already defined'')))
      else case (case db_translator db of None \<Rightarrow> Inr expression | Some (n, f) \<Rightarrow> f expression) of
             Inl e \<Rightarrow> (db, Inl e)
           | Inr translated \<Rightarrow>
               (case allocateStatement name translated action of
                  BadCast \<Rightarrow> (db, Inl (RuntimeException ''std::bad_cast''))
                | Thrown e \<Rightarrow> (db, Inl e)
                | Allocated st \<Rightarrow> (db\<lparr>db_statements := db_statements db @ [st]\<rparr>, Inr st)))"

definition findStatement :: "string \<Rightarrow> 'd database \<Rightarrow> statement outcome" where
  "findStatement name db =
     (case lookup_by st_name name (db_statements db) of
        Some st \<Rightarrow> Inr st
      | None \<Rightarrow> Inl (RuntimeException (''Statement '' @ [CHR 0x27] @ name @ [CHR 0x27] @ '' was not found'')))"

end
