(* ===== verification/DbmsWork.thy ===== *)
theory DbmsWork
  imports DbmsConn
begin

text \<open>
  Units of work.  What the connections need from a database is the interface
  \<open>transactional\<close>: operations are kept aside until a commit applies them or a rollback drops
  them.  Under its laws a unit of work is all or nothing.  The interface is interpreted on
  the database of the repository that is written out in full, the one of
  \<open>test/dbms.mock\<close> and \<open>test/persistence\<close>.
\<close>

section \<open>A client\<close>

text \<open>
  A client takes the connection, executes statements, goes on or not when one throws, and
  gives the connection back.  Before each statement it changes the values bound to it, which
  is the function of the step.
\<close>

type_synonym 'd step = "('d \<Rightarrow> 'd) \<times> clong \<times> statement"

fun run_steps :: "'d driver \<Rightarrow> 'd step list \<Rightarrow> 'd connection \<Rightarrow> ('d connection \<times> result_code outcome list) option" where
  "run_steps drv [] c = Some (c, [])"
| "run_steps drv ((f, us, st) # steps) c =
     (case connection_execute drv us st (c\<lparr>c_world := f (c_world c)\<rparr>) of
        None \<Rightarrow> None
      | Some (c1, st1, r) \<Rightarrow>
          (case run_steps drv steps c1 of None \<Rightarrow> None | Some (c2, rs) \<Rightarrow> Some (c2, r # rs)))"

definition unit_of_work ::
    "'d driver \<Rightarrow> 'd step list \<Rightarrow> 'd connection \<Rightarrow> ('d connection \<times> result_code outcome list outcome) option" where
  "unit_of_work drv steps c =
     (case connection_lock drv c of
        None \<Rightarrow> None
      | Some (c1, Inl e) \<Rightarrow> Some (c1, Inl e)
      | Some (c1, Inr u) \<Rightarrow>
          (case run_steps drv steps c1 of
             None \<Rightarrow> None
           | Some (c2, rs) \<Rightarrow> map_option (\<lambda>c3. (c3, Inr rs)) (connection_unlock drv c2)))"

text \<open>
  The operations a statement leaves with the database, by what it returned, and those of
  all the steps.
\<close>

definition adds :: "(statement \<Rightarrow> 'd \<Rightarrow> 'o list) \<Rightarrow> statement \<Rightarrow> 'd \<Rightarrow> result_code outcome \<Rightarrow> 'o list" where
  "adds emits st w r =
     (case r of Inl e \<Rightarrow> [] | Inr rc \<Rightarrow> if successful rc = Inr True then emits st w else [])"

fun steps_emit :: "'d driver \<Rightarrow> (statement \<Rightarrow> 'd \<Rightarrow> 'o list) \<Rightarrow> 'd step list \<Rightarrow> 'd connection \<Rightarrow> 'o list" where
  "steps_emit drv emits [] c = []"
| "steps_emit drv emits ((f, us, st) # steps) c =
     (case connection_execute drv us st (c\<lparr>c_world := f (c_world c)\<rparr>) of
        None \<Rightarrow> []
      | Some (c1, st1, r) \<Rightarrow> adds emits st (f (c_world c)) r @ steps_emit drv emits steps c1)"

section \<open>The interface\<close>

locale transactional =
  fixes drv :: "'d driver"
    and stored :: "'d \<Rightarrow> 's"
    and pending :: "'d \<Rightarrow> 'o list"
    and perform :: "'o \<Rightarrow> 's \<Rightarrow> 's"
    and emits :: "statement \<Rightarrow> 'd \<Rightarrow> 'o list"
    and proper :: "statement \<Rightarrow> bool"
  assumes commit_performs: "drv_isAvailable drv w \<Longrightarrow> \<exists>w'. drv_commit drv w = (w', Inr ()) \<and>
      stored w' = fold perform (pending w) (stored w) \<and> pending w' = [] \<and> drv_isAvailable drv w'"
    and rollback_drops: "stored (drv_rollback drv w) = stored w" "pending (drv_rollback drv w) = []"
    and begin_keeps: "drv_isAvailable drv w \<Longrightarrow> \<exists>w' b. drv_beginTransaction drv w = (w', Inr b) \<and>
      stored w' = stored w \<and> pending w' = pending w \<and> drv_isAvailable drv w'"
    and prepare_keeps: "statement_prepare drv st w = (w', q) \<Longrightarrow> drv_isAvailable drv w \<Longrightarrow>
      stored w' = stored w \<and> pending w' = pending w \<and> drv_isAvailable drv w'"
    and emits_prepare: "statement_prepare drv st w = (w', q) \<Longrightarrow> emits (st\<lparr>st_prepared := b\<rparr>) w' = emits st w"
    and execute_keeps: "statement_execute drv st w = (w', r) \<Longrightarrow> drv_isAvailable drv w \<Longrightarrow>
      stored w' = stored w \<and> drv_isAvailable drv w'"
    and execute_emits: "statement_execute drv st w = (w', Inr result) \<Longrightarrow> successful result = Inr True \<Longrightarrow>
      pending w' = pending w @ emits st w"
    and execute_fails: "statement_execute drv st w = (w', r) \<Longrightarrow>
      (\<forall>result. r = Inr result \<longrightarrow> successful result \<noteq> Inr True) \<Longrightarrow> pending w' = pending w"
    and proper_prepared: "proper (st\<lparr>st_prepared := b\<rparr>) = proper st"
    and queries_emit_nothing: "proper st \<Longrightarrow> \<not> requiresCommit st \<Longrightarrow> emits st w = []"
    and never_lost: "statement_execute drv st w = (w', Inr result) \<Longrightarrow> lostConnection result = Inr False"
begin

text \<open>Inside a unit of work: \<open>s0\<close> is what was stored when it began, \<open>n\<close> what it may still count.\<close>

definition inside :: "'s \<Rightarrow> 'o list \<Rightarrow> nat \<Rightarrow> 'd connection \<Rightarrow> bool" where
  "inside s0 ops n c \<longleftrightarrow>
     c_mutex c \<and> c_lockingCounter c = 1 \<and> c_maxCommitPending c = 0 \<and> drv_isAvailable drv (c_world c) \<and>
     stored (c_world c) = s0 \<and> pending (c_world c) = ops \<and>
     0 \<le> sint (c_commitPending c) \<and> sint (c_commitPending c) + int n < 2 ^ 31 \<and>
     (ops \<noteq> [] \<longrightarrow> 0 < sint (c_commitPending c))"

definition harmless :: "('d \<Rightarrow> 'd) \<Rightarrow> bool" where
  "harmless f \<longleftrightarrow> (\<forall>w. stored (f w) = stored w \<and> pending (f w) = pending w \<and>
     drv_isAvailable drv (f w) = drv_isAvailable drv w)"

lemma inside_world:
  "inside s0 ops n c \<Longrightarrow> stored w = stored (c_world c) \<Longrightarrow> pending w = pending (c_world c) \<Longrightarrow>
   drv_isAvailable drv w \<Longrightarrow> inside s0 ops n (c\<lparr>c_world := w\<rparr>)"
  by (simp add: inside_def)

lemma inside_fewer: "inside s0 ops n c \<Longrightarrow> m \<le> n \<Longrightarrow> inside s0 ops m c"
  by (auto simp: inside_def)

text \<open>Counting a successful statement.\<close>

lemma count_one:
  assumes "inside s0 ops (Suc n) c"
  shows "inside s0 ops n (c\<lparr>c_commitPending := c_commitPending c + 1\<rparr>)"
    and "0 < sint (c_commitPending c + 1)"
    and "\<not> reachMaxCommitPending (c\<lparr>c_commitPending := c_commitPending c + 1\<rparr>)"
proof -
  have "sint (c_commitPending c + 1) = sint (c_commitPending c) + 1"
    using assms by (simp add: inside_def sint_word_ariths signed_take_bit_int_eq_self)
  with assms show "inside s0 ops n (c\<lparr>c_commitPending := c_commitPending c + 1\<rparr>)"
      "0 < sint (c_commitPending c + 1)"
    by (auto simp: inside_def)
  from assms show "\<not> reachMaxCommitPending (c\<lparr>c_commitPending := c_commitPending c + 1\<rparr>)"
    by (simp add: inside_def reachMaxCommitPending_def)
qed

lemma requiresCommit_elapsed [simp]: "requiresCommit (registerElapsedTime us st) = requiresCommit st"
  by (simp add: requiresCommit_def registerElapsedTime_def)

lemma requiresCommit_prepared [simp]: "requiresCommit (st\<lparr>st_prepared := b\<rparr>) = requiresCommit st"
  by (simp add: requiresCommit_def)

lemma note_result_inside:
  assumes i: "inside s0 ops (Suc n) c" and proper: "proper st"
    and x: "statement_execute drv st (c_world c) = (w, Inr result)"
    and noted: "note_result drv (registerElapsedTime us st) result (c\<lparr>c_world := w\<rparr>) = (c2, st2, r)"
  shows "inside s0 (ops @ adds emits st (c_world c) r) n c2 \<and>
    (c_rollbackPending c2 \<longrightarrow> c_rollbackPending c \<or> (\<exists>e. r = Inl e))"
proof -
  have avail: "drv_isAvailable drv (c_world c)" and ops: "pending (c_world c) = ops"
    using i by (simp_all add: inside_def)
  from execute_keeps [OF x avail] have w: "stored w = stored (c_world c)" "drv_isAvailable drv w" by auto
  have n: "inside s0 ops n c" using i by (rule inside_fewer) simp
  show ?thesis
  proof (cases "successful result = Inr True")
    case False
    then have "pending w = ops" using execute_fails [OF x] ops by simp
    then have "inside s0 ops n (c\<lparr>c_world := w\<rparr>)" using inside_world [OF n w(1) _ w(2)] ops by simp
    with noted False show ?thesis
      by (auto simp: note_result_def adds_def inside_def split: if_splits sum.splits bool.splits)
  next
    case ok: True
    then have pend: "pending w = ops @ emits st (c_world c)" using execute_emits [OF x] ops by simp
    show ?thesis
    proof (cases "requiresCommit st")
      case False
      with proper have "emits st (c_world c) = []" by (rule queries_emit_nothing)
      with pend ops have "inside s0 ops n (c\<lparr>c_world := w\<rparr>)"
        using inside_world [OF n w(1) _ w(2)] by simp
      with noted False ok \<open>emits st (c_world c) = []\<close> show ?thesis
        by (simp add: note_result_def adds_def) auto
    next
      case True
      have c2: "c2 = c\<lparr>c_world := w, c_commitPending := c_commitPending c + 1\<rparr>" and r: "r = Inr result"
        using noted True ok count_one(3) [OF i]
        by (auto simp: note_result_def Let_def reachMaxCommitPending_def split: if_splits)
      have "inside s0 (ops @ emits st (c_world c)) n c2"
        using count_one(1,2) [OF i] w pend ops by (auto simp: c2 inside_def)
      then show ?thesis by (simp add: r adds_def ok c2)
    qed
  qed
qed

lemma execute_inside:
  assumes i: "inside s0 ops (Suc n) c" and proper: "proper st"
  shows "\<exists>c1 st1 r. connection_execute drv us st c = Some (c1, st1, r) \<and>
    inside s0 (ops @ adds emits st (c_world c) r) n c1 \<and>
    (c_rollbackPending c1 \<longrightarrow> c_rollbackPending c \<or> (\<exists>e. r = Inl e))"
proof (cases "requiresCommit st \<and> c_rollbackPending c")
  case True
  with inside_fewer [OF i, of n] show ?thesis by (auto simp: connection_execute_def adds_def)
next
  case False
  have avail: "drv_isAvailable drv (c_world c)" using i by (simp add: inside_def)
  obtain c1 st1 q where p: "ensure_prepared drv st c = (c1, st1, q)"
    by (cases "ensure_prepared drv st c") auto
  then have c1: "inside s0 ops (Suc n) c1" "c_rollbackPending c1 = c_rollbackPending c"
    and st1: "q = Inr () \<Longrightarrow> emits st1 (c_world c1) = emits st (c_world c)"
      "requiresCommit st1 = requiresCommit st" "proper st1"
    using proper proper_prepared i inside_world [OF i] prepare_keeps [of st "c_world c"] emits_prepare [of st "c_world c"] avail
    by (auto simp: ensure_prepared_def split: if_splits prod.splits sum.splits)
  show ?thesis
  proof (cases q)
    case (Inl e)
    with p False inside_fewer [OF c1(1), of n] c1(2) show ?thesis
      by (auto simp: connection_execute_def adds_def)
  next
    case (Inr u)
    with st1 have em: "emits st1 (c_world c1) = emits st (c_world c)" by simp
    obtain w x where x: "statement_execute drv st1 (c_world c1) = (w, x)"
      by (cases "statement_execute drv st1 (c_world c1)")
    from c1(1) have avail1: "drv_isAvailable drv (c_world c1)" by (simp add: inside_def)
    show ?thesis
    proof (cases x)
      case (Inl e)
      with x have xl: "statement_execute drv st1 (c_world c1) = (w, Inl e)" by simp
      have "inside s0 ops n (c1\<lparr>c_world := w\<rparr>)"
        using inside_world [OF inside_fewer [OF c1(1), of n]] execute_keeps [OF xl avail1]
          execute_fails [OF xl] by simp
      with p False Inr xl c1(2) show ?thesis by (auto simp: connection_execute_def adds_def)
    next
      case result: (Inr result)
      with x have xr: "statement_execute drv st1 (c_world c1) = (w, Inr result)" by simp
      obtain c2 st2 r where noted: "note_result drv (registerElapsedTime us st1) result (c1\<lparr>c_world := w\<rparr>) = (c2, st2, r)"
        by (cases "note_result drv (registerElapsedTime us st1) result (c1\<lparr>c_world := w\<rparr>)") auto
      have "connection_execute drv us st c = Some (c2, st2, r)"
        using p False Inr xr noted never_lost [OF xr] by (auto simp: connection_execute_def handle_result_def)
      moreover have "adds emits st1 (c_world c1) r = adds emits st (c_world c) r" by (cases r) (simp_all add: adds_def em)
      ultimately show ?thesis using note_result_inside [OF c1(1) st1(3) xr noted] c1(2) by auto
    qed
  qed
qed

lemma run_steps_inside:
  "inside s0 ops (length steps) c \<Longrightarrow> (\<forall>step \<in> set steps. harmless (fst step) \<and> proper (snd (snd step))) \<Longrightarrow>
   \<exists>c1 rs. run_steps drv steps c = Some (c1, rs) \<and>
     inside s0 (ops @ steps_emit drv emits steps c) 0 c1 \<and>
     (c_rollbackPending c1 \<longrightarrow> c_rollbackPending c \<or> (\<exists>e. Inl e \<in> set rs))"
proof (induction steps arbitrary: c ops)
  case Nil
  then show ?case by simp
next
  case (Cons step steps)
  obtain f us st where step: "step = (f, us, st)" by (cases step)
  let ?c = "c\<lparr>c_world := f (c_world c)\<rparr>"
  have "harmless f" and st: "proper st" using Cons.prems(2) by (simp_all add: step)
  note \<open>harmless f\<close>
  moreover have "drv_isAvailable drv (c_world c)" using Cons.prems(1) by (simp add: inside_def)
  ultimately have "inside s0 ops (Suc (length steps)) ?c"
    using Cons.prems(1) by (intro inside_world) (simp_all add: harmless_def)
  from execute_inside [OF this st, of us] obtain c1 st1 r where
    x: "connection_execute drv us st ?c = Some (c1, st1, r)" and
    i: "inside s0 (ops @ adds emits st (f (c_world c)) r) (length steps) c1" and
    rb: "c_rollbackPending c1 \<longrightarrow> c_rollbackPending c \<or> (\<exists>e. r = Inl e)" by auto
  from Cons.IH [OF i] Cons.prems(2) obtain c2 rs where
    "run_steps drv steps c1 = Some (c2, rs)"
    "inside s0 ((ops @ adds emits st (f (c_world c)) r) @ steps_emit drv emits steps c1) 0 c2"
    "c_rollbackPending c2 \<longrightarrow> c_rollbackPending c1 \<or> (\<exists>e. Inl e \<in> set rs)" by auto
  with x rb show ?case by (auto simp: step)
qed

lemma unlock_inside:
  assumes i: "inside s0 ops n c"
  shows "\<exists>c1. connection_unlock drv c = Some c1 \<and> \<not> c_mutex c1 \<and> c_lockingCounter c1 = 0 \<and>
    pending (c_world c1) = [] \<and> stored (c_world c1) = (if c_rollbackPending c then s0 else fold perform ops s0)"
proof -
  let ?c = "c\<lparr>c_lockingCounter := 0\<rparr>"
  have avail: "drv_isAvailable drv (c_world c)" using i by (simp add: inside_def)
  from commit_performs [OF avail] obtain w where w: "drv_commit drv (c_world c) = (w, Inr ())"
    "stored w = fold perform (pending (c_world c)) (stored (c_world c))" "pending w = []" by auto
  have unlock: "connection_unlock drv c = Some ((finish_work drv ?c)\<lparr>c_mutex := False\<rparr>)"
    using i by (simp add: connection_unlock_def inside_def)
  have zero: "0 < sint (c_commitPending c) \<or> ops = []" using i by (auto simp: inside_def)
  have "c_lockingCounter (finish_work drv ?c) = 0 \<and> pending (c_world (finish_work drv ?c)) = [] \<and>
      stored (c_world (finish_work drv ?c)) = (if c_rollbackPending c then s0 else fold perform ops s0)"
    using i w zero
    by (auto simp: finish_work_def connection_rollback_def rollback_drops connection_commit_def
        isAvailable_def inside_def word_sless_alt)
  with unlock show ?thesis by simp
qed

lemma lock_inside:
  assumes "drv_isAvailable drv (c_world c)" "\<not> c_mutex c" "c_lockingCounter c = 0" "c_maxCommitPending c = 0"
    "pending (c_world c) = []" "n < 2 ^ 31 - 1"
  shows "\<exists>c1. connection_lock drv c = Some (c1, Inr ()) \<and> inside (stored (c_world c)) [] n c1 \<and>
    \<not> c_rollbackPending c1"
proof -
  from begin_keeps [OF assms(1)] obtain w b where "drv_beginTransaction drv (c_world c) = (w, Inr b)"
    "stored w = stored (c_world c)" "pending w = pending (c_world c)" "drv_isAvailable drv w" by auto
  with assms show ?thesis
    by (auto simp: connection_lock_def isAvailable_def acquire_def begin_work_def inside_def)
qed

theorem all_or_nothing:
  assumes "drv_isAvailable drv (c_world c)" "\<not> c_mutex c" "c_lockingCounter c = 0" "c_maxCommitPending c = 0"
    "pending (c_world c) = []" "length steps < 2 ^ 31 - 1" "\<forall>step \<in> set steps. harmless (fst step) \<and> proper (snd (snd step))"
  shows "\<exists>c0 c1 rs. connection_lock drv c = Some (c0, Inr ()) \<and>
    unit_of_work drv steps c = Some (c1, Inr rs) \<and> \<not> c_mutex c1 \<and> c_lockingCounter c1 = 0 \<and>
    pending (c_world c1) = [] \<and>
    (stored (c_world c1) = fold perform (steps_emit drv emits steps c0) (stored (c_world c)) \<or>
     stored (c_world c1) = stored (c_world c) \<and> (\<exists>e. Inl e \<in> set rs))"
proof -
  from lock_inside [OF assms(1-6)] obtain c0 where
    l: "connection_lock drv c = Some (c0, Inr ())" and i: "inside (stored (c_world c)) [] (length steps) c0"
      "\<not> c_rollbackPending c0" by auto
  from run_steps_inside [OF i(1) assms(7)] i(2) obtain c2 rs where
    r: "run_steps drv steps c0 = Some (c2, rs)"
      "inside (stored (c_world c)) (steps_emit drv emits steps c0) 0 c2"
      "c_rollbackPending c2 \<longrightarrow> (\<exists>e. Inl e \<in> set rs)" by auto
  from unlock_inside [OF r(2)] r(1,3) l show ?thesis by (auto simp: unit_of_work_def)
qed

end

section \<open>The database of the tests\<close>

text \<open>
  \<open>MockConnection\<close> keeps its operations in a vector and performs them on the container of
  the database when it commits.  Of a record the identifier and the name are modelled, the
  fields the statements write.  \<open>mw_selection\<close> is \<open>m_selection\<close> of each reading statement
  while its \<open>m_isValid\<close> holds, and \<open>mw_heap\<close> holds the values bound to the statements.
\<close>

record mock_record =
  m_id :: cint
  m_name :: string

datatype op_code = Write | Delete

type_synonym operation = "op_code \<times> mock_record"
type_synonym mock_container = "cint \<Rightarrow> mock_record option"

record mock_world =
  mw_isOpen :: bool
  mw_avoidRecovery :: bool
  mw_commitCounter :: cuint
  mw_rollbackCounter :: cuint
  mw_openCounter :: cuint
  mw_closeCounter :: cuint
  mw_container :: mock_container
  mw_operations :: "operation list"
  mw_selection :: "string \<Rightarrow> mock_record option"
  mw_heap :: heap

definition mock_world_new :: "mock_container \<Rightarrow> heap \<Rightarrow> mock_world" where
  "mock_world_new container h =
     \<lparr>mw_isOpen = False, mw_avoidRecovery = False, mw_commitCounter = 0, mw_rollbackCounter = 0,
      mw_openCounter = 0, mw_closeCounter = 0, mw_container = container, mw_operations = [],
      mw_selection = (\<lambda>s. None), mw_heap = h\<rparr>"

definition NotFoundCode :: cint where "NotFoundCode = 0"
definition SuccessfulCode :: cint where "SuccessfulCode = 1"
definition LockCode :: cint where "LockCode = 2"
definition LostConnectionCode :: cint where "LostConnectionCode = 3"

definition mock_interpreter :: interpreter where
  "mock_interpreter =
     \<lparr>eci_notFound = (\<lambda>e. e = NotFoundCode), eci_successful = (\<lambda>e. e = SuccessfulCode),
      eci_locked = (\<lambda>e. e = LockCode), eci_lostConnection = (\<lambda>e. e = LostConnectionCode)\<rparr>"

definition mock_result :: "cint \<Rightarrow> result_code" where
  "mock_result code = result_code (Some mock_interpreter) code ''''"

definition mock_describe :: "string \<Rightarrow> mock_world \<Rightarrow> string" where
  "mock_describe base w =
     ''MockConnection {'' @ base @ '' | CommitCounter='' @ as_string_uint (mw_commitCounter w)
     @ '' | RollbackCounter='' @ as_string_uint (mw_rollbackCounter w) @ '' }''"

definition mock_open :: "mock_world \<Rightarrow> mock_world \<times> unit outcome" where
  "mock_open w =
     (let w1 = w\<lparr>mw_operations := []\<rparr>
      in if mw_avoidRecovery w1 then (w1, Inl (DatabaseException ''''))
         else (w1\<lparr>mw_openCounter := mw_openCounter w1 + 1, mw_isOpen := True\<rparr>, Inr ()))"

definition mock_close :: "mock_world \<Rightarrow> mock_world" where
  "mock_close w = w\<lparr>mw_closeCounter := mw_closeCounter w + 1, mw_isOpen := False\<rparr>"

fun mock_perform :: "operation \<Rightarrow> mock_container \<Rightarrow> mock_container" where
  "mock_perform (Write, r) m = m(m_id r := Some r)"
| "mock_perform (Delete, r) m = m(m_id r := None)"

definition mock_commit :: "string \<Rightarrow> mock_world \<Rightarrow> mock_world \<times> unit outcome" where
  "mock_commit text w =
     (if \<not> mw_isOpen w then (w, Inl (RuntimeException (text @ '' is not open'')))
      else (w\<lparr>mw_commitCounter := mw_commitCounter w + 1,
              mw_container := fold mock_perform (mw_operations w) (mw_container w),
              mw_operations := []\<rparr>, Inr ()))"

definition mock_rollback :: "mock_world \<Rightarrow> mock_world" where
  "mock_rollback w = w\<lparr>mw_rollbackCounter := mw_rollbackCounter w + 1, mw_operations := []\<rparr>"

definition addOperation :: "op_code \<Rightarrow> mock_record \<Rightarrow> mock_world \<Rightarrow> mock_world" where
  "addOperation code r w = w\<lparr>mw_operations := mw_operations w @ [(code, r)]\<rparr>"

definition getContainer :: "string \<Rightarrow> mock_world \<Rightarrow> mock_container outcome" where
  "getContainer name w =
     (if \<not> mw_isOpen w then Inl (RuntimeException (''Connection '' @ name @ '' is not available''))
      else Inr (mw_container w))"

text \<open>\<open>coffee_datatype_downcast (T, getInputData (pos))->getValue ()\<close>; the binders are there.\<close>

definition input_value :: "env \<Rightarrow> datatype_id list \<Rightarrow> nat \<Rightarrow> statement \<Rightarrow> mock_world \<Rightarrow> content outcome" where
  "input_value env types pos st w =
     (case getInputData st (of_nat pos) of
        Some (Inr ref) \<Rightarrow>
          (case downcast env types (mw_heap w ref) of
             Inl e \<Rightarrow> Inl e
           | Inr d \<Rightarrow> (case exceptionWhenIsNull d of Inl e \<Rightarrow> Inl e | Inr u \<Rightarrow> Inr (d_content d)))
      | Some (Inl e) \<Rightarrow> Inl e
      | None \<Rightarrow> Inl (RuntimeException ''undefined''))"

definition IdToThrowDbException :: cint where "IdToThrowDbException = 0"

definition write_execute :: "env \<Rightarrow> statement \<Rightarrow> mock_world \<Rightarrow> mock_world \<times> result_code outcome" where
  "write_execute env st w =
     (let code = (if st_expression st = ''write'' then Write else Delete)
      in case input_value env [TypeInteger] 0 st w of
           Inl e \<Rightarrow> (w, Inl e)
         | Inr c \<Rightarrow>
             if integer_of c = IdToThrowDbException then (w, Inr (mock_result NotFoundCode))
             else if code = Delete
             then (addOperation code \<lparr>m_id = integer_of c, m_name = ''''\<rparr> w, Inr (mock_result SuccessfulCode))
             else case input_value env [TypeString] 1 st w of
                    Inl e \<Rightarrow> (w, Inl e)
                  | Inr d \<Rightarrow> (addOperation code \<lparr>m_id = integer_of c, m_name = string_of d\<rparr> w,
                              Inr (mock_result SuccessfulCode)))"

definition read_execute :: "env \<Rightarrow> string \<Rightarrow> statement \<Rightarrow> mock_world \<Rightarrow> mock_world \<times> result_code outcome" where
  "read_execute env name st w =
     (let w1 = w\<lparr>mw_selection := (mw_selection w)(st_name st := None)\<rparr>
      in case input_value env [TypeInteger] 0 st w1 of
           Inl e \<Rightarrow> (w1, Inl e)
         | Inr c \<Rightarrow>
             (case getContainer name w1 of
                Inl e \<Rightarrow> (w1, Inl e)
              | Inr m \<Rightarrow>
                  (case m (integer_of c) of
                     None \<Rightarrow> (w1, Inr (mock_result NotFoundCode))
                   | Some r \<Rightarrow> (w1\<lparr>mw_selection := (mw_selection w1)(st_name st := Some r)\<rparr>,
                                Inr (mock_result SuccessfulCode)))))"

definition read_fetch :: "env \<Rightarrow> statement \<Rightarrow> mock_world \<Rightarrow> mock_world \<times> bool outcome" where
  "read_fetch env st w =
     (case mw_selection w (st_name st) of
        None \<Rightarrow> (w, Inr False)
      | Some r \<Rightarrow>
          (let w1 = w\<lparr>mw_selection := (mw_selection w)(st_name st := None)\<rparr>
           in case getOutputData st 0 of
                Some (Inr ref) \<Rightarrow>
                  (case downcast env [TypeString] (mw_heap w1 ref) of
                     Inl e \<Rightarrow> (w1, Inl e)
                   | Inr d \<Rightarrow>
                       (case string_set env (Some (m_name r)) d of
                          Inl e \<Rightarrow> (w1, Inl e)
                        | Inr d1 \<Rightarrow> (w1\<lparr>mw_heap := (mw_heap w1)(ref := d1)\<rparr>, Inr True)))
              | Some (Inl e) \<Rightarrow> (w1, Inl e)
              | None \<Rightarrow> (w1, Inl (RuntimeException ''undefined''))))"

definition is_read :: "statement \<Rightarrow> bool" where
  "is_read st = (st_expression st = ''read'' \<or> st_expression st = ''READ'')"

definition mock_execute :: "env \<Rightarrow> string \<Rightarrow> statement \<Rightarrow> mock_world \<Rightarrow> mock_world \<times> result_code outcome" where
  "mock_execute env name st w = (if is_read st then read_execute env name st w else write_execute env st w)"

definition mock_fetch :: "env \<Rightarrow> statement \<Rightarrow> mock_world \<Rightarrow> mock_world \<times> bool outcome" where
  "mock_fetch env st w = (if is_read st then read_fetch env st w else (w, Inr False))"

definition mock_driver :: "env \<Rightarrow> string \<Rightarrow> string \<Rightarrow> mock_world driver" where
  "mock_driver env name text =
     \<lparr>drv_isAvailable = mw_isOpen, drv_describe = mock_describe, drv_open = mock_open,
      drv_close = mock_close, drv_beginTransaction = (\<lambda>w. (w, Inr False)),
      drv_commit = mock_commit text, drv_rollback = mock_rollback,
      drv_isPrepared = (\<lambda>st w. st_prepared st), drv_prepare = (\<lambda>st w. (w, Inr ())),
      drv_prepareInput = (\<lambda>st pos ref w. (w, Inr ())), drv_prepareOutput = (\<lambda>st pos ref w. (w, Inr ())),
      drv_encode = (\<lambda>st pos ref w. (w, Inr ())), drv_execute = mock_execute env name,
      drv_fetch = mock_fetch env, drv_decode = (\<lambda>st pos ref w. (w, Inr ())), drv_failRecovery = None\<rparr>"

text \<open>What a statement adds to the operations when it succeeds.\<close>

definition mock_emits :: "env \<Rightarrow> statement \<Rightarrow> mock_world \<Rightarrow> operation list" where
  "mock_emits env st w =
     (if is_read st then []
      else case input_value env [TypeInteger] 0 st w of
             Inl e \<Rightarrow> []
           | Inr c \<Rightarrow>
               if integer_of c = IdToThrowDbException then []
               else if st_expression st \<noteq> ''write'' then [(Delete, \<lparr>m_id = integer_of c, m_name = ''''\<rparr>)]
               else (case input_value env [TypeString] 1 st w of
                       Inl e \<Rightarrow> []
                     | Inr d \<Rightarrow> [(Write, \<lparr>m_id = integer_of c, m_name = string_of d\<rparr>)]))"

text \<open>A statement as the test database allocates it: only those that read have outputs.\<close>

definition allocated :: "statement \<Rightarrow> bool" where
  "allocated st \<longleftrightarrow> is_read st \<or> st_outputs st = []"

lemma bind_loop_idle [simp]: "bind_loop (\<lambda>pos ref w. (w, Inr ())) k bs w = (w, Inr ())"
  by (induction bs arbitrary: k) auto

lemma mock_prepare [simp]: "statement_prepare (mock_driver env name text) st w = (w, Inr ())"
  by (simp add: statement_prepare_def mock_driver_def)

lemma mock_isAvailable [simp]: "drv_isAvailable (mock_driver env name desc) = mw_isOpen"
  by (simp add: mock_driver_def)

lemma mock_statement_execute [simp]:
  "statement_execute (mock_driver env name text) st w = mock_execute env name st w"
  by (simp add: statement_execute_def mock_driver_def)

lemma input_value_prepared [simp]:
  "input_value env ts k (st\<lparr>st_prepared := b\<rparr>) w = input_value env ts k st w"
  by (simp add: input_value_def getInputData_def)

lemma mock_result_flags [simp]:
  "successful (mock_result SuccessfulCode) = Inr True" "successful (mock_result NotFoundCode) = Inr False"
  "lostConnection (mock_result SuccessfulCode) = Inr False" "lostConnection (mock_result NotFoundCode) = Inr False"
  by (simp_all add: successful_def lostConnection_def mock_result_def result_code_def mock_interpreter_def
      SuccessfulCode_def NotFoundCode_def LostConnectionCode_def)

lemma write_execute_effect:
  assumes "write_execute env st w = (w', r)" "\<not> is_read st"
  shows "(r = Inr (mock_result SuccessfulCode) \<and> w' = w\<lparr>mw_operations := mw_operations w @ mock_emits env st w\<rparr>) \<or>
    ((\<exists>e. r = Inl e) \<or> r = Inr (mock_result NotFoundCode)) \<and> w' = w"
  using assms
  by (auto simp: write_execute_def mock_emits_def Let_def addOperation_def split: sum.splits if_splits)

lemma read_execute_effect:
  assumes "read_execute env name st w = (w', r)"
  shows "(\<exists>sel. w' = w\<lparr>mw_selection := sel\<rparr>) \<and>
    ((\<exists>e. r = Inl e) \<or> r = Inr (mock_result NotFoundCode) \<or> r = Inr (mock_result SuccessfulCode))"
  using assms by (auto simp: read_execute_def Let_def split: sum.splits option.splits)

lemma mock_execute_effect:
  assumes "mock_execute env name st w = (w', r)"
  shows "mw_container w' = mw_container w \<and> mw_isOpen w' = mw_isOpen w \<and>
    (\<forall>rc. r = Inr rc \<longrightarrow> rc = mock_result NotFoundCode \<or> rc = mock_result SuccessfulCode) \<and>
    mw_operations w' = mw_operations w @ (if r = Inr (mock_result SuccessfulCode) then mock_emits env st w else [])"
proof (cases "is_read st")
  case True
  with assms read_execute_effect [of env name st w w' r] show ?thesis
    by (auto simp: mock_execute_def mock_emits_def)
next
  case False
  with assms have "write_execute env st w = (w', r)" by (simp add: mock_execute_def)
  moreover have "mock_result NotFoundCode \<noteq> mock_result SuccessfulCode"
    by (simp add: mock_result_def result_code_def NotFoundCode_def SuccessfulCode_def)
  ultimately show ?thesis using write_execute_effect [OF _ False, of env w w' r] by auto
qed

interpretation mock: transactional "mock_driver env name desc" mw_container mw_operations mock_perform
  "mock_emits env" allocated for env name desc
proof (unfold_locales, goal_cases)
  case (1 w)
  then show ?case by (simp add: mock_driver_def mock_commit_def)
next
  case (2 w)
  then show ?case by (simp add: mock_driver_def mock_rollback_def)
next
  case (3 w)
  then show ?case by (simp add: mock_driver_def mock_rollback_def)
next
  case (4 w)
  then show ?case by (auto simp: mock_driver_def intro!: exI [of _ False])
next
  case (5 st w w' q)
  then show ?case by simp
next
  case (6 st w w' q b)
  then show ?case by (auto simp: mock_emits_def is_read_def split: sum.split)
next
  case (7 st w w' r)
  then show ?case using mock_execute_effect [of env name st w w' r] by simp
next
  case (8 st w w' result)
  then show ?case using mock_execute_effect [of env name st w w' "Inr result"] by auto
next
  case (9 st w w' r)
  then show ?case using mock_execute_effect [of env name st w w' r] by (auto split: if_splits)
next
  case (10 st b)
  then show ?case by (simp add: allocated_def is_read_def)
next
  case (11 st w)
  then show ?case by (simp add: allocated_def requiresCommit_def mock_emits_def)
next
  case (12 st w w' result)
  then show ?case using mock_execute_effect [of env name st w w' "Inr result"] by auto
qed


text \<open>A database with an open connection, and the statement that writes a customer.\<close>

definition customer_heap :: "cint \<Rightarrow> string \<Rightarrow> heap" where
  "customer_heap i name ref =
     (if ref = 0 then put_value (IntegerValue i) (integer_new ''ID'' False)
      else put_value (StringValue name) (string_new ''name'' 64 False))"

definition set_customer :: "cint \<Rightarrow> string \<Rightarrow> mock_world \<Rightarrow> mock_world" where
  "set_customer i name w = w\<lparr>mw_heap := customer_heap i name\<rparr>"

definition write_customer :: statement where
  "write_customer = (statement_new ''write'' ''write'' Rollback)\<lparr>st_inputs := [0, 1]\<rparr>"

definition open_connection :: "mock_world connection" where
  "open_connection = connection_new ''db'' ''cnx'' ''user'' ''pwd''
     ((mock_world_new (\<lambda>i. None) (customer_heap 0 ''''))\<lparr>mw_isOpen := True\<rparr>)"

lemmas customer_defs = set_customer_def write_customer_def open_connection_def connection_new_def
  mock_world_new_def statement_new_def customer_heap_def

lemma write_customer_input:
  "mw_heap w = customer_heap i name \<Longrightarrow>
   input_value env [TypeInteger] 0 write_customer w = Inr (IntegerValue i) \<and>
   input_value env [TypeString] 1 write_customer w = Inr (StringValue name)"
  by (simp add: input_value_def getInputData_def binder_at_def downcast_def exceptionWhenIsNull_def
      customer_defs put_value_def integer_new_def string_new_def data_new_def)

lemma write_customer_execute:
  "mw_heap w = customer_heap i name \<Longrightarrow> i \<noteq> 0 \<Longrightarrow>
   write_execute env write_customer w =
     (w\<lparr>mw_operations := mw_operations w @ [(Write, \<lparr>m_id = i, m_name = name\<rparr>)]\<rparr>, Inr (mock_result SuccessfulCode))"
  "mw_heap w = customer_heap 0 name \<Longrightarrow>
   write_execute env write_customer w = (w, Inr (mock_result NotFoundCode))"
  using write_customer_input [of w]
  by (auto simp: write_execute_def Let_def addOperation_def IdToThrowDbException_def write_customer_def statement_new_def)


section \<open>The lock\<close>

text \<open>What any number of threads can do with a connection; only the holder of the mutex executes.\<close>

inductive reachable :: "'d driver \<Rightarrow> 'd connection \<Rightarrow> bool" for drv where
  start: "reachable drv (connection_new database name user password w)"
| lock: "reachable drv c \<Longrightarrow> connection_lock drv c = Some (c1, r) \<Longrightarrow> reachable drv c1"
| unlock: "reachable drv c \<Longrightarrow> connection_unlock drv c = Some c1 \<Longrightarrow> reachable drv c1"
| execute: "reachable drv c \<Longrightarrow> c_mutex c \<Longrightarrow> connection_execute drv us st c = Some (c1, st1, q) \<Longrightarrow> reachable drv c1"
| commit: "reachable drv c \<Longrightarrow> c_mutex c \<Longrightarrow> reachable drv (fst (connection_commit drv c))"
| setMax: "reachable drv c \<Longrightarrow> c_mutex c \<Longrightarrow> reachable drv (fst (setMaxCommitPending n c))"
| outside: "reachable drv c \<Longrightarrow> reachable drv (c\<lparr>c_world := w\<rparr>)"

definition lock_ok :: "'d connection \<Rightarrow> bool" where
  "lock_ok c \<longleftrightarrow>
     (if c_mutex c then c_lockingCounter c = 1 else c_lockingCounter c = 0 \<and> \<not> c_rollbackPending c)"

lemma recover_keeps:
  "recover drv c = Some (c1, b) \<Longrightarrow> \<exists>w. c1 = c\<lparr>c_world := w\<rparr>"
  by (auto simp: recover_def notifyRecoveryFail_def split: prod.splits sum.splits option.splits)

lemma commit_keeps:
  "connection_commit drv c = (c1, r) \<Longrightarrow> c_mutex c1 = c_mutex c \<and> c_lockingCounter c1 = c_lockingCounter c \<and>
    (c_rollbackPending c1 \<longrightarrow> c_rollbackPending c)"
  by (auto simp: connection_commit_def split: if_splits prod.splits sum.splits)

lemma acquire_ok: "lock_ok c \<Longrightarrow> acquire drv c = Some (c1, r) \<Longrightarrow> lock_ok c1"
  by (auto simp: lock_ok_def acquire_def begin_work_def Let_def split: if_splits prod.splits sum.splits)

lemma lock_ok_world [simp]: "lock_ok (c\<lparr>c_world := w\<rparr>) = lock_ok c"
  by (simp add: lock_ok_def)

lemma lock_keeps_ok:
  assumes ok: "lock_ok c" and l: "connection_lock drv c = Some (c1, r)"
  shows "lock_ok c1"
proof (cases "isAvailable drv c")
  case True
  with ok l show ?thesis by (simp add: connection_lock_def acquire_ok)
next
  case False
  with l obtain c2 b where c2: "recover drv c = Some (c2, b)"
    and "(b \<and> acquire drv c2 = Some (c1, r)) \<or> c1 = c2"
    by (auto simp: connection_lock_def split: option.splits bool.splits)
  moreover have "lock_ok c2" using recover_keeps [OF c2] ok by auto
  ultimately show ?thesis by (auto intro: acquire_ok)
qed

lemma unlock_keeps_ok:
  assumes "lock_ok c" "connection_unlock drv c = Some c1"
  shows "lock_ok c1"
proof -
  let ?c = "c\<lparr>c_lockingCounter := 0\<rparr>"
  have c1: "c1 = (finish_work drv ?c)\<lparr>c_mutex := False\<rparr>"
    using assms by (auto simp: lock_ok_def connection_unlock_def split: if_splits)
  have "c_lockingCounter (finish_work drv ?c) = 0 \<and> \<not> c_rollbackPending (finish_work drv ?c)"
    using commit_keeps [of drv ?c "fst (connection_commit drv ?c)" "snd (connection_commit drv ?c)"]
    by (auto simp: finish_work_def connection_rollback_def)
  with c1 show ?thesis by (simp add: lock_ok_def)
qed

lemma note_result_keeps:
  "note_result drv st rc c = (c1, st1, r) \<Longrightarrow> c_mutex c1 = c_mutex c \<and> c_lockingCounter c1 = c_lockingCounter c"
  using commit_keeps [of drv "c\<lparr>c_commitPending := c_commitPending c + 1\<rparr>"]
  by (auto simp: note_result_def Let_def split: if_splits sum.splits bool.splits prod.splits)

lemma execute_keeps_lock:
  assumes "connection_execute drv us st c = Some (c1, st1, r)"
  shows "c_mutex c1 = c_mutex c \<and> c_lockingCounter c1 = c_lockingCounter c"
proof -
  have "c_mutex c2 = c_mutex c \<and> c_lockingCounter c2 = c_lockingCounter c"
    if "ensure_prepared drv st c = (c2, st2, q)" for c2 st2 q
    using that by (auto simp: ensure_prepared_def split: if_splits prod.splits sum.splits)
  moreover have "c_mutex c3 = c_mutex c2 \<and> c_lockingCounter c3 = c_lockingCounter c2"
    if "handle_result drv us st2 rc c2 = Some (c3, st3, q)" for c2 c3 st2 st3 rc q
    using that by (auto simp: handle_result_def split: sum.splits bool.splits
        dest!: recover_keeps dest: note_result_keeps)
  ultimately show ?thesis
    using assms by (fastforce simp: connection_execute_def split: if_splits prod.splits sum.splits)
qed

text \<open>
  C29: In every state a connection can reach, whatever the threads do and whatever the database
  answers, the locking counter is one while the mutex is held and zero otherwise, and no
  rollback is pending on a free connection.  So a thread that locks a connection it holds
  already is never let in: the counter does not make the lock recursive.
\<close>

theorem lock_counter_invariant:
  assumes "reachable drv c"
  shows "lock_ok c \<and> (c_mutex c \<and> isAvailable drv c \<longrightarrow> connection_lock drv c = None)"
proof -
  from assms have "lock_ok c"
  proof (induction rule: reachable.induct)
    case (start database name user password w)
    then show ?case by (simp add: lock_ok_def connection_new_def)
  next
    case (lock c c1 r)
    then show ?case by (blast intro: lock_keeps_ok)
  next
    case (unlock c c1)
    then show ?case by (blast intro: unlock_keeps_ok)
  next
    case (execute c us st c1 st1 q)
    with execute_keeps_lock show ?case by (fastforce simp: lock_ok_def)
  next
    case (commit c)
    then show ?case
      using commit_keeps [of drv c "fst (connection_commit drv c)" "snd (connection_commit drv c)"]
      by (simp add: lock_ok_def)
  next
    case (setMax c n)
    then show ?case by (simp add: lock_ok_def setMaxCommitPending_def)
  next
    case (outside c w)
    then show ?case by simp
  qed
  then show ?thesis by (simp add: connection_lock_def acquire_def)
qed

theorem lock_counter_invariant_witness:
  "\<exists>c1. connection_lock (mock_driver sample_env ''cnx'' ''cnx'') open_connection = Some (c1, Inr ()) \<and>
    c_mutex c1 \<and> lock_ok c1 \<and> connection_lock (mock_driver sample_env ''cnx'' ''cnx'') c1 = None"
proof -
  have r: "reachable (mock_driver sample_env ''cnx'' ''cnx'') open_connection"
    unfolding open_connection_def by (rule reachable.start)
  obtain c1 where c1: "connection_lock (mock_driver sample_env ''cnx'' ''cnx'') open_connection = Some (c1, Inr ())"
      "c_mutex c1" "mw_isOpen (c_world c1)"
    by (simp add: connection_lock_def isAvailable_def acquire_def begin_work_def mock_driver_def
        open_connection_def connection_new_def mock_world_new_def)
  from lock_counter_invariant [OF reachable.lock [OF r c1(1)]] c1 show ?thesis
    by (simp add: isAvailable_def)
qed

text \<open>
  When the transaction cannot begin, \<open>lock\<close> throws with the mutex held and the counter at
  one.  The guard was not constructed, so nothing unlocks the connection: every later
  \<open>lock\<close> on it blocks while the connection is available.
\<close>

theorem failed_begin_locks_forever:
  assumes "isAvailable drv c" "\<not> c_mutex c" "c_lockingCounter c = 0"
    "drv_beginTransaction drv (c_world c) = (w, Inl (DatabaseException e))" "drv_isAvailable drv w"
  shows "\<exists>c1. guard_new drv c = Some (c1, Inl (RuntimeException (c_str e))) \<and> c_lockingCounter c1 = 1 \<and>
    guard_new drv c1 = None"
  using assms
  by (auto simp: guard_new_def connection_lock_def acquire_def begin_work_def isAvailable_def what_def)

definition busy_driver :: "env \<Rightarrow> mock_world driver" where
  "busy_driver env = (mock_driver env ''cnx'' ''cnx'')
     \<lparr>drv_beginTransaction := (\<lambda>w. (w, Inl (DatabaseException ''busy'')))\<rparr>"

theorem failed_begin_locks_forever_witness:
  "\<exists>c1. guard_new (busy_driver sample_env) open_connection = Some (c1, Inl (RuntimeException ''busy'')) \<and>
    guard_new (busy_driver sample_env) c1 = None"
proof -
  have "\<exists>c1. guard_new (busy_driver sample_env) open_connection = Some (c1, Inl (RuntimeException (c_str ''busy''))) \<and>
      c_lockingCounter c1 = 1 \<and> guard_new (busy_driver sample_env) c1 = None"
    by (rule failed_begin_locks_forever [where w = "c_world open_connection"])
      (simp_all add: busy_driver_def isAvailable_def open_connection_def connection_new_def mock_world_new_def
        mock_driver_def)
  then show ?thesis by (auto simp: c_str_def)
qed

section \<open>A lost connection\<close>

text \<open>The test database, where the statement \<open>lost\<close> reports that the connection is lost.\<close>

definition losing_driver :: "env \<Rightarrow> mock_world driver" where
  "losing_driver env = (mock_driver env ''cnx'' ''cnx'')
     \<lparr>drv_execute := (\<lambda>st w. if st_name st = ''lost'' then (w, Inr (mock_result LostConnectionCode))
                            else mock_execute env ''cnx'' st w)\<rparr>"

lemma lost_flag: "lostConnection (mock_result LostConnectionCode) = Inr True"
  by (simp add: lostConnection_def mock_result_def result_code_def mock_interpreter_def)

definition losing_steps :: "mock_world step list" where
  "losing_steps =
     [(set_customer 7 ''x'', 1, write_customer), (set_customer 1 ''l'', 1, write_customer\<lparr>st_name := ''lost''\<rparr>),
      (set_customer 8 ''y'', 1, write_customer)]"

text \<open>
  A unit of work that loses its connection is not all or nothing.  The connection is
  reopened inside the unit, which drops what was pending, but the unit goes on as if it were
  not: the third statement succeeds and is committed, the first one, which had succeeded
  too, is gone.
\<close>

theorem lost_connection_commits_partly:
  "\<exists>c1 r2. unit_of_work (losing_driver env) losing_steps open_connection =
      Some (c1, Inr [Inr (mock_result SuccessfulCode), Inl r2, Inr (mock_result SuccessfulCode)]) \<and>
    mw_container (c_world c1) 7 = None \<and> mw_container (c_world c1) 8 = Some \<lparr>m_id = 8, m_name = ''y''\<rparr>"
  by (simp add: losing_steps_def unit_of_work_def connection_lock_def isAvailable_def acquire_def begin_work_def
      losing_driver_def mock_driver_def connection_execute_def ensure_prepared_def statement_prepare_def
      statement_execute_def handle_result_def note_result_def requiresCommit_def registerElapsedTime_def
      reachMaxCommitPending_def recover_def mock_open_def mock_close_def connection_unlock_def finish_work_def
      connection_commit_def mock_commit_def mock_execute_def is_read_def write_execute_def Let_def
      input_value_def getInputData_def binder_at_def downcast_def exceptionWhenIsNull_def
      customer_defs put_value_def integer_new_def string_new_def data_new_def IdToThrowDbException_def
      addOperation_def lost_flag word_sless_alt)

section \<open>Connections and statements of a database are found by name\<close>

definition connections_ok :: "'d database \<Rightarrow> bool" where
  "connections_ok db \<longleftrightarrow>
     distinct_keys c_name (db_connections db) \<and> length (db_connections db) \<le> MaxConnection"

text \<open>
  C36: A database never has more than 32 connections nor two of one name.  Creating one either
  leaves the database as it was, and throws, or adds the connection, opened when the
  database is running, and from then on it is the one that is found by its name, while the
  others are found as before.
\<close>

theorem createConnection_registers:
  assumes ok: "connections_ok db"
    and alloc: "\<And>n u p c. allocateConnection n u p = Allocated c \<Longrightarrow> c_name c = n"
    and create: "createConnection drv allocateConnection name user password db = (db1, r)"
  shows "connections_ok db1 \<and>
    (case r of
       Inl e \<Rightarrow> db1 = db
     | Inr c \<Rightarrow> findConnection name db = Inl (RuntimeException (database_as_string db @ '' | Connection=''
           @ [CHR 0x27] @ name @ [CHR 0x27] @ '' is not defined'')) \<and>
         findConnection name db1 = Inr c \<and> c_name c = name \<and>
         db_connections db1 = db_connections db @ [c] \<and>
         (\<forall>other. other \<noteq> name \<longrightarrow> to_option (findConnection other db1) = to_option (findConnection other db)) \<and>
         (AppCore.isRunning (s_flags (db_service db)) \<longrightarrow>
           (\<exists>w. drv_open drv w = (c_world c, Inr ()))))"
proof (cases r)
  case (Inl e)
  with create ok show ?thesis
    by (auto simp: createConnection_def split: if_splits allocation.splits prod.splits sum.splits)
next
  case (Inr c)
  with create have fresh: "lookup_by c_name name (db_connections db) = None"
    and small: "length (db_connections db) < MaxConnection"
    by (auto simp: createConnection_def split: if_splits)
  have db1: "db1 = db\<lparr>db_connections := db_connections db @ [c]\<rparr>" and c: "c_name c = name"
    and opened: "AppCore.isRunning (s_flags (db_service db)) \<longrightarrow> (\<exists>w. drv_open drv w = (c_world c, Inr ()))"
    using create Inr alloc
    by (auto simp: createConnection_def split: if_splits allocation.splits prod.splits sum.splits)
  have "connections_ok db1"
    using ok small fresh c by (auto simp: connections_ok_def db1 distinct_keys_def)
  moreover have "findConnection name db1 = Inr c"
    using fresh c by (simp add: findConnection_def db1 lookup_by_append del: lookup_by_None)
  moreover have "\<forall>other. other \<noteq> name \<longrightarrow> to_option (findConnection other db1) = to_option (findConnection other db)"
    using c by (auto simp: findConnection_def db1 lookup_by_append split: option.split dest: lookup_by_Some)
  ultimately show ?thesis using Inr fresh c opened
    by (simp add: findConnection_def db1 del: lookup_by_None)
qed

theorem createConnection_registers_witness:
  "findConnection ''cnx'' (fst (createConnection (mock_driver sample_env ''cnx'' ''cnx'')
      (\<lambda>n u p. Allocated (open_connection\<lparr>c_name := n\<rparr>)) ''cnx'' ''u'' ''p'' (database_new ''map'' None)))
    = Inr (open_connection\<lparr>c_name := ''cnx''\<rparr>)"
proof -
  let ?al = "\<lambda>n u p :: string. Allocated (open_connection\<lparr>c_name := n\<rparr>)"
  let ?db = "database_new ''map'' None :: mock_world database"
  have ok: "connections_ok ?db" by (simp add: connections_ok_def database_new_def)
  have x: "createConnection (mock_driver sample_env ''cnx'' ''cnx'') ?al ''cnx'' ''u'' ''p'' ?db =
      (?db\<lparr>db_connections := [open_connection\<lparr>c_name := ''cnx''\<rparr>]\<rparr>, Inr (open_connection\<lparr>c_name := ''cnx''\<rparr>))"
    by (simp add: createConnection_def database_new_def service_new_def MaxConnection_def)
  from createConnection_registers [OF ok _ x] show ?thesis by (simp add: x)
qed

text \<open>The statements of a database are a registry.\<close>

definition put_statement :: "statement \<Rightarrow> 'd database \<Rightarrow> 'd database option" where
  "put_statement st db =
     (case createStatement (\<lambda>n e a. Allocated st) (st_name st) (st_expression st) (st_action st) db of
        (db1, Inl e) \<Rightarrow> None | (db1, Inr s) \<Rightarrow> Some db1)"

lemma put_statement_eq:
  "put_statement st db = Some db1 \<Longrightarrow> st_name st \<notin> st_name ` set (db_statements db) \<and>
     db1 = db\<lparr>db_statements := db_statements db @ [st]\<rparr>"
  by (auto simp: put_statement_def createStatement_def split: if_splits sum.splits option.splits)

interpretation statements: registry db_statements st_name put_statement
  "\<lambda>name db. to_option (findStatement name db)"
  by unfold_locales
    (auto simp: findStatement_def dest: put_statement_eq lookup_by_Some split: option.splits)

end
