(* ===== verification/Persist.thy ===== *)
theory Persist
  imports DbmsOrder DbmsWork LruCache
begin

text \<open>
  \<open>persistence\<close>: primary keys, classes and their objects, the storages that cache the objects
  of a class, and the repository of storages.

  The values of keys and objects are in a heap with the next free reference.  The sets are
  hash tables: the loops over \<open>begin ()\<close>, \<open>end ()\<close> visit them in an order the standard does
  not fix, which is the argument \<open>order\<close>; the loops over the creation order are the lists
  themselves.
\<close>

section \<open>Primary keys\<close>

type_synonym members = "(string \<times> nat) list"

record memory =
  mem_heap :: heap
  mem_next :: nat

definition key_matches :: "heap \<Rightarrow> data_set \<Rightarrow> data_set \<Rightarrow> bool" where
  "key_matches h s t \<longleftrightarrow>
     set_size s = set_size t \<and>
     list_all (\<lambda>p. case map_of (set_datas t) (fst p) of
         None \<Rightarrow> False | Some ref \<Rightarrow> getType (h ref) = getType (h (snd p))) (set_datas s)"

definition key_hash :: "env \<Rightarrow> heap \<Rightarrow> data_set \<Rightarrow> culong" where
  "key_hash env h s =
     fold (\<lambda>p r. xor r (push_bit 1 (data_hash env (h (snd p))))) (set_datas s) (of_nat (set_size s))"

definition key_as_string :: "(members \<Rightarrow> members) \<Rightarrow> env \<Rightarrow> heap \<Rightarrow> data_set \<Rightarrow> string" where
  "key_as_string order env h s =
     ''persistence.PrimaryKey { '' @ comma_separated (map (\<lambda>p. data_as_string env (h (snd p))) (order (set_datas s)))
     @ ''}''"

text \<open>\<open>EqualSharedPointer\<close>; two pointers to one key are the same object.\<close>

definition key_equal :: "env \<Rightarrow> heap \<Rightarrow> bool \<Rightarrow> data_set \<Rightarrow> data_set \<Rightarrow> bool outcome option" where
  "key_equal env h same s t =
     map_option (\<lambda>r. case r of Inl e \<Rightarrow> Inl e | Inr c \<Rightarrow> Inr (c = 0)) (set_compare env h same s t)"

definition builder_add :: "heap \<Rightarrow> nat option \<Rightarrow> data_set \<Rightarrow> data_set outcome" where
  "builder_add h ref s = set_insert h ref s"

definition key_build :: "data_set \<Rightarrow> data_set outcome option" where
  "key_build s =
     (if set_datas s = []
      then Some (Inl (RuntimeException ''PrimaryKeyBuilder does not define any component''))
      else set_copy s)"

section \<open>Classes\<close>

record class_builder =
  cb_className :: string
  cb_members :: data_set
  cb_primaryKey :: "data_set option"

record persistent_class =
  cl_name :: string
  cl_primaryKey :: data_set
  cl_members :: data_set

record object =
  o_class :: persistent_class
  o_primaryKey :: data_set
  o_members :: data_set

definition class_builder_new :: "string \<Rightarrow> class_builder" where
  "class_builder_new name = \<lparr>cb_className = name, cb_members = set_new, cb_primaryKey = None\<rparr>"

definition class_builder_set :: "data_set \<Rightarrow> class_builder \<Rightarrow> class_builder outcome" where
  "class_builder_set key b =
     (case cb_primaryKey b of
        Some k \<Rightarrow> Inl (RuntimeException (cb_className b @ '' primary key already added''))
      | None \<Rightarrow> Inr (b\<lparr>cb_primaryKey := Some key\<rparr>))"

definition class_builder_add :: "heap \<Rightarrow> nat option \<Rightarrow> class_builder \<Rightarrow> class_builder outcome" where
  "class_builder_add h ref b =
     (case builder_add h ref (cb_members b) of Inl e \<Rightarrow> Inl e | Inr s \<Rightarrow> Inr (b\<lparr>cb_members := s\<rparr>))"

fun shared_member :: "data_set \<Rightarrow> members \<Rightarrow> string option" where
  "shared_member key [] = None"
| "shared_member key (p # ps) = (if set_contains (fst p) key then Some (fst p) else shared_member key ps)"

definition class_new :: "class_builder \<Rightarrow> data_set \<Rightarrow> persistent_class outcome option" where
  "class_new b key =
     (case set_assign False (cb_members b) set_new of
        None \<Rightarrow> None
      | Some (Inl e) \<Rightarrow> Some (Inl e)
      | Some (Inr ms) \<Rightarrow> Some (Inr \<lparr>cl_name = cb_className b, cl_primaryKey = key, cl_members = ms\<rparr>))"

definition class_build :: "(members \<Rightarrow> members) \<Rightarrow> class_builder \<Rightarrow> persistent_class outcome option" where
  "class_build order b =
     (case cb_primaryKey b of
        None \<Rightarrow> Some (Inl (RuntimeException (cb_className b @ '' does not define a valid primary key'')))
      | Some key \<Rightarrow>
          if set_datas (cb_members b) = []
          then Some (Inl (RuntimeException (cb_className b @ '' does not define any member'')))
          else case shared_member key (order (set_datas (cb_members b))) of
                 Some name \<Rightarrow> Some (Inl (RuntimeException (cb_className b @ '' member '' @ name
                     @ '' already used as a member in the primary key'')))
               | None \<Rightarrow> class_new b key)"

definition class_as_string :: "persistent_class \<Rightarrow> string" where
  "class_as_string c =
     ''persistence.Class { '' @ named_as_string (cl_name c) @ '' | N-members='' @ dec (set_size (cl_members c)) @ '' }''"

definition class_as_xml :: "persistent_class \<Rightarrow> xml_node outcome" where
  "class_as_xml c = create_attributes [(''Name'', cl_name c)] (new_node ''persistence.Class'')"

text \<open>The clones of the members of a set, inserted into a new set; \<open>None\<close> when a copy is undefined.\<close>

definition allocate :: "data \<Rightarrow> memory \<Rightarrow> memory \<times> nat" where
  "allocate d m = (\<lparr>mem_heap = (mem_heap m)(mem_next m := d), mem_next = Suc (mem_next m)\<rparr>, mem_next m)"

fun clone_members :: "members \<Rightarrow> data_set \<Rightarrow> memory \<Rightarrow> (memory \<times> data_set outcome) option" where
  "clone_members [] s m = Some (m, Inr s)"
| "clone_members (p # ps) s m =
     (case clone (mem_heap m (snd p)) of
        None \<Rightarrow> None
      | Some d \<Rightarrow>
          (case allocate d m of
             (m1, ref) \<Rightarrow>
               (case builder_add (mem_heap m1) (Some ref) s of
                  Inl e \<Rightarrow> Some (m1, Inl e)
                | Inr s1 \<Rightarrow> clone_members ps s1 m1)))"

definition createPrimaryKey ::
    "(members \<Rightarrow> members) \<Rightarrow> persistent_class \<Rightarrow> memory \<Rightarrow> (memory \<times> data_set outcome) option" where
  "createPrimaryKey order c m =
     (case clone_members (order (set_datas (cl_primaryKey c))) set_new m of
        None \<Rightarrow> None
      | Some (m1, Inl e) \<Rightarrow> Some (m1, Inl e)
      | Some (m1, Inr s) \<Rightarrow> map_option (\<lambda>r. (m1, r)) (key_build s))"

definition createObject ::
    "(members \<Rightarrow> members) \<Rightarrow> persistent_class \<Rightarrow> data_set \<Rightarrow> memory \<Rightarrow> (memory \<times> object outcome) option" where
  "createObject order c key m =
     (if \<not> key_matches (mem_heap m) (cl_primaryKey c) key
      then Some (m, Inl (RuntimeException (class_as_string c @ '' primary key does not matches with class'')))
      else case clone_members (order (set_datas (cl_members c))) set_new m of
             None \<Rightarrow> None
           | Some (m1, Inl e) \<Rightarrow> Some (m1, Inl e)
           | Some (m1, Inr ms) \<Rightarrow>
               (case set_copy ms of
                  None \<Rightarrow> None
                | Some (Inl e) \<Rightarrow> Some (m1, Inl e)
                | Some (Inr copy) \<Rightarrow> Some (m1, Inr \<lparr>o_class = c, o_primaryKey = key, o_members = copy\<rparr>)))"

definition object_as_string :: "(members \<Rightarrow> members) \<Rightarrow> env \<Rightarrow> heap \<Rightarrow> object \<Rightarrow> string" where
  "object_as_string order env h ob =
     ''persistence.Object { ClassName='' @ cl_name (o_class ob) @ '' | '' @ key_as_string order env h (o_primaryKey ob)
     @ '' | Members={ '' @ comma_separated (map (\<lambda>p. data_as_string env (h (snd p))) (order (set_datas (o_members ob))))
     @ ''} }''"

section \<open>Objects do not share their values with their class\<close>

text \<open>A set of the memory: never cleared, its members are there under their own names and can be copied.\<close>

definition set_in_memory :: "memory \<Rightarrow> data_set \<Rightarrow> bool" where
  "set_in_memory m s \<longleftrightarrow>
     set_stale s = 0 \<and> distinct_keys fst (set_datas s) \<and>
     (\<forall>p \<in> set (set_datas s). snd p < mem_next m \<and> fst p = c_str (d_name (mem_heap m (snd p))) \<and>
        clone (mem_heap m (snd p)) \<noteq> None)"

lemma clone_same: "clone d = Some e \<Longrightarrow> e = d"
  by (auto simp: clone_def split: content.splits if_splits)

lemma clone_members_fresh:
  "distinct_keys fst (set_datas s @ ps) \<Longrightarrow>
   (\<forall>p \<in> set ps. snd p < n \<and> fst p = c_str (d_name (mem_heap m (snd p))) \<and> clone (mem_heap m (snd p)) \<noteq> None) \<Longrightarrow>
   n \<le> mem_next m \<Longrightarrow>
   \<exists>m1. clone_members ps s m =
       Some (m1, Inr (s\<lparr>set_datas := set_datas s @ zip (map fst ps) [mem_next m..<mem_next m + length ps]\<rparr>)) \<and>
     mem_next m1 = mem_next m + length ps \<and>
     (\<forall>ref < mem_next m. mem_heap m1 ref = mem_heap m ref) \<and>
     (\<forall>i < length ps. mem_heap m1 (mem_next m + i) = mem_heap m (snd (ps ! i)))"
proof (induction ps arbitrary: s m)
  case Nil
  then show ?case by simp
next
  case (Cons p ps)
  let ?d = "mem_heap m (snd p)"
  let ?m = "\<lparr>mem_heap = (mem_heap m)(mem_next m := ?d), mem_next = Suc (mem_next m)\<rparr>"
  let ?s = "s\<lparr>set_datas := set_datas s @ [(fst p, mem_next m)]\<rparr>"
  from Cons.prems(2) obtain e where "clone ?d = Some e" by auto
  then have cl: "clone ?d = Some ?d" using clone_same by metis
  have name: "c_str (d_name ?d) = fst p" using Cons.prems(2) by simp
  have "fst p \<notin> fst ` set (set_datas s)" using Cons.prems(1) by (auto simp: distinct_keys_def)
  then have ins: "builder_add (mem_heap ?m) (Some (mem_next m)) s = Inr ?s"
    using name by (simp add: builder_add_def set_insert_def insert_named_ok)
  have prems: "distinct_keys fst (set_datas ?s @ ps)" "n \<le> mem_next ?m"
    "\<forall>q \<in> set ps. snd q < n \<and> fst q = c_str (d_name (mem_heap ?m (snd q))) \<and> clone (mem_heap ?m (snd q)) \<noteq> None"
    using Cons.prems by (auto simp: distinct_keys_def)
  from Cons.IH [OF prems(1,3,2)] obtain m1 where m1:
    "clone_members ps ?s ?m =
       Some (m1, Inr (?s\<lparr>set_datas := set_datas ?s @ zip (map fst ps) [mem_next ?m..<mem_next ?m + length ps]\<rparr>))"
    "mem_next m1 = mem_next ?m + length ps" "\<forall>ref < mem_next ?m. mem_heap m1 ref = mem_heap ?m ref"
    "\<forall>i < length ps. mem_heap m1 (mem_next ?m + i) = mem_heap ?m (snd (ps ! i))" by blast
  have "clone_members (p # ps) s m = clone_members ps ?s ?m"
    using cl ins by (simp add: allocate_def)
  moreover have "mem_heap m1 (mem_next m + i) = mem_heap m (snd ((p # ps) ! i))" if "i < length (p # ps)" for i
  proof (cases i)
    case 0
    with m1(3) show ?thesis by simp
  next
    case (Suc j)
    with that have "snd (ps ! j) < n" using Cons.prems(2) by simp
    with Suc that m1(4) Cons.prems(3) show ?thesis by auto
  qed
  moreover have "[mem_next m..<mem_next m + length (p # ps)] =
      mem_next m # [Suc (mem_next m)..<Suc (mem_next m) + length ps]"
    by (subst upt_conv_Cons) (simp_all del: upt_Suc)
  ultimately show ?case using m1 by (intro exI [of _ m1]) auto
qed

lemma map_of_zip_fst:
  "distinct (map fst ps) \<Longrightarrow> length ns = length ps \<Longrightarrow> i < length ps \<Longrightarrow>
   map_of (zip (map fst ps) ns) (fst (ps ! i)) = Some (ns ! i)"
  by (rule map_of_is_SomeI) (auto simp: set_zip intro!: exI [of _ i])

text \<open>
  Creating an object of a class returns an object with the key that was given and with
  the members of the class, whatever order the hash table visits them in.  Every member is
  a new value, equal to that of the class: what is written into the object later changes
  neither the class nor anything else that was there before.
\<close>

lemma createObject_copies:
  assumes mem: "set_in_memory m (cl_members c)" and key: "key_matches (mem_heap m) (cl_primaryKey c) key"
    and order: "\<And>xs. mset (order xs) = mset xs"
  shows "\<exists>m1 ob. createObject order c key m = Some (m1, Inr ob) \<and> o_class ob = c \<and> o_primaryKey ob = key \<and>
    (\<forall>ref < mem_next m. mem_heap m1 ref = mem_heap m ref) \<and>
    fst ` set (set_datas (o_members ob)) = fst ` set (set_datas (cl_members c)) \<and>
    (\<forall>(name, ref) \<in> set (set_datas (cl_members c)). \<exists>ref1. map_of (set_datas (o_members ob)) name = Some ref1 \<and>
       mem_next m \<le> ref1 \<and> mem_heap m1 ref1 = mem_heap m ref)"
proof -
  define ps where "ps = order (set_datas (cl_members c))"
  have set: "set ps = set (set_datas (cl_members c))"
    using order [of "set_datas (cl_members c)"] unfolding ps_def by (metis set_mset_mset)
  have "mset (map fst ps) = mset (map fst (set_datas (cl_members c)))"
    using order [of "set_datas (cl_members c)"] by (simp add: ps_def)
  then have "distinct (map fst ps) = distinct (map fst (set_datas (cl_members c)))"
    by (rule mset_eq_imp_distinct_iff)
  then have dist: "distinct (map fst ps)" using mem by (simp add: set_in_memory_def distinct_keys_def)
  have good: "\<forall>p \<in> set ps. snd p < mem_next m \<and> fst p = c_str (d_name (mem_heap m (snd p))) \<and>
      clone (mem_heap m (snd p)) \<noteq> None"
    using mem set by (simp add: set_in_memory_def)
  let ?ns = "[mem_next m..<mem_next m + length ps]"
  let ?ms = "set_new\<lparr>set_datas := zip (map fst ps) ?ns\<rparr>"
  have "distinct_keys fst (set_datas set_new @ ps)" using dist by (simp add: distinct_keys_def set_new_def)
  from clone_members_fresh [OF this good order_refl] obtain m1 where
    cl: "clone_members ps set_new m = Some (m1, Inr ?ms)" and
    old: "\<forall>ref < mem_next m. mem_heap m1 ref = mem_heap m ref" and
    new: "\<forall>i < length ps. mem_heap m1 (mem_next m + i) = mem_heap m (snd (ps ! i))"
    by (auto simp: set_new_def)
  have "set_copy ?ms = Some (Inr ?ms)"
    using dist by (intro set_copy_same) (simp_all add: set_new_def distinct_keys_def)
  with cl key have "createObject order c key m =
      Some (m1, Inr \<lparr>o_class = c, o_primaryKey = key, o_members = ?ms\<rparr>)"
    by (simp add: createObject_def flip: ps_def)
  moreover have "\<forall>(name, ref) \<in> set (set_datas (cl_members c)).
      \<exists>ref1. map_of (zip (map fst ps) ?ns) name = Some ref1 \<and> mem_next m \<le> ref1 \<and> mem_heap m1 ref1 = mem_heap m ref"
  proof (intro ballI, clarify)
    fix name ref assume "(name, ref) \<in> set (set_datas (cl_members c))"
    then have "(name, ref) \<in> set ps" by (simp add: set)
    then obtain i where i: "i < length ps" "ps ! i = (name, ref)" by (auto simp: in_set_conv_nth)
    with map_of_zip_fst [OF dist _ i(1), of ?ns] new
    show "\<exists>ref1. map_of (zip (map fst ps) ?ns) name = Some ref1 \<and> mem_next m \<le> ref1 \<and> mem_heap m1 ref1 = mem_heap m ref"
      by auto
  qed
  moreover have "fst ` set (zip (map fst ps) ?ns) = fst ` set (set_datas (cl_members c))"
    unfolding set [symmetric] by (metis length_map length_upt add_diff_cancel_left' list.set_map map_fst_zip)
  ultimately show ?thesis using old
    by (intro exI [of _ m1] exI [of _ "\<lparr>o_class = c, o_primaryKey = key, o_members = ?ms\<rparr>"] conjI) simp_all
qed

definition sample_memory :: memory where
  "sample_memory = \<lparr>mem_heap = (\<lambda>ref. if ref = 0 then integer_new ''id'' False else string_new ''name'' 64 True), mem_next = 2\<rparr>"

definition sample_class :: persistent_class where
  "sample_class = \<lparr>cl_name = ''customer'', cl_primaryKey = \<lparr>set_datas = [(''id'', 0)], set_stale = 0\<rparr>,
     cl_members = \<lparr>set_datas = [(''name'', 1)], set_stale = 0\<rparr>\<rparr>"

lemma sample_create:
  "\<exists>m1 ob. createObject rev sample_class (cl_primaryKey sample_class) sample_memory = Some (m1, Inr ob) \<and>
    (\<exists>ref1. map_of (set_datas (o_members ob)) ''name'' = Some ref1 \<and> 2 \<le> ref1)"
proof -
  have mem: "set_in_memory sample_memory (cl_members sample_class)"
    by (simp add: set_in_memory_def sample_memory_def sample_class_def distinct_keys_def string_new_def
        data_new_def clone_def c_str_def)
  have key: "key_matches (mem_heap sample_memory) (cl_primaryKey sample_class) (cl_primaryKey sample_class)"
    by (simp add: key_matches_def sample_class_def)
  from createObject_copies [OF mem key, of rev] show ?thesis
    by (fastforce simp: sample_class_def sample_memory_def)
qed

section \<open>Hashing of keys\<close>

definition hashable :: "data \<Rightarrow> bool" where
  "hashable d \<longleftrightarrow> \<not> d_isNull d \<and> wf_data d \<and>
     getType d \<in> {TypeInteger, TypeString, TypeDate, TypeTimeStamp}"

lemma equal_hash:
  assumes "hashable a" "hashable b" "data_view a = data_view b"
  shows "data_hash env a = data_hash env b"
proof -
  have v: "view (d_content a) = view (d_content b)"
    using assms by (simp add: hashable_def data_view_def)
  then have "type_of (d_content a) = type_of (d_content b)" by (metis type_view)
  then show ?thesis
    using v assms(1,2)
    by (cases rule: same_type_cases) (auto simp: data_hash_def hashable_def wf_data_def)
qed

lemma hash_loop_equal:
  "list_all2 (\<lambda>p q. data_hash env (h (snd p)) = data_hash env (h (snd q))) ps qs \<Longrightarrow>
   fold (\<lambda>p r. xor r (push_bit 1 (data_hash env (h (snd p))))) ps (x :: culong) =
   fold (\<lambda>p r. xor r (push_bit 1 (data_hash env (h (snd p))))) qs x"
  by (induction ps qs arbitrary: x rule: list_all2_induct) auto

text \<open>
  Keys of one class that \<open>EqualSharedPointer\<close> takes for equal have one hash, so that the
  hash table of a storage finds one by the other, provided no component is null and the
  components are integers, strings, dates or time stamps.
\<close>

theorem equal_keys_hash_alike:
  assumes c: "comparable_sets h s t" and eq: "key_equal env h False s t = Some (Inr True)"
    and hs: "\<forall>d \<in> set (set_values h s) \<union> set (set_values h t). hashable d"
  shows "key_hash env h s = key_hash env h t"
proof -
  have views: "map data_view (set_values h s) = map data_view (set_values h t)"
    using sets.zero [OF c, of env] eq set_compare_first [OF c, of env]
    by (auto simp: key_equal_def set_result_def split: sum.splits)
  have len: "length (set_datas s) = length (set_datas t)"
    using c by (auto simp: comparable_sets_def dest: list_all2_lengthD)
  have "list_all2 (\<lambda>p q. data_hash env (h (snd p)) = data_hash env (h (snd q))) (set_datas s) (set_datas t)"
  proof (rule list_all2_all_nthI [OF len])
    fix i assume i: "i < length (set_datas s)"
    have "data_view (h (snd (set_datas s ! i))) = data_view (h (snd (set_datas t ! i)))"
      using arg_cong [OF views, of "\<lambda>xs. xs ! i"] i len by (simp add: set_values_def)
    with hs i len show "data_hash env (h (snd (set_datas s ! i))) = data_hash env (h (snd (set_datas t ! i)))"
      by (intro equal_hash) (auto simp: set_values_def)
  qed
  with hash_loop_equal len show ?thesis by (simp add: key_hash_def set_size_def)
qed

definition one_integer :: "nat \<Rightarrow> data_set" where
  "one_integer k = \<lparr>set_datas = [(''id'', k)], set_stale = 0\<rparr>"

definition integers_heap :: "(nat \<Rightarrow> cint) \<Rightarrow> bool \<Rightarrow> heap" where
  "integers_heap f null ref = (put_value (IntegerValue (f ref)) (integer_new ''id'' True))\<lparr>d_isNull := null\<rparr>"

lemma one_integer_comparable:
  "\<bar>sint (f j)\<bar> < 2 ^ 30 \<Longrightarrow> \<bar>sint (f k)\<bar> < 2 ^ 30 \<Longrightarrow>
   comparable_sets (integers_heap f null) (one_integer j) (one_integer k)"
  by (simp add: comparable_sets_def one_integer_def integers_heap_def distinct_keys_def
      comparable_member_def comparable_data_def put_value_def integer_new_def data_new_def)

theorem equal_keys_hash_alike_witness:
  "key_equal env (integers_heap (\<lambda>ref. 5) False) False (one_integer 0) (one_integer 1) = Some (Inr True) \<and>
   key_hash env (integers_heap (\<lambda>ref. 5) False) (one_integer 0) =
   key_hash env (integers_heap (\<lambda>ref. 5) False) (one_integer 1)"
proof -
  have c: "comparable_sets (integers_heap (\<lambda>ref. 5) False) (one_integer 0) (one_integer 1)"
    by (rule one_integer_comparable) simp_all
  have eq: "key_equal env (integers_heap (\<lambda>ref. 5) False) False (one_integer 0) (one_integer 1) = Some (Inr True)"
    by (simp add: key_equal_def set_compare_def one_integer_def integers_heap_def set_size_def set_find_def
        data_compare_def compare_defs put_value_def integer_new_def data_new_def hasValue_def)
  have "\<forall>d \<in> set (set_values (integers_heap (\<lambda>ref. 5) False) (one_integer 0)) \<union>
      set (set_values (integers_heap (\<lambda>ref. 5) False) (one_integer 1)). hashable d"
    by (simp add: set_values_def one_integer_def integers_heap_def hashable_def wf_data_def
        put_value_def integer_new_def data_new_def)
  from equal_keys_hash_alike [OF c eq this] eq show ?thesis by simp
qed

text \<open>
  A null component compares by its null flag alone but is hashed by the value it had
  before: two keys that are equal can have different hashes, and a storage does not find
  the object of one by the other.
\<close>

theorem null_keys_hash_apart:
  "key_equal env (integers_heap of_nat True) False (one_integer 0) (one_integer 1) = Some (Inr True) \<and>
   key_hash (env\<lparr>hash_int := ucast\<rparr>) (integers_heap of_nat True) (one_integer 0) \<noteq>
   key_hash (env\<lparr>hash_int := ucast\<rparr>) (integers_heap of_nat True) (one_integer 1)"
  by (simp add: key_equal_def set_compare_def one_integer_def integers_heap_def set_size_def set_find_def
      data_compare_def compare_defs put_value_def integer_new_def data_new_def hasValue_def key_hash_def data_hash_def)

section \<open>Storages\<close>

text \<open>
  The accessors are classes of the application: a loader reads an object with its statement,
  a recorder writes one, an eraser removes one.  Their virtual functions are fields, which
  work on the guard of the connection and on the statement; \<open>None\<close> is a call that does not
  return.  \<open>ld_create\<close> is \<open>createObject\<close> of the loader's class for its key.  A storage keeps
  references \<open>'o\<close> of objects under the keys \<open>'k\<close> as the hash and the comparison tell them
  apart.
\<close>

type_synonym ('d, 'r) guarded = "('d guard \<times> statement \<times> 'r) option"

record ('d, 'k, 'o) loader =
  ld_name :: string
  ld_statement :: statement
  ld_key :: 'k
  ld_create :: "'d \<Rightarrow> 'd \<times> 'o outcome"
  ld_apply :: "'o \<Rightarrow> 'd guard \<Rightarrow> statement \<Rightarrow> ('d, result_code outcome) guarded"
  ld_hasToRefresh :: "'o \<Rightarrow> 'd guard \<Rightarrow> statement \<Rightarrow> ('d, bool outcome) guarded"

record ('d, 'k) accessor =
  ac_name :: string
  ac_statement :: statement
  ac_key :: 'k
  ac_autoCommit :: bool
  ac_apply :: "'d guard \<Rightarrow> statement \<Rightarrow> ('d, result_code outcome) guarded"

record ('k, 'o) storage =
  sto_name :: string
  sto_cache :: "('k, 'o) cache"
  sto_hit :: cuint
  sto_fault :: cuint

definition storage_new :: "string \<Rightarrow> cint \<Rightarrow> ('k, 'o) storage" where
  "storage_new name maxCacheSize =
     \<lparr>sto_name = name, sto_cache = cache_new maxCacheSize, sto_hit = 0, sto_fault = 0\<rparr>"

definition setAutoCommit :: "bool \<Rightarrow> ('d, 'k) accessor \<Rightarrow> ('d, 'k) accessor \<times> bool" where
  "setAutoCommit v a = (a\<lparr>ac_autoCommit := v\<rparr>, ac_autoCommit a)"

text \<open>The scopes of the two guards: their destructors run however the body ends.\<close>

definition with_connection ::
    "'d driver \<Rightarrow> 'd connection \<Rightarrow> (exn \<Rightarrow> 'a) \<Rightarrow> ('d guard \<Rightarrow> ('d guard \<times> 'a) option) \<Rightarrow> ('d connection \<times> 'a) option" where
  "with_connection drv c thrown body =
     (case guard_new drv c of
        None \<Rightarrow> None
      | Some (c1, Inl e) \<Rightarrow> Some (c1, thrown e)
      | Some (c1, Inr g) \<Rightarrow>
          (case body g of
             None \<Rightarrow> None
           | Some (g1, a) \<Rightarrow> map_option (\<lambda>c2. (c2, a)) (guard_delete drv g1)))"

definition with_statement ::
    "'d driver \<Rightarrow> statement \<Rightarrow> 'd guard \<Rightarrow> (exn \<Rightarrow> 'a) \<Rightarrow> ('d guard \<Rightarrow> statement \<Rightarrow> ('d, 'a) guarded) \<Rightarrow> ('d, 'a) guarded" where
  "with_statement drv st g thrown body =
     (case guard_statement drv st g of
        None \<Rightarrow> None
      | Some (g1, st1, Inl e) \<Rightarrow> Some (g1, st1, thrown e)
      | Some (g1, st1, Inr u) \<Rightarrow>
          (case body g1 st1 of
             None \<Rightarrow> None
           | Some (g2, st2, a) \<Rightarrow>
               (case guard_statement_delete st2 g2 of (g3, st3) \<Rightarrow> Some (g3, st3, a))))"

text \<open>\<open>if (resultCode.successful () == false) throw\<close>.\<close>

definition check_result :: "string \<Rightarrow> result_code outcome \<Rightarrow> unit outcome" where
  "check_result name r =
     (case r of
        Inl e \<Rightarrow> Inl e
      | Inr rc \<Rightarrow> (case successful rc of
                     Inl e \<Rightarrow> Inl e
                   | Inr ok \<Rightarrow> if ok then Inr () else Inl (named_exception name rc)))"

definition load_fault ::
    "('d, 'k, 'o) loader \<Rightarrow> ('k, 'o) storage \<Rightarrow> 'd guard \<Rightarrow> statement \<Rightarrow> ('d, ('k, 'o) storage \<times> 'o outcome) guarded" where
  "load_fault l s g st =
     (let s1 = s\<lparr>sto_fault := sto_fault s + 1\<rparr>
      in case ld_create l (c_world (g_connection g)) of
           (w, Inl e) \<Rightarrow> Some (g\<lparr>g_connection := (g_connection g)\<lparr>c_world := w\<rparr>\<rparr>, st, s1, Inl e)
         | (w, Inr ob) \<Rightarrow>
             (case ld_apply l ob (g\<lparr>g_connection := (g_connection g)\<lparr>c_world := w\<rparr>\<rparr>) st of
                None \<Rightarrow> None
              | Some (g1, st1, r) \<Rightarrow>
                  (case check_result (ld_name l) r of
                     Inl e \<Rightarrow> Some (g1, st1, s1, Inl e)
                   | Inr u \<Rightarrow> map_option (\<lambda>c. (g1, st1, s1\<lparr>sto_cache := c\<rparr>, Inr ob))
                                (cache_set (ld_key l) ob (sto_cache s1)))))"

definition load_hit ::
    "('d, 'k, 'o) loader \<Rightarrow> 'o \<Rightarrow> ('k, 'o) storage \<Rightarrow> 'd guard \<Rightarrow> statement \<Rightarrow> ('d, ('k, 'o) storage \<times> 'o outcome) guarded" where
  "load_hit l ob s g st =
     (let s1 = s\<lparr>sto_hit := sto_hit s + 1\<rparr>
      in case ld_hasToRefresh l ob g st of
           None \<Rightarrow> None
         | Some (g1, st1, Inl e) \<Rightarrow> Some (g1, st1, s1, Inl e)
         | Some (g1, st1, Inr refresh) \<Rightarrow>
             if \<not> refresh then Some (g1, st1, s1, Inr ob)
             else (case ld_apply l ob g1 st1 of
                     None \<Rightarrow> None
                   | Some (g2, st2, r) \<Rightarrow>
                       Some (g2, st2, s1, (case check_result (ld_name l) r of Inl e \<Rightarrow> Inl e | Inr u \<Rightarrow> Inr ob))))"

text \<open>\<open>find\<close> comes before the guards; \<open>value\<close> follows the iterator it returned.\<close>

definition storage_load ::
    "'d driver \<Rightarrow> ('d, 'k, 'o) loader \<Rightarrow> 'd connection \<Rightarrow> ('k, 'o) storage
     \<Rightarrow> ('d connection \<times> statement \<times> ('k, 'o) storage \<times> 'o outcome) option" where
  "storage_load drv l c s =
     (case cache_find (ld_key l) (sto_cache s) of
        None \<Rightarrow> None
      | Some (cache1, vv) \<Rightarrow>
          (let s1 = s\<lparr>sto_cache := cache1\<rparr>; st = ld_statement l
           in with_connection drv c (\<lambda>e. (st, s1, Inl e))
                (\<lambda>g. with_statement drv st g (\<lambda>e. (s1, Inl e))
                   (\<lambda>g1 st1.
                      case vv of
                        None \<Rightarrow> load_fault l s1 g1 st1
                      | Some node \<Rightarrow>
                          (case cache_value cache1 node of
                             None \<Rightarrow> None
                           | Some ob \<Rightarrow> load_hit l ob s1 g1 st1)))))"

text \<open>\<open>save\<close> and \<open>erase\<close> share how they run the accessor and commit.\<close>

definition run_accessor :: "'d driver \<Rightarrow> ('d, 'k) accessor \<Rightarrow> 'd guard \<Rightarrow> ('d, unit outcome) guarded" where
  "run_accessor drv a g =
     with_statement drv (ac_statement a) g Inl
       (\<lambda>g1 st1.
          case ac_apply a g1 st1 of
            None \<Rightarrow> None
          | Some (g2, st2, r) \<Rightarrow>
              (case check_result (ac_name a) r of
                 Inl e \<Rightarrow> Some (g2, st2, Inl e)
               | Inr u \<Rightarrow>
                   if ac_autoCommit a
                   then (case guard_commit drv g2 of (g3, q) \<Rightarrow> Some (g3, st2, q))
                   else Some (g2, st2, Inr ())))"

definition storage_save_guard :: "'d driver \<Rightarrow> ('d, 'k) accessor \<Rightarrow> 'd guard \<Rightarrow> ('d, unit outcome) guarded" where
  "storage_save_guard drv recorder g = run_accessor drv recorder g"

definition storage_save ::
    "'d driver \<Rightarrow> ('d, 'k) accessor \<Rightarrow> 'd connection \<Rightarrow> ('d connection \<times> statement \<times> unit outcome) option" where
  "storage_save drv recorder c =
     with_connection drv c (\<lambda>e. (ac_statement recorder, Inl e)) (storage_save_guard drv recorder)"

text \<open>The object leaves the cache first, whether or not it can be erased then.\<close>

definition storage_erase_guard ::
    "'d driver \<Rightarrow> ('d, 'k) accessor \<Rightarrow> ('k, 'o) storage \<Rightarrow> 'd guard
     \<Rightarrow> ('d guard \<times> statement \<times> ('k, 'o) storage \<times> unit outcome) option" where
  "storage_erase_guard drv eraser s g =
     (let (cache1, found) = cache_erase (ac_key eraser) (sto_cache s);
          s1 = (if found then s\<lparr>sto_cache := cache1, sto_hit := sto_hit s + 1\<rparr>
                else s\<lparr>sto_cache := cache1, sto_fault := sto_fault s + 1\<rparr>)
      in map_option (\<lambda>(g1, st1, r). (g1, st1, s1, r)) (run_accessor drv eraser g))"

definition storage_erase ::
    "'d driver \<Rightarrow> ('d, 'k) accessor \<Rightarrow> 'd connection \<Rightarrow> ('k, 'o) storage
     \<Rightarrow> ('d connection \<times> statement \<times> ('k, 'o) storage \<times> unit outcome) option" where
  "storage_erase drv eraser c s =
     with_connection drv c (\<lambda>e. (ac_statement eraser, s, Inl e)) (storage_erase_guard drv eraser s)"

definition storage_as_string :: "('k, 'o) storage \<Rightarrow> string" where
  "storage_as_string s =
     ''persistence.Storage {'' @ named_as_string (sto_name s) @ '' | Hit='' @ as_string_uint (sto_hit s)
     @ '' | Fault='' @ as_string_uint (sto_fault s) @ '' | '' @ cache_as_string (sto_cache s) @ '' }''"

text \<open>The size goes into the node of the accesses; the node of the cache stays empty.\<close>

definition storage_as_xml :: "('k, 'o) storage \<Rightarrow> xml_node outcome" where
  "storage_as_xml s =
     (case create_attributes [(''Name'', sto_name s)] (new_node ''persistence.Storage'') of
        Inl e \<Rightarrow> Inl e
      | Inr n \<Rightarrow>
          add_children
            [create_attributes
               [(''Hit'', as_string_uint (sto_hit s)), (''Fault'', as_string_uint (sto_fault s)),
                (''Size'', as_string_int (of_nat (cache_size (sto_cache s))))] (new_node ''Access''),
             Inr (new_node ''Cache(LRU)'')] n)"

section \<open>The repository\<close>

record ('k, 'o) repository =
  rep_name :: string
  rep_storages :: "('k, 'o) storage list"

definition createStorage :: "string \<Rightarrow> cint \<Rightarrow> ('k, 'o) repository \<Rightarrow> ('k, 'o) repository outcome" where
  "createStorage ident maxCacheSize r =
     (if lookup_by sto_name ident (rep_storages r) \<noteq> None
      then Inl (RuntimeException (''Ident='' @ ident @ '' has already been used''))
      else Inr (r\<lparr>rep_storages := rep_storages r @ [storage_new ident maxCacheSize]\<rparr>))"

definition findStorage :: "string \<Rightarrow> ('k, 'o) repository \<Rightarrow> ('k, 'o) storage outcome" where
  "findStorage ident r =
     (case lookup_by sto_name ident (rep_storages r) of
        None \<Rightarrow> Inl (RuntimeException (''ID='' @ ident @ '' has not been defined yet''))
      | Some s \<Rightarrow> Inr s)"

definition repository_as_string :: "('k, 'o) repository \<Rightarrow> string" where
  "repository_as_string r =
     ''persistence.Repository { '' @ named_as_string (rep_name r) @ '' | N-Size='' @ dec (length (rep_storages r)) @ '' }''"

definition repository_as_xml ::
    "(('k, 'o) storage list \<Rightarrow> ('k, 'o) storage list) \<Rightarrow> ('k, 'o) repository \<Rightarrow> xml_node outcome" where
  "repository_as_xml order r =
     (case create_attributes [(''Name'', rep_name r)] (new_node ''persistence.Repository'') of
        Inl e \<Rightarrow> Inl e
      | Inr n \<Rightarrow> add_children (map storage_as_xml (order (rep_storages r))) n)"

section \<open>What a storage promises\<close>

definition storage_ok :: "('k, 'o) storage \<Rightarrow> bool" where
  "storage_ok s \<longleftrightarrow> cache_inv (sto_cache s) \<and> 0 < capacity (sto_cache s)"

text \<open>The objects a storage holds, from the least to the most recently used.\<close>

abbreviation objects :: "('k, 'o) storage \<Rightarrow> ('k \<times> 'o) list" where
  "objects s \<equiv> recency (sto_cache s)"

lemma with_connection_cases:
  assumes "with_connection drv c thrown body = Some (c1, a)"
  obtains e where "a = thrown e" | g g1 where "body g = Some (g1, a)"
  using assms by (auto simp: with_connection_def split: option.splits sum.splits)

lemma with_statement_cases:
  assumes "with_statement drv st g thrown body = Some (g1, st1, a)"
  obtains e where "a = thrown e" | g2 st2 g3 st3 where "body g2 st2 = Some (g3, st3, a)"
  using assms by (auto simp: with_statement_def split: option.splits sum.splits prod.splits)

lemma load_fault_effect:
  assumes ok: "storage_ok s" and l: "load_fault l s g st = Some (g1, st1, s1, r)"
  shows "storage_ok s1 \<and> sto_hit s1 = sto_hit s \<and> sto_fault s1 = sto_fault s + 1 \<and> sto_name s1 = sto_name s \<and>
    capacity (sto_cache s1) = capacity (sto_cache s) \<and>
    objects s1 = (case r of Inl e \<Rightarrow> objects s | Inr ob \<Rightarrow> store (capacity (sto_cache s)) (ld_key l) ob (objects s))"
proof -
  have inv: "cache_inv (sto_cache s)" "0 < capacity (sto_cache s)" using ok by (simp_all add: storage_ok_def)
  have law: "cache_inv c1 \<and> recency c1 = store (capacity (sto_cache s)) (ld_key l) ob (objects s) \<and>
      capacity c1 = capacity (sto_cache s)" if "cache_set (ld_key l) ob (sto_cache s) = Some c1" for ob c1
    using lru.ins_law [OF inv, of "ld_key l" ob] that by auto
  from l show ?thesis
    using ok by (auto simp: load_fault_def Let_def storage_ok_def split: prod.splits sum.splits option.splits dest!: law)
qed

lemma load_hit_effect:
  "load_hit l ob s g st = Some (g1, st1, s1, r) \<Longrightarrow>
   s1 = s\<lparr>sto_hit := sto_hit s + 1\<rparr> \<and> (\<forall>x. r = Inr x \<longrightarrow> x = ob)"
  by (auto simp: load_hit_def Let_def split: option.splits sum.splits if_splits)

text \<open>A load ends in one of three ways, after the search in the cache.\<close>

lemma storage_load_cases:
  assumes inv: "cache_inv (sto_cache s)" and l: "storage_load drv l c s = Some (c1, st1, s1, r)"
  obtains c' where "cache_inv c'" "recency c' = touch (ld_key l) (objects s)" "max_size c' = max_size (sto_cache s)"
      "(\<exists>e. s1 = s\<lparr>sto_cache := c'\<rparr> \<and> r = Inl e) \<or>
       (map_of (objects s) (ld_key l) = None \<and>
        (\<exists>g st g1 st2. load_fault l (s\<lparr>sto_cache := c'\<rparr>) g st = Some (g1, st2, s1, r))) \<or>
       (\<exists>ob g st g1 st2. map_of (objects s) (ld_key l) = Some ob \<and>
          load_hit l ob (s\<lparr>sto_cache := c'\<rparr>) g st = Some (g1, st2, s1, r))"
proof -
  obtain c' vv where f: "cache_find (ld_key l) (sto_cache s) = Some (c', vv)" "cache_inv c'"
    "recency c' = touch (ld_key l) (objects s)" "max_size c' = max_size (sto_cache s)"
    "(case vv of None \<Rightarrow> None | Some n \<Rightarrow> cache_value c' n) = map_of (objects s) (ld_key l)"
    by (rule cache_find_refines [OF inv])
  let ?s = "s\<lparr>sto_cache := c'\<rparr>"
  have "(\<exists>e. s1 = ?s \<and> r = Inl e) \<or>
      (\<exists>g st g1 st2. vv = None \<and> load_fault l ?s g st = Some (g1, st2, s1, r)) \<or>
      (\<exists>node ob g st g1 st2. vv = Some node \<and> cache_value c' node = Some ob \<and>
         load_hit l ob ?s g st = Some (g1, st2, s1, r))"
    using l [unfolded storage_load_def f(1) option.case prod.case Let_def]
  proof (rule with_connection_cases)
    fix e assume "(st1, s1, r) = (ld_statement l, ?s, Inl e)"
    then show ?thesis by simp
  next
    fix g g1
    assume "with_statement drv (ld_statement l) g (\<lambda>e. (?s, Inl e))
       (\<lambda>g1 st1. case vv of None \<Rightarrow> load_fault l ?s g1 st1
          | Some node \<Rightarrow> (case cache_value c' node of None \<Rightarrow> None | Some ob \<Rightarrow> load_hit l ob ?s g1 st1))
       = Some (g1, st1, s1, r)"
    then show ?thesis
    proof (rule with_statement_cases)
      fix e assume "(s1, r) = (?s, Inl e)"
      then show ?thesis by simp
    next
      fix g2 st2 g3 st3
      assume "(case vv of None \<Rightarrow> load_fault l ?s g2 st2
          | Some node \<Rightarrow> (case cache_value c' node of None \<Rightarrow> None | Some ob \<Rightarrow> load_hit l ob ?s g2 st2))
        = Some (g3, st3, s1, r)"
      then show ?thesis by (cases vv) (auto split: option.splits)
    qed
  qed
  with f show thesis by (intro that [of c']) auto
qed

lemma load_keeps:
  assumes ok: "storage_ok s" and l: "storage_load drv l c s = Some (c1, st1, s1, r)"
  shows "storage_ok s1 \<and> (\<forall>ob. r = Inr ob \<longrightarrow> map_of (objects s1) (ld_key l) = Some ob)"
proof -
  have inv: "cache_inv (sto_cache s)" using ok by (simp add: storage_ok_def)
  obtain c' where c': "cache_inv c'" "recency c' = touch (ld_key l) (objects s)" "max_size c' = max_size (sto_cache s)"
    and cases: "(\<exists>e. s1 = s\<lparr>sto_cache := c'\<rparr> \<and> r = Inl e) \<or>
       (map_of (objects s) (ld_key l) = None \<and>
        (\<exists>g st g1 st2. load_fault l (s\<lparr>sto_cache := c'\<rparr>) g st = Some (g1, st2, s1, r))) \<or>
       (\<exists>ob g st g1 st2. map_of (objects s) (ld_key l) = Some ob \<and>
          load_hit l ob (s\<lparr>sto_cache := c'\<rparr>) g st = Some (g1, st2, s1, r))"
    by (rule storage_load_cases [OF inv l])
  have ok1: "storage_ok (s\<lparr>sto_cache := c'\<rparr>)" using ok c' by (simp add: storage_ok_def capacity_def)
  from cases show ?thesis
    using ok1 c' load_fault_effect [OF ok1] load_hit_effect
    by (fastforce simp: storage_ok_def)
qed


definition sample_loader :: "(mock_world, nat, nat) loader" where
  "sample_loader =
     \<lparr>ld_name = ''loader'', ld_statement = statement_new ''read'' ''read'' Ignore, ld_key = 5,
      ld_create = (\<lambda>w. (w, Inr 1)), ld_apply = (\<lambda>ob g st. Some (g, st, Inr (mock_result SuccessfulCode))),
      ld_hasToRefresh = (\<lambda>ob g st. Some (g, st, Inr False))\<rparr>"

lemma sample_load:
  "\<exists>c1 st1 s1. storage_load (mock_driver env name desc) sample_loader open_connection (storage_new ''s'' 2) =
     Some (c1, st1, s1, Inr 1)"
  by (simp add: storage_load_def sample_loader_def storage_new_def cache_new_def cache_find_def Let_def
      with_connection_def guard_new_def connection_lock_def isAvailable_def acquire_def begin_work_def
      mock_driver_def open_connection_def connection_new_def mock_world_new_def with_statement_def
      guard_statement_def statement_new_def load_fault_def check_result_def cache_set_def cache_size_def
      as_size_def guard_statement_delete_def guard_delete_def connection_unlock_def finish_work_def
      push_back_def update_access_def)

lemma sample_storage_ok: "storage_ok (storage_new ''s'' 2)"
  using cache_inv_new [of 2] by (simp add: storage_ok_def storage_new_def capacity_def cache_new_def as_size_def)


text \<open>
  An object that was loaded stays until it is pushed out: the next load of its key over a
  free connection, by whatever loader that does not ask for a refresh, returns the same
  object and one more hit, without running the loader's statement.  The connection is
  locked and given back.
\<close>

theorem next_load_hits:
  assumes ok: "storage_ok s" and first: "storage_load drv l c s = Some (c1, st1, s1, Inr ob)"
    and key: "ld_key l2 = ld_key l"
    and g: "guard_new drv c2 = Some (c3, Inr g)" "isAvailable drv (g_connection g)"
    and st: "\<not> st_locked (ld_statement l2)"
    and refresh: "\<And>g1 st2. ld_hasToRefresh l2 ob g1 st2 = Some (g1, st2, Inr False)"
    and unlock: "connection_unlock drv (g_connection g) = Some c4"
  shows "\<exists>s2. storage_load drv l2 c2 s1 = Some (c4, ld_statement l2, s2, Inr ob) \<and>
    sto_hit s2 = sto_hit s1 + 1 \<and> sto_fault s2 = sto_fault s1 \<and> objects s2 = touch (ld_key l) (objects s1)"
proof -
  from load_keeps [OF ok first] have inv: "cache_inv (sto_cache s1)"
    and there: "map_of (objects s1) (ld_key l) = Some ob"
    by (simp_all add: storage_ok_def)
  obtain c' vv where f: "cache_find (ld_key l) (sto_cache s1) = Some (c', vv)"
    "recency c' = touch (ld_key l) (objects s1)"
    "(case vv of None \<Rightarrow> None | Some n \<Rightarrow> cache_value c' n) = map_of (objects s1) (ld_key l)"
    by (rule cache_find_refines [OF inv])
  with there obtain n where n: "vv = Some n" "cache_value c' n = Some ob" by (cases vv) auto
  let ?st = "ld_statement l2"
  let ?s2 = "s1\<lparr>sto_cache := c', sto_hit := sto_hit s1 + 1\<rparr>"
  have given: "guard_statement_delete (?st\<lparr>st_locked := True\<rparr>) (g\<lparr>g_countLinkedStatement := g_countLinkedStatement g + 1\<rparr>)
      = (g, ?st)"
    using st by (cases g; cases ?st) (simp add: guard_statement_delete_def)
  have "with_statement drv ?st g thrown (\<lambda>g1 st1. load_hit l2 ob (s1\<lparr>sto_cache := c'\<rparr>) g1 st1) = Some (g, ?st, ?s2, Inr ob)"
    for thrown
    using g(2) st refresh given by (simp add: with_statement_def guard_statement_def load_hit_def Let_def)
  then have "storage_load drv l2 c2 s1 = Some (c4, ?st, ?s2, Inr ob)"
    using f(1) n g(1) unlock key
    by (simp add: storage_load_def Let_def with_connection_def guard_delete_def)
  then show ?thesis using f(2) by simp
qed

theorem next_load_hits_witness:
  "\<exists>c1 st1 s1 c2 s2. storage_load (mock_driver env name desc) sample_loader open_connection (storage_new ''s'' 2) =
     Some (c1, st1, s1, Inr 1) \<and>
   storage_load (mock_driver env name desc) (sample_loader\<lparr>ld_apply := (\<lambda>ob g st. None)\<rparr>) open_connection s1 =
     Some (c2, ld_statement sample_loader, s2, Inr 1) \<and> sto_hit s2 = sto_hit s1 + 1"
proof -
  let ?drv = "mock_driver env name desc"
  let ?l2 = "sample_loader\<lparr>ld_apply := (\<lambda>ob g st. None)\<rparr>"
  obtain c1 st1 s1 where l: "storage_load ?drv sample_loader open_connection (storage_new ''s'' 2) = Some (c1, st1, s1, Inr 1)"
    using sample_load by blast
  obtain c3 g where g: "guard_new ?drv open_connection = Some (c3, Inr g)" "isAvailable ?drv (g_connection g)"
    "connection_unlock ?drv (g_connection g) \<noteq> None"
    by (simp add: guard_new_def connection_lock_def isAvailable_def acquire_def begin_work_def
        mock_driver_def open_connection_def connection_new_def mock_world_new_def connection_unlock_def)
  then obtain c4 where u: "connection_unlock ?drv (g_connection g) = Some c4" by auto
  have k: "ld_key ?l2 = ld_key sample_loader" by simp
  have st: "\<not> st_locked (ld_statement ?l2)" by (simp add: sample_loader_def statement_new_def)
  have re: "ld_hasToRefresh ?l2 1 g1 st2 = Some (g1, st2, Inr False)" for g1 st2 by (simp add: sample_loader_def)
  from next_load_hits [OF sample_storage_ok l k g(1,2) st re u] l show ?thesis by auto
qed

text \<open>
  Erasing takes the object out of the storage whether or not the eraser succeeds in the
  database, keeps every other object, and counts a hit when the object was there and a
  fault otherwise.
\<close>

lemma erase_effect:
  assumes ok: "storage_ok s" and e: "storage_erase_guard drv eraser s g = Some (g1, st1, s1, r)"
  shows "storage_ok s1 \<and> objects s1 = filter (\<lambda>p. fst p \<noteq> ac_key eraser) (objects s) \<and>
    (if map_of (objects s) (ac_key eraser) \<noteq> None
     then sto_hit s1 = sto_hit s + 1 \<and> sto_fault s1 = sto_fault s
     else sto_hit s1 = sto_hit s \<and> sto_fault s1 = sto_fault s + 1)"
proof -
  have inv: "cache_inv (sto_cache s)" using ok by (simp add: storage_ok_def)
  note laws = cache_erase_refines [OF inv, of "ac_key eraser"]
  obtain cache1 found where x: "cache_erase (ac_key eraser) (sto_cache s) = (cache1, found)"
    by (cases "cache_erase (ac_key eraser) (sto_cache s)")
  with e have s1: "s1 = (if found then s\<lparr>sto_cache := cache1, sto_hit := sto_hit s + 1\<rparr>
      else s\<lparr>sto_cache := cache1, sto_fault := sto_fault s + 1\<rparr>)"
    by (auto simp: storage_erase_guard_def Let_def)
  with laws x ok show ?thesis by (auto simp: storage_ok_def capacity_def)
qed

definition sample_eraser :: "(mock_world, nat) accessor" where
  "sample_eraser =
     \<lparr>ac_name = ''eraser'', ac_statement = statement_new ''delete'' ''delete'' Rollback, ac_key = 5,
      ac_autoCommit = False, ac_apply = (\<lambda>g st. Some (g, st, Inr (mock_result LockCode)))\<rparr>"

lemma sample_erase:
  "\<exists>g1 st1 s1 r. storage_erase_guard (mock_driver sample_env ''cnx'' ''cnx'') sample_eraser (storage_new ''s'' 2 :: (nat, nat) storage)
       \<lparr>g_connection = open_connection, g_countLinkedStatement = 0\<rparr> = Some (g1, st1, s1, Inl r) \<and>
     objects s1 = [] \<and> sto_fault s1 = 1"
proof -
  let ?s = "storage_new ''s'' 2 :: (nat, nat) storage"
  have "successful (mock_result LockCode) = Inr False"
    by (simp add: successful_def mock_result_def result_code_def mock_interpreter_def LockCode_def SuccessfulCode_def)
  moreover have "cache_erase 5 (sto_cache ?s) = (cache_new 2, False)"
    by (simp add: cache_erase_def storage_new_def cache_new_def)
  ultimately obtain g1 st1 s1 r where x: "storage_erase_guard (mock_driver sample_env ''cnx'' ''cnx'') sample_eraser ?s
      \<lparr>g_connection = open_connection, g_countLinkedStatement = 0\<rparr> = Some (g1, st1, s1, Inl r)"
    by (simp add: storage_erase_guard_def Let_def run_accessor_def with_statement_def guard_statement_def
        isAvailable_def mock_driver_def open_connection_def connection_new_def mock_world_new_def
        sample_eraser_def statement_new_def check_result_def guard_statement_delete_def split: prod.splits)
  from erase_effect [OF sample_storage_ok x] x show ?thesis
    by (simp add: storage_new_def cache_new_def recency_def)
qed

section \<open>The repository is a registry\<close>

definition put_storage :: "string \<times> cint \<Rightarrow> ('k, 'o) repository \<Rightarrow> ('k, 'o) repository option" where
  "put_storage p r = to_option (createStorage (fst p) (snd p) r)"

interpretation storages: open_registry "\<lambda>r. map (\<lambda>s. (sto_name s, max_size (sto_cache s))) (rep_storages r)" fst
  put_storage "\<lambda>ident r. map_option (\<lambda>s. (sto_name s, max_size (sto_cache s))) (to_option (findStorage ident r))"
  by unfold_locales
    (auto simp: put_storage_def createStorage_def findStorage_def storage_new_def cache_new_def
      image_image image_iff split: option.splits if_splits dest: lookup_by_Some)

end
