(* ===== verification/Observers.thy ===== *)
theory Observers
  imports Basis Registry
begin

text \<open>
  \<open>basis/pattern/observer\<close>: subjects, the observers attached to them, and the events.  The
  observers are shared objects, so they live in a store with references; the virtual
  functions \<open>attached\<close>, \<open>update\<close> and \<open>detached\<close> are the calls the subjects make, which are
  recorded in order.  A subject visits its observers in an order the hash table chooses, the
  argument \<open>order\<close>.
\<close>

type_synonym event_id = cint

definition NullId :: event_id where "NullId = -1"

definition observed_event_as_string :: "event_id \<Rightarrow> string" where
  "observed_event_as_string ev = ''pattern.observer.Event {Id='' @ as_string_int ev @ ''}''"

record observer =
  ob_name :: string
  ob_isSubscribed :: bool

record subject =
  su_name :: string
  su_observers :: "(string \<times> nat) list"

datatype callback = Attached nat nat | Update nat nat event_id | Detached nat nat

text \<open>The calls name the observer and the subject.\<close>

record observer_world =
  ow_observers :: "nat \<Rightarrow> observer"
  ow_subjects :: "nat \<Rightarrow> subject"
  ow_calls :: "callback list"

definition observer_new :: "string \<Rightarrow> observer" where
  "observer_new name = \<lparr>ob_name = name, ob_isSubscribed = False\<rparr>"

definition subject_new :: "string \<Rightarrow> subject" where
  "subject_new name = \<lparr>su_name = name, su_observers = []\<rparr>"

definition isSubscribed :: "nat \<Rightarrow> observer_world \<Rightarrow> bool" where
  "isSubscribed r w = ob_isSubscribed (ow_observers w r)"

definition set_isSubscribed :: "nat \<Rightarrow> bool \<Rightarrow> observer_world \<Rightarrow> observer_world" where
  "set_isSubscribed r b w =
     w\<lparr>ow_observers := (ow_observers w)(r := (ow_observers w r)\<lparr>ob_isSubscribed := b\<rparr>)\<rparr>"

definition call :: "callback \<Rightarrow> observer_world \<Rightarrow> observer_world" where
  "call x w = w\<lparr>ow_calls := ow_calls w @ [x]\<rparr>"

definition put_observer :: "string \<times> nat \<Rightarrow> subject \<Rightarrow> subject option" where
  "put_observer p s =
     (if map_of (su_observers s) (fst p) \<noteq> None then None
      else Some (s\<lparr>su_observers := su_observers s @ [p]\<rparr>))"

definition find_observer :: "string \<Rightarrow> subject \<Rightarrow> (string \<times> nat) option" where
  "find_observer name s = map_option (\<lambda>r. (name, r)) (map_of (su_observers s) name)"

definition erase_observer :: "string \<Rightarrow> subject \<Rightarrow> subject" where
  "erase_observer name s = s\<lparr>su_observers := filter (\<lambda>p. fst p \<noteq> name) (su_observers s)\<rparr>"

definition set_subject :: "nat \<Rightarrow> subject \<Rightarrow> observer_world \<Rightarrow> observer_world" where
  "set_subject i s w = w\<lparr>ow_subjects := (ow_subjects w)(i := s)\<rparr>"

text \<open>A name that is taken is no error: the observer is not attached and nothing is said.\<close>

definition subject_attach :: "nat \<Rightarrow> nat \<Rightarrow> observer_world \<Rightarrow> observer_world \<times> unit outcome" where
  "subject_attach i r w =
     (let name = ob_name (ow_observers w r)
      in if find_observer name (ow_subjects w i) \<noteq> None then (w, Inr ())
         else if isSubscribed r w
         then (w, Inl (RuntimeException (named_as_string name @ '' already subscribed'')))
         else case put_observer (name, r) (ow_subjects w i) of
                None \<Rightarrow> (w, Inr ())
              | Some s \<Rightarrow> (call (Attached r i) (set_isSubscribed r True (set_subject i s w)), Inr ()))"

definition subject_detach :: "nat \<Rightarrow> string \<Rightarrow> observer_world \<Rightarrow> observer_world \<times> bool" where
  "subject_detach i name w =
     (case find_observer name (ow_subjects w i) of
        None \<Rightarrow> (w, False)
      | Some p \<Rightarrow>
          (set_subject i (erase_observer name (ow_subjects w i))
             (call (Detached (snd p) i) (set_isSubscribed (snd p) False w)), True))"

definition subject_notify ::
    "((string \<times> nat) list \<Rightarrow> (string \<times> nat) list) \<Rightarrow> nat \<Rightarrow> event_id \<Rightarrow> observer_world \<Rightarrow> observer_world" where
  "subject_notify order i ev w =
     fold (\<lambda>p. call (Update (snd p) i ev)) (order (su_observers (ow_subjects w i))) w"

definition subject_delete ::
    "((string \<times> nat) list \<Rightarrow> (string \<times> nat) list) \<Rightarrow> nat \<Rightarrow> observer_world \<Rightarrow> observer_world" where
  "subject_delete order i w =
     set_subject i ((ow_subjects w i)\<lparr>su_observers := []\<rparr>)
       (fold (\<lambda>p w. call (Detached (snd p) i) (set_isSubscribed (snd p) False w))
          (order (su_observers (ow_subjects w i))) w)"

definition countObservers :: "subject \<Rightarrow> nat" where
  "countObservers s = length (su_observers s)"

definition subject_as_string :: "subject \<Rightarrow> string" where
  "subject_as_string s =
     ''pattern::observer::Subject {'' @ named_as_string (su_name s) @ ''|#Observers='' @ dec (countObservers s) @ ''}''"

interpretation observers: erasable_registry su_observers fst put_observer find_observer erase_observer
  by unfold_locales
    (auto simp: put_observer_def find_observer_def erase_observer_def map_of_eq_None_iff image_iff
      mset_filter split: if_splits dest: map_of_SomeD)

section \<open>One subject for each observer\<close>

datatype observer_op = Attach nat nat | Detach nat string | Notify nat event_id | Destroy nat

fun observer_step :: "((string \<times> nat) list \<Rightarrow> (string \<times> nat) list) \<Rightarrow> observer_op \<Rightarrow> observer_world \<Rightarrow> observer_world" where
  "observer_step order (Attach i r) w = fst (subject_attach i r w)"
| "observer_step order (Detach i name) w = fst (subject_detach i name w)"
| "observer_step order (Notify i ev) w = subject_notify order i ev w"
| "observer_step order (Destroy i) w = subject_delete order i w"

definition holds :: "observer_world \<Rightarrow> nat \<Rightarrow> nat set" where
  "holds w i = snd ` set (su_observers (ow_subjects w i))"

definition observers_ok :: "observer_world \<Rightarrow> bool" where
  "observers_ok w \<longleftrightarrow>
     (\<forall>i. distinct_keys fst (su_observers (ow_subjects w i)) \<and>
        (\<forall>p \<in> set (su_observers (ow_subjects w i)). ob_name (ow_observers w (snd p)) = fst p)) \<and>
     (\<forall>r. isSubscribed r w \<longleftrightarrow> (\<exists>i. r \<in> holds w i)) \<and>
     (\<forall>r i j. r \<in> holds w i \<longrightarrow> r \<in> holds w j \<longrightarrow> i = j)"

lemma world_simps [simp]:
  "ow_observers (set_subject i s w) = ow_observers w" "ow_observers (call x w) = ow_observers w"
  "ow_subjects (set_subject i s w) = (ow_subjects w)(i := s)" "ow_subjects (call x w) = ow_subjects w"
  "ow_subjects (set_isSubscribed r b w) = ow_subjects w" "ow_calls (set_subject i s w) = ow_calls w"
  "ow_calls (set_isSubscribed r b w) = ow_calls w" "ow_calls (call x w) = ow_calls w @ [x]"
  "isSubscribed q (set_subject i s w) = isSubscribed q w" "isSubscribed q (call x w) = isSubscribed q w"
  "isSubscribed q (set_isSubscribed r b w) = (if q = r then b else isSubscribed q w)"
  "ob_name (ow_observers (set_isSubscribed r b w) q) = ob_name (ow_observers w q)"
  by (simp_all add: set_subject_def call_def set_isSubscribed_def isSubscribed_def)

lemma notify_calls:
  "ow_observers (fold (\<lambda>p. call (f p)) ps w) = ow_observers w \<and>
   ow_subjects (fold (\<lambda>p. call (f p)) ps w) = ow_subjects w \<and>
   ow_calls (fold (\<lambda>p. call (f p)) ps w) = ow_calls w @ map f ps"
  by (induction ps arbitrary: w) auto

lemma delete_calls:
  "ow_subjects (fold (\<lambda>p w. call (f p) (set_isSubscribed (snd p) False w)) ps w) = ow_subjects w \<and>
   ob_name (ow_observers (fold (\<lambda>p w. call (f p) (set_isSubscribed (snd p) False w)) ps w) q) = ob_name (ow_observers w q) \<and>
   isSubscribed q (fold (\<lambda>p w. call (f p) (set_isSubscribed (snd p) False w)) ps w) =
     (isSubscribed q w \<and> q \<notin> snd ` set ps) \<and>
   ow_calls (fold (\<lambda>p w. call (f p) (set_isSubscribed (snd p) False w)) ps w) = ow_calls w @ map f ps"
  by (induction ps arbitrary: w) auto

lemma find_observer_iff:
  "find_observer name s = None \<longleftrightarrow> name \<notin> fst ` set (su_observers s)"
  by (simp add: find_observer_def map_of_eq_None_iff)

lemma observers_ok_names:
  "observers_ok w \<Longrightarrow> p \<in> set (su_observers (ow_subjects w i)) \<Longrightarrow> q \<in> set (su_observers (ow_subjects w i)) \<Longrightarrow>
   snd p = snd q \<Longrightarrow> p = q"
  unfolding observers_ok_def by (metis prod.collapse)

lemma attach_ok: "observers_ok w \<Longrightarrow> observers_ok (fst (subject_attach i r w))"
proof -
  assume ok: "observers_ok w"
  let ?name = "ob_name (ow_observers w r)"
  show ?thesis
  proof (cases "find_observer ?name (ow_subjects w i) \<noteq> None \<or> isSubscribed r w")
    case True
    with ok show ?thesis by (auto simp: subject_attach_def Let_def)
  next
    case False
    then have new: "?name \<notin> fst ` set (su_observers (ow_subjects w i))" "\<not> isSubscribed r w"
      by (simp_all add: find_observer_iff)
    then have free: "\<forall>j. r \<notin> holds w j" using ok by (auto simp: observers_ok_def)
    define w1 where "w1 = fst (subject_attach i r w)"
    have s: "ow_subjects w1 = (ow_subjects w)(i := (ow_subjects w i)
        \<lparr>su_observers := su_observers (ow_subjects w i) @ [(?name, r)]\<rparr>)"
      and n: "ob_name (ow_observers w1 q) = ob_name (ow_observers w q)"
      and b: "isSubscribed q w1 = (q = r \<or> isSubscribed q w)" for q
      using new False
      by (simp_all add: w1_def subject_attach_def Let_def put_observer_def map_of_eq_None_iff)
    have h: "holds w1 j = (if j = i then insert r (holds w i) else holds w j)" for j
      by (simp add: holds_def s)
    have keys: "distinct_keys fst (su_observers (ow_subjects w1 j)) \<and>
        (\<forall>p \<in> set (su_observers (ow_subjects w1 j)). ob_name (ow_observers w1 (snd p)) = fst p)" for j
      using ok new(1) by (auto simp: observers_ok_def s n distinct_keys_def)
    have subs: "isSubscribed q w1 \<longleftrightarrow> (\<exists>j. q \<in> holds w1 j)" for q
      using ok by (auto simp: observers_ok_def b h)
    have one: "q \<in> holds w1 j \<longrightarrow> q \<in> holds w1 k \<longrightarrow> j = k" for q j k
      using ok free by (auto simp: observers_ok_def h split: if_splits)
    from keys subs one show ?thesis unfolding observers_ok_def w1_def by blast
  qed
qed

lemma removed_ok:
  assumes ok: "observers_ok w"
    and s: "ow_subjects w1 = (ow_subjects w)(i := (ow_subjects w i)\<lparr>su_observers := filter keep (su_observers (ow_subjects w i))\<rparr>)"
    and n: "\<And>q. ob_name (ow_observers w1 q) = ob_name (ow_observers w q)"
    and b: "\<And>q. isSubscribed q w1 = (isSubscribed q w \<and>
        q \<notin> snd ` set (filter (\<lambda>p. \<not> keep p) (su_observers (ow_subjects w i))))"
  shows "observers_ok w1"
proof -
  have sub: "set (su_observers (ow_subjects w1 j)) \<subseteq> set (su_observers (ow_subjects w j))" for j
    by (auto simp: s)
  have h: "holds w1 j = (if j = i then holds w i - snd ` set (filter (\<lambda>p. \<not> keep p) (su_observers (ow_subjects w i))) else holds w j)" for j
    using observers_ok_names [OF ok, of _ i] by (auto simp: holds_def s)
  have keys: "distinct_keys fst (su_observers (ow_subjects w1 j))" for j
    using ok by (auto simp: observers_ok_def s distinct_keys_def distinct_map_filter)
  have names: "\<forall>p \<in> set (su_observers (ow_subjects w1 j)). ob_name (ow_observers w1 (snd p)) = fst p" for j
    using ok sub [of j] by (auto simp: observers_ok_def n)
  have held: "q \<in> snd ` set (filter (\<lambda>p. \<not> keep p) (su_observers (ow_subjects w i))) \<Longrightarrow> q \<in> holds w i" for q
    by (auto simp: holds_def)
  have subs: "isSubscribed q w1 \<longleftrightarrow> (\<exists>j. q \<in> holds w1 j)" for q
  proof -
    have "isSubscribed q w \<longleftrightarrow> (\<exists>j. q \<in> holds w j)" "\<forall>j k. q \<in> holds w j \<longrightarrow> q \<in> holds w k \<longrightarrow> j = k"
      using ok by (auto simp: observers_ok_def)
    with held [of q] show ?thesis unfolding b h by (metis DiffD1 DiffD2 DiffI)
  qed
  have one: "q \<in> holds w1 j \<longrightarrow> q \<in> holds w1 k \<longrightarrow> j = k" for q j k
    using ok by (auto simp: observers_ok_def h split: if_splits)
  from keys names subs one show ?thesis unfolding observers_ok_def by blast
qed

lemma detach_ok: "observers_ok w \<Longrightarrow> observers_ok (fst (subject_detach i name w))"
proof -
  assume ok: "observers_ok w"
  show ?thesis
  proof (cases "find_observer name (ow_subjects w i)")
    case None
    with ok show ?thesis by (simp add: subject_detach_def)
  next
    case (Some p)
    then have p: "p \<in> set (su_observers (ow_subjects w i))" "fst p = name"
      by (auto simp: find_observer_def dest: map_of_SomeD)
    have "filter (\<lambda>q. \<not> fst q \<noteq> name) (su_observers (ow_subjects w i)) \<noteq> [] \<and>
        snd ` set (filter (\<lambda>q. \<not> fst q \<noteq> name) (su_observers (ow_subjects w i))) = {snd p}"
      using p ok distinct_keys_unique [of fst "su_observers (ow_subjects w i)"]
      by (auto simp: observers_ok_def filter_empty_conv)
    then show ?thesis using Some
      by (intro removed_ok [OF ok, where keep = "\<lambda>q. fst q \<noteq> name" and i = i])
        (auto simp: subject_detach_def erase_observer_def)
  qed
qed

lemma delete_ok:
  assumes "\<And>xs. mset (order xs) = mset xs" "observers_ok w"
  shows "observers_ok (subject_delete order i w)"
proof (rule removed_ok [OF assms(2), where keep = "\<lambda>q. False" and i = i])
  have "set (order (su_observers (ow_subjects w i))) = set (su_observers (ow_subjects w i))"
    using assms(1) by (metis set_mset_mset)
  then show "isSubscribed q (subject_delete order i w) = (isSubscribed q w \<and>
      q \<notin> snd ` set (filter (\<lambda>p. \<not> False) (su_observers (ow_subjects w i))))" for q
    by (simp add: subject_delete_def delete_calls)
qed (simp_all add: subject_delete_def delete_calls)

definition sample_observers :: "(nat \<Rightarrow> string) \<Rightarrow> observer_world" where
  "sample_observers name =
     \<lparr>ow_observers = (\<lambda>r. observer_new (name r)), ow_subjects = (\<lambda>i. subject_new ''subject''), ow_calls = []\<rparr>"

lemma sample_observers_ok: "observers_ok (sample_observers name)"
  by (simp add: observers_ok_def sample_observers_def observer_new_def subject_new_def isSubscribed_def
      holds_def)

text \<open>
  Whatever subjects attach, detach, notify and are destroyed, in any order, an observer
  counts as subscribed exactly while a subject has it, no two subjects ever have the same
  observer, and a subject has at most one observer of a name.
\<close>

theorem one_subject_per_observer:
  assumes order: "\<And>xs. mset (order xs) = mset xs" and ok: "observers_ok w"
  shows "observers_ok (fold (observer_step order) ops w)"
  using ok
proof (induction ops arbitrary: w)
  case (Cons x ops)
  have "observers_ok (observer_step order x w)"
  proof (cases x)
    case (Notify i ev)
    have "ow_observers (subject_notify order i ev w) = ow_observers w"
      "ow_subjects (subject_notify order i ev w) = ow_subjects w"
      by (simp_all add: subject_notify_def notify_calls)
    then have "observers_ok (subject_notify order i ev w) = observers_ok w"
      by (simp add: observers_ok_def isSubscribed_def holds_def)
    with Notify Cons.prems show ?thesis by simp
  qed (use Cons.prems attach_ok detach_ok delete_ok [OF order] in simp_all)
  with Cons.IH show ?case by simp
qed simp

theorem one_subject_per_observer_witness:
  "observers_ok (fold (observer_step rev) [Attach 0 5, Attach 1 5, Attach 1 6, Notify 1 3, Destroy 0]
     (sample_observers (\<lambda>r. if r = 5 then ''a'' else ''b'')))"
  by (rule one_subject_per_observer [OF _ sample_observers_ok]) simp

text \<open>
  \<open>notify\<close> updates every observer of the subject exactly once, with the event, and no
  other; attaching an observer whose name is taken does nothing at all, not even report it.
\<close>

theorem notify_each_once:
  assumes order: "\<And>xs. mset (order xs) = mset xs" and ok: "observers_ok w"
  shows "\<exists>calls. ow_calls (subject_notify order i ev w) = ow_calls w @ calls \<and> distinct calls \<and>
    set calls = (\<lambda>r. Update r i ev) ` holds w i \<and>
    (\<forall>r. ob_name (ow_observers w r) \<in> fst ` set (su_observers (ow_subjects w i)) \<longrightarrow> subject_attach i r w = (w, Inr ()))"
proof -
  let ?ps = "order (su_observers (ow_subjects w i))"
  have m: "mset ?ps = mset (su_observers (ow_subjects w i))" by (rule order)
  have set: "set ?ps = set (su_observers (ow_subjects w i))" using m by (metis set_mset_mset)
  have "distinct (su_observers (ow_subjects w i))"
    using ok by (auto simp: observers_ok_def distinct_keys_def distinct_map)
  then have "distinct ?ps" using m mset_eq_imp_distinct_iff by blast
  moreover have "inj_on (\<lambda>p. Update (snd p) i ev) (set ?ps)"
    using observers_ok_names [OF ok] set by (auto intro!: inj_onI)
  ultimately have "distinct (map (\<lambda>p. Update (snd p) i ev) ?ps)" by (simp add: distinct_map)
  moreover have "set (map (\<lambda>p. Update (snd p) i ev) ?ps) = (\<lambda>r. Update r i ev) ` holds w i"
    by (auto simp: set holds_def)
  moreover have "\<forall>r. ob_name (ow_observers w r) \<in> fst ` set (su_observers (ow_subjects w i)) \<longrightarrow>
      subject_attach i r w = (w, Inr ())"
    using find_observer_iff by (auto simp: subject_attach_def Let_def)
  ultimately show ?thesis
    using notify_calls [of "\<lambda>p. Update (snd p) i ev" ?ps w] by (auto simp: subject_notify_def)
qed

theorem notify_each_once_witness:
  "\<exists>w calls. w = fst (subject_attach 1 6 (sample_observers (\<lambda>r. ''b''))) \<and>
     ow_calls (subject_notify rev 1 3 w) = ow_calls w @ calls \<and> set calls = {Update 6 1 3}"
proof -
  let ?w = "fst (subject_attach 1 6 (sample_observers (\<lambda>r. ''b'')))"
  have ok: "observers_ok ?w" by (rule attach_ok [OF sample_observers_ok])
  have "holds ?w 1 = {6}"
    by (simp add: holds_def subject_attach_def Let_def find_observer_def put_observer_def sample_observers_def
        subject_new_def observer_new_def isSubscribed_def)
  with notify_each_once [OF _ ok, of rev 1 3] show ?thesis by auto
qed

end
