(* ===== verification/Backtracking.thy ===== *)
theory Backtracking
  imports Basis
begin

text \<open>
  \<open>basis/pattern/backtracking\<close>: the solver that explores the candidates of a problem depth
  first, and the tree of its solutions.

  The problem is a class of the application; its virtual functions are the fields of the
  record \<open>problem\<close>.  \<open>reject\<close> and \<open>accept\<close> see the node under construction, that is its value,
  the successors it has so far, and the same of its predecessors: a \<open>trail\<close>.  Nothing in the
  code makes the loops end, so the functions that explore are partial: not returning is \<open>None\<close>.
\<close>

datatype 'a tree = Node (getValue: 'a) (successors: "'a tree list")

type_synonym 'a trail = "('a \<times> 'a tree list) list"

record 'a problem =
  getStartingPoint :: 'a
  pr_first :: "nat \<Rightarrow> 'a \<Rightarrow> 'a"
  pr_stop :: "nat \<Rightarrow> 'a \<Rightarrow> bool"
  pr_next :: "nat \<Rightarrow> 'a \<Rightarrow> 'a"
  pr_reject :: "'a trail \<Rightarrow> 'a \<Rightarrow> bool"
  pr_accept :: "'a trail \<Rightarrow> 'a \<Rightarrow> bool"

text \<open>
  The loop of \<open>exploreSolutions\<close> with the body of \<open>backtracking\<close>: \<open>found\<close> are the successors
  the node with value \<open>v\<close> has so far, \<open>up\<close> its predecessors, \<open>has\<close> is \<open>hasSolution\<close>.
\<close>

partial_function (option) exploreSolutions ::
    "'a problem \<Rightarrow> nat \<Rightarrow> 'a trail \<Rightarrow> 'a \<Rightarrow> 'a tree list \<Rightarrow> 'a \<Rightarrow> bool \<Rightarrow> ('a tree list \<times> bool) option" where
  "exploreSolutions p depth up v found ii has =
     (if pr_stop p depth ii then Some (found, has)
      else if pr_reject p ((v, found) # up) ii
      then exploreSolutions p depth up v found (pr_next p depth ii) has
      else if pr_accept p ((v, found) # up) ii
      then exploreSolutions p depth up v (found @ [Node ii []]) (pr_next p depth ii) True
      else Option.bind (exploreSolutions p (depth + 1) ((v, found) # up) ii [] (pr_first p (depth + 1) ii) False)
             (\<lambda>(partial, some).
                if some
                then exploreSolutions p depth up v (found @ [Node ii partial]) (pr_next p depth ii) True
                else exploreSolutions p depth up v found (pr_next p depth ii) has))"

partial_function (option) apply_loop :: "'a problem \<Rightarrow> 'a tree list \<Rightarrow> 'a \<Rightarrow> 'a tree list option" where
  "apply_loop p found ii =
     (if pr_stop p 0 ii then Some found
      else Option.bind (exploreSolutions p 1 [] ii [] (pr_first p 1 ii) False)
             (\<lambda>(partial, some).
                apply_loop p (if some then found @ [Node ii partial] else found) (pr_next p 0 ii)))"

text \<open>\<open>apply\<close>: the successors the solver has then, and whether there are any.\<close>

definition solver_apply :: "'a problem \<Rightarrow> ('a tree list \<times> bool) option" where
  "solver_apply p =
     map_option (\<lambda>found. (found, found \<noteq> [])) (apply_loop p [] (pr_first p 0 (getStartingPoint p)))"

text \<open>The sum is an \<open>int\<close>.\<close>

fun countSolutions :: "'a tree \<Rightarrow> cint" where
  "countSolutions (Node v ts) = (if ts = [] then 1 else sum_list (map countSolutions ts))"

fun depthFirst :: "nat \<Rightarrow> 'a tree \<Rightarrow> ('a \<times> nat) list" where
  "depthFirst depth (Node v ts) = (v, depth) # concat (map (depthFirst (depth + 1)) ts)"

definition getNextStep :: "cint \<Rightarrow> 'a tree list \<Rightarrow> 'a tree outcome" where
  "getNextStep index ts =
     (if length ts \<le> unat (scast index :: 64 word)
      then Inl (RuntimeException (''Index='' @ as_string_int index @ '' is out of range('' @ dec (length ts) @ '')''))
      else Inr (ts ! unat (scast index :: 64 word)))"

section \<open>The solutions of a problem\<close>

text \<open>The values the loop at a depth visits from \<open>ii\<close> on.\<close>

inductive visits :: "'a problem \<Rightarrow> nat \<Rightarrow> 'a \<Rightarrow> 'a \<Rightarrow> bool" for p depth where
  here: "\<not> pr_stop p depth ii \<Longrightarrow> visits p depth ii ii"
| later: "\<not> pr_stop p depth ii \<Longrightarrow> visits p depth (pr_next p depth ii) x \<Longrightarrow> visits p depth ii x"

text \<open>
  The extensions of a partial solution, given from its last value back to its first one, by
  predicates that look at these values only.
\<close>

inductive extension ::
    "'a problem \<Rightarrow> ('a list \<Rightarrow> 'a \<Rightarrow> bool) \<Rightarrow> ('a list \<Rightarrow> 'a \<Rightarrow> bool) \<Rightarrow> nat \<Rightarrow> 'a list \<Rightarrow> 'a \<Rightarrow> 'a list \<Rightarrow> bool"
  for p rej acc where
  accepted: "visits p depth ii x \<Longrightarrow> \<not> rej vs x \<Longrightarrow> acc vs x \<Longrightarrow> extension p rej acc depth vs ii [x]"
| deeper: "visits p depth ii x \<Longrightarrow> \<not> rej vs x \<Longrightarrow> \<not> acc vs x \<Longrightarrow>
    extension p rej acc (depth + 1) (x # vs) (pr_first p (depth + 1) x) xs \<Longrightarrow>
    extension p rej acc depth vs ii (x # xs)"

definition by_values :: "'a problem \<Rightarrow> ('a list \<Rightarrow> 'a \<Rightarrow> bool) \<Rightarrow> ('a list \<Rightarrow> 'a \<Rightarrow> bool) \<Rightarrow> bool" where
  "by_values p rej acc \<longleftrightarrow>
     (\<forall>t c. pr_reject p t c = rej (map fst t) c \<and> pr_accept p t c = acc (map fst t) c)"

fun paths :: "'a tree \<Rightarrow> 'a list list" where
  "paths (Node v ts) = (if ts = [] then [[v]] else map (Cons v) (concat (map paths ts)))"

abbreviation all_paths :: "'a tree list \<Rightarrow> 'a list set" where
  "all_paths ts \<equiv> set (concat (map paths ts))"

inductive_cases visits_cases: "visits p depth ii x"
inductive_cases extension_cases: "extension p rej acc depth vs ii xs"

lemma visits_next:
  "visits p depth ii x \<longleftrightarrow> \<not> pr_stop p depth ii \<and> (x = ii \<or> visits p depth (pr_next p depth ii) x)"
  by (blast elim: visits_cases intro: visits.intros)

text \<open>One candidate that completes a solution, and one that begins a longer one.\<close>

definition starts ::
    "'a problem \<Rightarrow> ('a list \<Rightarrow> 'a \<Rightarrow> bool) \<Rightarrow> ('a list \<Rightarrow> 'a \<Rightarrow> bool) \<Rightarrow> nat \<Rightarrow> 'a list \<Rightarrow> 'a \<Rightarrow> 'a list \<Rightarrow> bool" where
  "starts p rej acc depth vs x xs \<longleftrightarrow> \<not> rej vs x \<and>
     (if acc vs x then xs = [x]
      else \<exists>ys. xs = x # ys \<and> extension p rej acc (depth + 1) (x # vs) (pr_first p (depth + 1) x) ys)"

lemma extension_starts:
  "extension p rej acc depth vs ii xs \<longleftrightarrow> (\<exists>x. visits p depth ii x \<and> starts p rej acc depth vs x xs)"
proof
  assume "extension p rej acc depth vs ii xs"
  then show "\<exists>x. visits p depth ii x \<and> starts p rej acc depth vs x xs"
    by (rule extension_cases) (auto simp: starts_def)
next
  assume "\<exists>x. visits p depth ii x \<and> starts p rej acc depth vs x xs"
  then obtain x where "visits p depth ii x" "starts p rej acc depth vs x xs" by auto
  then show "extension p rej acc depth vs ii xs"
    by (cases "acc vs x") (auto simp: starts_def intro: extension.intros)
qed

lemma extension_next:
  "\<not> pr_stop p depth ii \<Longrightarrow> extension p rej acc depth vs ii xs \<longleftrightarrow>
    starts p rej acc depth vs ii xs \<or> extension p rej acc depth vs (pr_next p depth ii) xs"
  by (simp add: extension_starts) (metis visits_next)

lemma extension_stop: "pr_stop p depth ii \<Longrightarrow> \<not> extension p rej acc depth vs ii xs"
  by (simp add: extension_starts) (metis visits_next)

lemma paths_nonempty: "paths t \<noteq> []"
proof (induction t)
  case (Node v ts)
  then show ?case by (cases ts) auto
qed

lemma all_paths_Node: "ts \<noteq> [] \<Longrightarrow> set (paths (Node v ts)) = (Cons v) ` all_paths ts"
  by simp


lemma all_paths_more:
  assumes "\<not> pr_stop p depth ii" "set (paths n) = {xs. starts p rej acc depth vs ii xs}"
    "all_paths new = {xs. extension p rej acc depth vs (pr_next p depth ii) xs}"
  shows "all_paths (n # new) = {xs. extension p rej acc depth vs ii xs}"
  using assms by (auto simp: extension_next)

lemma all_paths_same:
  assumes "\<not> pr_stop p depth ii" "\<And>xs. \<not> starts p rej acc depth vs ii xs"
    "all_paths new = {xs. extension p rej acc depth vs (pr_next p depth ii) xs}"
  shows "all_paths new = {xs. extension p rej acc depth vs ii xs}"
  using assms by (auto simp: extension_next)

lemma all_paths_empty: "all_paths new = {} \<longleftrightarrow> new = []"
  using paths_nonempty by (cases new) auto

definition found_from ::
    "'a problem \<Rightarrow> ('a list \<Rightarrow> 'a \<Rightarrow> bool) \<Rightarrow> ('a list \<Rightarrow> 'a \<Rightarrow> bool) \<Rightarrow> nat \<Rightarrow> 'a list \<Rightarrow> 'a tree list \<Rightarrow> 'a \<Rightarrow>
      bool \<Rightarrow> 'a tree list \<times> bool \<Rightarrow> bool" where
  "found_from p rej acc depth vs found ii has r \<longleftrightarrow>
     (\<exists>new. r = (found @ new, has \<or> new \<noteq> []) \<and> all_paths new = {xs. extension p rej acc depth vs ii xs})"

lemma found_more:
  assumes "\<not> pr_stop p depth ii" "set (paths n) = {xs. starts p rej acc depth vs ii xs}"
    "found_from p rej acc depth vs (found @ [n]) (pr_next p depth ii) True r"
  shows "found_from p rej acc depth vs found ii has r"
proof -
  obtain new where "r = (found @ n # new, True)"
      "all_paths new = {xs. extension p rej acc depth vs (pr_next p depth ii) xs}"
    using assms(3) by (auto simp: found_from_def)
  then show ?thesis
    using all_paths_more [OF assms(1,2)] unfolding found_from_def by (intro exI [of _ "n # new"]) auto
qed

lemma found_same:
  assumes "\<not> pr_stop p depth ii" "\<And>xs. \<not> starts p rej acc depth vs ii xs"
    "found_from p rej acc depth vs found (pr_next p depth ii) has r"
  shows "found_from p rej acc depth vs found ii has r"
  using assms(3) all_paths_same [OF assms(1,2)] unfolding found_from_def by blast

lemma found_inside:
  assumes "found_from p rej acc (depth + 1) (x # vs) [] (pr_first p (depth + 1) x) False (partial, some)"
    "\<not> rej vs x" "\<not> acc vs x"
  shows "some \<Longrightarrow> set (paths (Node x partial)) = {xs. starts p rej acc depth vs x xs}"
    and "\<not> some \<Longrightarrow> \<not> starts p rej acc depth vs x xs"
  using assms by (auto simp: found_from_def starts_def)

text \<open>What a call that returns has found, by induction on the calls.\<close>

lemma explore_finds:
  fixes p :: "'a problem"
  assumes vals: "by_values p rej acc"
    and run: "exploreSolutions p depth up v found ii has = Some r"
  shows "found_from p rej acc depth (v # map fst up) found ii has r"
proof -
  have "p = q \<longrightarrow> found_from q rej acc depth (v # map fst up) found ii has r" 
    if vals: "by_values q rej acc" for q
  proof (rule exploreSolutions.raw_induct [OF _ run, where
      P = "\<lambda>p depth (up :: 'a trail) v found ii has r. p = q \<longrightarrow> found_from q rej acc depth (v # map fst up) found ii has r"])
    fix explore and p :: "'a problem" and depth and up :: "'a trail" and v found ii has r
    let ?vs = "v # map fst up"
    assume IH: "\<And>p depth (up :: 'a trail) v found ii has r. explore p depth up v found ii has = Some r \<Longrightarrow>
        p = q \<longrightarrow> found_from q rej acc depth (v # map fst up) found ii has r"
      and body: "(if pr_stop p depth ii then Some (found, has)
        else if pr_reject p ((v, found) # up) ii
        then explore p depth up v found (pr_next p depth ii) has
        else if pr_accept p ((v, found) # up) ii
        then explore p depth up v (found @ [Node ii []]) (pr_next p depth ii) True
        else Option.bind (explore p (depth + 1) ((v, found) # up) ii [] (pr_first p (depth + 1) ii) False)
               (\<lambda>(partial, some).
                  if some
                  then explore p depth up v (found @ [Node ii partial]) (pr_next p depth ii) True
                  else explore p depth up v found (pr_next p depth ii) has)) = Some r"
    have seen: "pr_reject q ((v, found) # up) ii = rej ?vs ii" "pr_accept q ((v, found) # up) ii = acc ?vs ii"
      using vals by (simp_all add: by_values_def)
    show "p = q \<longrightarrow> found_from q rej acc depth ?vs found ii has r"
    proof (intro impI)
      assume pq: "p = q"
      show "found_from q rej acc depth ?vs found ii has r"
      proof (cases "pr_stop q depth ii")
        case True
        then show ?thesis using body pq by (auto simp: found_from_def extension_stop intro!: exI [of _ "[]"])
      next
        case go: False
        consider "rej ?vs ii" | "\<not> rej ?vs ii" "acc ?vs ii" | "\<not> rej ?vs ii" "\<not> acc ?vs ii" by blast
        then show ?thesis
        proof cases
          case 1
          then have "explore q depth up v found (pr_next q depth ii) has = Some r"
            using body go pq by (simp add: seen)
          from IH [OF this] show ?thesis using 1 by (intro found_same [OF go]) (simp_all add: starts_def)
        next
          case 2
          then have "explore q depth up v (found @ [Node ii []]) (pr_next q depth ii) True = Some r"
            using body go pq by (simp add: seen)
          from IH [OF this] show ?thesis
            using 2 by (intro found_more [OF go, of "Node ii []"]) (simp_all add: starts_def)
        next
          case 3
          then obtain partial some where inner:
              "explore q (depth + 1) ((v, found) # up) ii [] (pr_first q (depth + 1) ii) False = Some (partial, some)"
            and rest: "(if some then explore q depth up v (found @ [Node ii partial]) (pr_next q depth ii) True
                else explore q depth up v found (pr_next q depth ii) has) = Some r"
            using body go pq by (auto simp: seen bind_eq_Some_conv)
          have "found_from q rej acc (depth + 1) (ii # ?vs) [] (pr_first q (depth + 1) ii) False (partial, some)"
            using IH [OF inner] by simp
          note tree = found_inside [OF this 3]
          show ?thesis
          proof (cases some)
            case True
            then have "set (paths (Node ii partial)) = {xs. starts q rej acc depth ?vs ii xs}"
              using tree by simp
            moreover have "explore q depth up v (found @ [Node ii partial]) (pr_next q depth ii) True = Some r"
              using True rest by simp
            ultimately show ?thesis using IH by (intro found_more [OF go, of "Node ii partial"]) simp_all
          next
            case False
            then have "\<not> starts q rej acc depth ?vs ii xs" for xs
              using tree by simp
            moreover have "explore q depth up v found (pr_next q depth ii) has = Some r"
              using False rest by simp
            ultimately show ?thesis using IH by (intro found_same [OF go]) simp_all
          qed
        qed
      qed
    qed
  qed
  then show ?thesis using vals by simp
qed

text \<open>The solutions of a problem: a first value, which nothing rejects, and an extension of it.\<close>

definition solution :: "'a problem \<Rightarrow> ('a list \<Rightarrow> 'a \<Rightarrow> bool) \<Rightarrow> ('a list \<Rightarrow> 'a \<Rightarrow> bool) \<Rightarrow> 'a \<Rightarrow> 'a list \<Rightarrow> bool" where
  "solution p rej acc ii xs \<longleftrightarrow>
     (\<exists>x ys. xs = x # ys \<and> visits p 0 ii x \<and> extension p rej acc 1 [x] (pr_first p 1 x) ys)"

lemma solution_stop: "pr_stop p 0 ii \<Longrightarrow> \<not> solution p rej acc ii xs"
  unfolding solution_def by (metis visits_next)

lemma solution_next:
  "\<not> pr_stop p 0 ii \<Longrightarrow> solution p rej acc ii xs \<longleftrightarrow>
    (\<exists>ys. xs = ii # ys \<and> extension p rej acc 1 [ii] (pr_first p 1 ii) ys) \<or>
    solution p rej acc (pr_next p 0 ii) xs"
  unfolding solution_def by (metis visits_next)

lemma apply_loop_finds:
  fixes p :: "'a problem"
  assumes vals: "by_values p rej acc"
    and run: "apply_loop p found ii = Some r"
  shows "\<exists>new. r = found @ new \<and> all_paths new = {xs. solution p rej acc ii xs}"
proof -
  have "p = q \<longrightarrow> (\<exists>new. r = found @ new \<and> all_paths new = {xs. solution p rej acc ii xs})" 
    if vals: "by_values q rej acc" for q
  proof (rule apply_loop.raw_induct [OF _ run, where
      P = "\<lambda>p found ii r. p = q \<longrightarrow> (\<exists>new. r = found @ new \<and> all_paths new = {xs. solution p rej acc ii xs})"])
    fix loop and p :: "'a problem" and found ii r
    assume IH: "\<And>p found ii r. loop p found ii = Some r \<Longrightarrow>
        p = q \<longrightarrow> (\<exists>new. r = found @ new \<and> all_paths new = {xs. solution p rej acc ii xs})"
      and body: "(if pr_stop p 0 ii then Some found
        else Option.bind (exploreSolutions p 1 [] ii [] (pr_first p 1 ii) False)
             (\<lambda>(partial, some). loop p (if some then found @ [Node ii partial] else found) (pr_next p 0 ii))) = Some r"
    show "p = q \<longrightarrow> (\<exists>new. r = found @ new \<and> all_paths new = {xs. solution p rej acc ii xs})"
    proof (intro impI)
      assume pq: "p = q"
      show "\<exists>new. r = found @ new \<and> all_paths new = {xs. solution p rej acc ii xs}"
      proof (cases "pr_stop q 0 ii")
        case True
        then show ?thesis using body pq by (auto simp: solution_stop intro!: exI [of _ "[]"])
      next
        case go: False
        then obtain partial some where inner:
            "exploreSolutions q 1 [] ii [] (pr_first q 1 ii) False = Some (partial, some)"
          and rest: "loop q (if some then found @ [Node ii partial] else found) (pr_next q 0 ii) = Some r"
          using body pq by (auto simp: bind_eq_Some_conv)
        have tree: "some \<longleftrightarrow> partial \<noteq> []"
            "all_paths partial = {xs. extension q rej acc 1 [ii] (pr_first q 1 ii) xs}"
          using explore_finds [OF vals inner] by (auto simp: found_from_def)
        obtain new where new: "r = (if some then found @ [Node ii partial] else found) @ new"
            "all_paths new = {xs. solution q rej acc (pr_next q 0 ii) xs}"
          using IH [OF rest] by auto
        have "all_paths ((if some then [Node ii partial] else []) @ new) = {xs. solution q rej acc ii xs}"
          using tree new(2) go by (auto simp: solution_next)
        then show ?thesis
          using new(1) pq by (intro exI [of _ "(if some then [Node ii partial] else []) @ new"]) simp
      qed
    qed
  qed
  then show ?thesis using vals by simp
qed

text \<open>
  Searches that end: every loop reaches its end, and no partial solution is longer than a bound.
\<close>

definition ends :: "'a problem \<Rightarrow> nat \<Rightarrow> 'a \<Rightarrow> bool" where
  "ends p depth ii \<longleftrightarrow> (\<exists>n. pr_stop p depth ((pr_next p depth ^^ n) ii))"

definition bounded_search :: "'a problem \<Rightarrow> nat \<Rightarrow> bool" where
  "bounded_search p bound \<longleftrightarrow> (\<forall>depth v. ends p depth (pr_first p depth v)) \<and>
     (\<forall>t c. bound < length t \<longrightarrow> pr_reject p t c \<or> pr_accept p t c)"

lemma ends_induct [consumes 1, case_names stop go]:
  assumes "ends p depth ii"
    and "\<And>ii. pr_stop p depth ii \<Longrightarrow> P ii"
    and "\<And>ii. \<not> pr_stop p depth ii \<Longrightarrow> P (pr_next p depth ii) \<Longrightarrow> P ii"
  shows "P ii"
proof -
  obtain n where "pr_stop p depth ((pr_next p depth ^^ n) ii)" using assms(1) by (auto simp: ends_def)
  then show ?thesis
  proof (induction n arbitrary: ii)
    case 0
    then show ?case using assms(2) by simp
  next
    case (Suc n)
    then show ?case using assms(2,3) by (cases "pr_stop p depth ii") (simp_all add: funpow_swap1)
  qed
qed

lemma explore_returns:
  assumes search: "bounded_search p bound"
  shows "ends p depth ii \<Longrightarrow> bound \<le> length up + k \<Longrightarrow> \<exists>r. exploreSolutions p depth up v found ii has = Some r"
proof (induction k arbitrary: depth up v found ii has)
  case 0
  have deep: "pr_reject p ((v, found) # up) c \<or> pr_accept p ((v, found) # up) c" for found c
    using search 0 by (simp add: bounded_search_def)
  from 0(1) show ?case
  proof (induction ii arbitrary: found has rule: ends_induct)
    case (stop ii)
    then show ?case by (subst exploreSolutions.simps) simp
  next
    case (go ii)
    then show ?case using deep [of found ii] by (subst exploreSolutions.simps) auto
  qed
next
  case (Suc k)
  have below: "\<exists>r. exploreSolutions p (depth + 1) ((v, found) # up) ii [] (pr_first p (depth + 1) ii) False = Some r" 
    for found ii
    using search Suc.prems(2) by (intro Suc.IH) (auto simp: bounded_search_def)
  from Suc.prems(1) show ?case
  proof (induction ii arbitrary: found has rule: ends_induct)
    case (stop ii)
    then show ?case by (subst exploreSolutions.simps) simp
  next
    case (go ii)
    obtain partial some where
      "exploreSolutions p (depth + 1) ((v, found) # up) ii [] (pr_first p (depth + 1) ii) False = Some (partial, some)"
      using below [of found ii] by auto
    then show ?case using go by (subst exploreSolutions.simps) auto
  qed
qed

lemma apply_loop_returns:
  assumes search: "bounded_search p bound"
  shows "ends p 0 ii \<Longrightarrow> \<exists>r. apply_loop p found ii = Some r"
proof (induction ii arbitrary: found rule: ends_induct)
  case (stop ii)
  then show ?case by (subst apply_loop.simps) simp
next
  case (go ii)
  obtain partial some where "exploreSolutions p 1 [] ii [] (pr_first p 1 ii) False = Some (partial, some)"
    using explore_returns [OF search, where k = bound and up = "[]"] search by (fastforce simp: bounded_search_def)
  then show ?case using go by (subst apply_loop.simps) auto
qed

lemma sum_list_of_nat: "sum_list (map (\<lambda>x. of_nat (f x)) xs) = of_nat (sum_list (map f xs))"
  by (induction xs) simp_all

lemma countSolutions_paths: "countSolutions t = of_nat (length (paths t))"
proof (induction t)
  case (Node v ts)
  then have "map countSolutions ts = map (\<lambda>t. of_nat (length (paths t))) ts" by simp
  then show ?case by (simp add: length_concat o_def sum_list_of_nat del: map_eq_conv)
qed


text \<open>The numbers from 1 to 3 that add up to 3.\<close>

definition add_up :: "nat problem" where
  "add_up = \<lparr>getStartingPoint = 0, pr_first = (\<lambda>_ _. 1), pr_stop = (\<lambda>_ v. 3 < v), pr_next = (\<lambda>_ v. v + 1),
     pr_reject = (\<lambda>t c. 2 < length t \<or> 3 < sum_list (map fst t) + c),
     pr_accept = (\<lambda>t c. sum_list (map fst t) + c = 3)\<rparr>"

lemma add_up_bounded: "bounded_search add_up 2"
proof -
  have "((\<lambda>v. v + 1) ^^ n) (1 :: nat) = n + 1" for n by (induction n) simp_all
  then show ?thesis by (auto simp: bounded_search_def ends_def add_up_def intro!: exI [of _ 3])
qed


lemma solver_add_up:
  "solver_apply add_up =
     Some ([Node 1 [Node 1 [Node 1 []], Node 2 []], Node 2 [Node 1 []]], True)"
  by (simp add: solver_apply_def add_up_def apply_loop.simps exploreSolutions.simps)

end
