(* ===== verification/Networking.thy ===== *)
theory Networking
  imports HttpServer AppCore "HOL-Library.AList"
begin

text \<open>
  \<open>networking\<close>: sockets over ZeroMQ and the service whose broker thread reads the messages of
  the server and subscriber sockets and hands them to their handlers.

  ZeroMQ is not part of the sources: its calls are the fields of \<open>zmq\<close>, over a world \<open>'z\<close>
  that also holds what the handlers change.  A call that throws \<open>zmq::error_t\<close> gives the text
  of the error.  A socket never changes after its constructor, so it is a value; \<open>so_zmq\<close> is
  the pointer \<open>m_zmqSocket\<close>.  \<open>None\<close> as the result of an operation is undefined behaviour (that
  pointer dereferenced while null) or the end of the program.
\<close>

datatype socket_kind = ClientKind | ServerKind | PublisherKind | SubscriberKind

datatype socket_option = IPv6 cint | SendTimeout cint | ReceiveTimeout cint | Linger cint | Subscription string

datatype poll_result = PollError | PollTimeout | PollReady "bool list"

text \<open>
  \<open>zmq_recv\<close> is given what the message object holds and returns what it holds afterwards;
  \<open>zmq_send\<close> is given the flag \<open>ZMQ_DONTWAIT\<close>; \<open>zmq_type\<close> is the constant for a class of sockets.
\<close>

record 'z zmq =
  zmq_type :: "socket_kind \<Rightarrow> cint"
  zmq_socket :: "cint \<Rightarrow> 'z \<Rightarrow> 'z \<times> (string + nat)"
  zmq_close :: "nat \<Rightarrow> 'z \<Rightarrow> 'z"
  zmq_bind :: "nat \<Rightarrow> string \<Rightarrow> 'z \<Rightarrow> 'z \<times> string option"
  zmq_unbind :: "nat \<Rightarrow> string \<Rightarrow> 'z \<Rightarrow> 'z \<times> string option"
  zmq_connect :: "nat \<Rightarrow> string \<Rightarrow> 'z \<Rightarrow> 'z \<times> string option"
  zmq_disconnect :: "nat \<Rightarrow> string \<Rightarrow> 'z \<Rightarrow> 'z \<times> string option"
  zmq_setsockopt :: "nat \<Rightarrow> socket_option \<Rightarrow> 'z \<Rightarrow> 'z \<times> string option"
  zmq_send :: "nat \<Rightarrow> bool \<Rightarrow> string \<Rightarrow> 'z \<Rightarrow> 'z \<times> (string + bool)"
  zmq_recv :: "nat \<Rightarrow> string \<Rightarrow> 'z \<Rightarrow> 'z \<times> (string + bool \<times> string)"
  zmq_connected :: "nat \<Rightarrow> 'z \<Rightarrow> bool"
  zmq_poll :: "nat list \<Rightarrow> 'z \<Rightarrow> 'z \<times> poll_result"

text \<open>
  A message handler is code of the application; of the socket it is given, it uses the virtual
  \<open>send\<close>.
\<close>

record 'z message_handler =
  ha_name :: string
  ha_apply :: "'z socket_send \<Rightarrow> string \<Rightarrow> 'z \<Rightarrow> 'z \<times> unit outcome"

section \<open>Arguments\<close>

record 'z socket_arguments =
  ar_endPoints :: "string list"
  ar_messageHandler :: "'z message_handler option"
  ar_name :: string
  ar_subscriptions :: "string list"
  ar_useIPv6 :: bool

definition arguments_new :: "'z socket_arguments" where
  "arguments_new = \<lparr>ar_endPoints = [], ar_messageHandler = None, ar_name = [], ar_subscriptions = [], ar_useIPv6 = False\<rparr>"

definition arguments_addEndPoint :: "string \<Rightarrow> 'z socket_arguments \<Rightarrow> 'z socket_arguments" where
  "arguments_addEndPoint endPoint ar = ar\<lparr>ar_endPoints := ar_endPoints ar @ [endPoint]\<rparr>"

definition arguments_setName :: "string \<Rightarrow> 'z socket_arguments \<Rightarrow> 'z socket_arguments" where
  "arguments_setName name ar = ar\<lparr>ar_name := name\<rparr>"

definition setMessageHandler :: "'z message_handler option \<Rightarrow> 'z socket_arguments \<Rightarrow> 'z socket_arguments" where
  "setMessageHandler handler ar = ar\<lparr>ar_messageHandler := handler\<rparr>"

definition addSubscription :: "string \<Rightarrow> 'z socket_arguments \<Rightarrow> 'z socket_arguments" where
  "addSubscription subscription ar = ar\<lparr>ar_subscriptions := ar_subscriptions ar @ [subscription]\<rparr>"

definition activateIPv6 :: "'z socket_arguments \<Rightarrow> 'z socket_arguments" where
  "activateIPv6 ar = ar\<lparr>ar_useIPv6 := True\<rparr>"

section \<open>Sockets\<close>

record 'z socket =
  so_kind :: socket_kind
  so_zmq :: "nat option"
  so_endPoints :: "string list"
  so_socketType :: cint
  so_messageHandler :: "'z message_handler option"
  so_subscriptions :: "string list"

definition isValid :: "'z socket \<Rightarrow> bool" where
  "isValid s = (so_zmq s \<noteq> None)"

text \<open>An error of the constructor is only logged.\<close>

definition socket_new :: "'z zmq \<Rightarrow> socket_kind \<Rightarrow> 'z socket_arguments \<Rightarrow> 'z \<Rightarrow> 'z \<times> 'z socket" where
  "socket_new zmq k ar z =
     (let made = (\<lambda>h. \<lparr>so_kind = k, so_zmq = h, so_endPoints = ar_endPoints ar, so_socketType = zmq_type zmq k,
            so_messageHandler = (if k \<in> {ServerKind, SubscriberKind} then ar_messageHandler ar else None),
            so_subscriptions = (if k = SubscriberKind then ar_subscriptions ar else [])\<rparr>)
      in case zmq_socket zmq (zmq_type zmq k) z of
           (z1, Inl e) \<Rightarrow> (z1, made None)
         | (z1, Inr h) \<Rightarrow>
             (if ar_useIPv6 ar then fst (zmq_setsockopt zmq h (IPv6 1) z1) else z1, made (Some h)))"

definition socket_delete :: "'z zmq \<Rightarrow> 'z socket \<Rightarrow> 'z \<Rightarrow> 'z option" where
  "socket_delete zmq s z = map_option (\<lambda>h. zmq_close zmq h z) (so_zmq s)"

definition socket_text :: "'z socket \<Rightarrow> string" where
  "socket_text s =
     ''Socket {'' @ ''IsValid='' @ as_string_bool (isValid s) @ '', Type='' @ as_string_int (so_socketType s)
     @ '', EndPoints=['' @ comma_separated (so_endPoints s) @ '']'' @ ''}''"

definition async_text :: "'z socket \<Rightarrow> string" where
  "async_text s =
     ''AsyncSocket {'' @ socket_text s
     @ (case so_messageHandler s of None \<Rightarrow> '''' | Some h \<Rightarrow> '',Handler='' @ named_as_string (ha_name h)) @ ''}''"

definition server_text :: "'z socket \<Rightarrow> string" where
  "server_text s = ''networking.ServerSocket {'' @ async_text s @ ''}''"

definition subscriber_text :: "'z socket \<Rightarrow> string" where
  "subscriber_text s =
     ''networking.SubscriberSocket {'' @ async_text s @ '',Subscriptions=[''
     @ comma_separated (so_subscriptions s) @ '']'' @ ''}''"

definition publisher_text :: "'z socket \<Rightarrow> string" where
  "publisher_text s = ''networking.PublisherSocket {'' @ socket_text s @ ''}''"

definition client_text :: "'z zmq \<Rightarrow> 'z socket \<Rightarrow> 'z \<Rightarrow> string option" where
  "client_text zmq s z =
     map_option (\<lambda>h. ''networking.ClientSocket {'' @ socket_text s @ '',IsConnected=''
        @ as_string_bool (zmq_connected zmq h z) @ ''}'') (so_zmq s)"

text \<open>The virtual \<open>asString\<close>.\<close>

definition socket_as_string :: "'z zmq \<Rightarrow> 'z socket \<Rightarrow> 'z \<Rightarrow> string option" where
  "socket_as_string zmq s z =
     (case so_kind s of
        ClientKind \<Rightarrow> client_text zmq s z
      | ServerKind \<Rightarrow> Some (server_text s)
      | PublisherKind \<Rightarrow> Some (publisher_text s)
      | SubscriberKind \<Rightarrow> Some (subscriber_text s))"

definition socket_as_xml :: "(string \<Rightarrow> string) \<Rightarrow> 'z socket \<Rightarrow> xml_node outcome" where
  "socket_as_xml latin1 s =
     (case create_attributes
         [(''IsValid'', as_string_bool (isValid s)), (''Type'', as_string_int (so_socketType s))] (new_node ''Socket'') of
        Inl e \<Rightarrow> Inl e
      | Inr n \<Rightarrow>
          Inr (add_child
            (foldl (\<lambda>eps endPoint. add_child (create_text latin1 endPoint (new_node ''EndPoint'')) eps)
              (new_node ''EndPoints'') (so_endPoints s)) n))"

definition async_as_xml :: "(string \<Rightarrow> string) \<Rightarrow> 'z socket \<Rightarrow> xml_node outcome option" where
  "async_as_xml latin1 s =
     (case socket_as_xml latin1 s of
        Inl e \<Rightarrow> Some (Inl e)
      | Inr n \<Rightarrow>
          map_option (\<lambda>h. create_attribute ''MessageHandler'' (ha_name h) (add_child n (new_node ''AsyncSocket'')))
            (so_messageHandler s))"

text \<open>An exception whose text begins with the description of the socket.\<close>

definition refuse :: "'z zmq \<Rightarrow> 'z socket \<Rightarrow> string \<Rightarrow> 'z \<Rightarrow> ('z \<times> 'a outcome) option" where
  "refuse zmq s reason z =
     map_option (\<lambda>t. (z, Inl (RuntimeException (t @ reason)))) (socket_as_string zmq s z)"

definition not_initialized :: exn where
  "not_initialized = RuntimeException ''Socket was not initialized successfully''"

text \<open>\<open>bind\<close> tries every end point and is content when one works; \<open>connect\<close> stops at the first error.\<close>

fun bind_all :: "'z zmq \<Rightarrow> nat \<Rightarrow> string list \<Rightarrow> bool \<Rightarrow> 'z \<Rightarrow> 'z \<times> bool" where
  "bind_all zmq h [] someWorks z = (z, someWorks)"
| "bind_all zmq h (ep # eps) someWorks z =
     (case zmq_bind zmq h (c_str ep) z of
        (z1, None) \<Rightarrow> bind_all zmq h eps True z1
      | (z1, Some e) \<Rightarrow> bind_all zmq h eps someWorks z1)"

definition socket_bind :: "'z zmq \<Rightarrow> 'z socket \<Rightarrow> 'z \<Rightarrow> ('z \<times> unit outcome) option" where
  "socket_bind zmq s z =
     (if so_endPoints s = [] then refuse zmq s '' does not have any end point'' z
      else case so_zmq s of
             None \<Rightarrow> Some (z, Inl not_initialized)
           | Some h \<Rightarrow>
               (case bind_all zmq h (so_endPoints s) False z of
                  (z1, True) \<Rightarrow> Some (z1, Inr ())
                | (z1, False) \<Rightarrow> refuse zmq s '' does not have any valid end point'' z1))"

definition socket_unbind :: "'z zmq \<Rightarrow> 'z socket \<Rightarrow> 'z \<Rightarrow> 'z" where
  "socket_unbind zmq s z =
     (case so_zmq s of
        None \<Rightarrow> z
      | Some h \<Rightarrow> foldl (\<lambda>z ep. fst (zmq_unbind zmq h (c_str ep) z)) z (so_endPoints s))"

fun connect_all :: "'z zmq \<Rightarrow> nat \<Rightarrow> string list \<Rightarrow> 'z \<Rightarrow> 'z \<times> string option" where
  "connect_all zmq h [] z = (z, None)"
| "connect_all zmq h (ep # eps) z =
     (case zmq_connect zmq h (c_str ep) z of
        (z1, None) \<Rightarrow> connect_all zmq h eps z1
      | (z1, Some e) \<Rightarrow> (z1, Some e))"

definition socket_connect :: "'z zmq \<Rightarrow> 'z socket \<Rightarrow> 'z \<Rightarrow> ('z \<times> unit outcome) option" where
  "socket_connect zmq s z =
     (if so_endPoints s = [] then refuse zmq s '' does not have any end point'' z
      else case so_zmq s of
             None \<Rightarrow> Some (z, Inl not_initialized)
           | Some h \<Rightarrow>
               (case connect_all zmq h (so_endPoints s) z of
                  (z1, None) \<Rightarrow> Some (z1, Inr ())
                | (z1, Some e) \<Rightarrow> refuse zmq s ('', Error='' @ e) z1))"

definition socket_disconnect :: "'z zmq \<Rightarrow> 'z socket \<Rightarrow> 'z \<Rightarrow> 'z" where
  "socket_disconnect zmq s z =
     (case so_zmq s of
        None \<Rightarrow> z
      | Some h \<Rightarrow> foldl (\<lambda>z ep. fst (zmq_disconnect zmq h (c_str ep) z)) z (so_endPoints s))"

section \<open>The classes of sockets\<close>

definition require_handler :: "'z zmq \<Rightarrow> 'z socket \<Rightarrow> 'z \<Rightarrow> ('z \<times> unit outcome) option" where
  "require_handler zmq s z =
     (if so_messageHandler s = None then refuse zmq s '' requires a message handler instance'' z else Some (z, Inr ()))"

definition server_initialize :: "'z zmq \<Rightarrow> 'z socket \<Rightarrow> 'z \<Rightarrow> ('z \<times> unit outcome) option" where
  "server_initialize zmq s z =
     (case require_handler zmq s z of
        Some (z1, Inr u) \<Rightarrow> socket_bind zmq s z1
      | r \<Rightarrow> r)"

definition subscriber_initialize :: "'z zmq \<Rightarrow> 'z socket \<Rightarrow> 'z \<Rightarrow> ('z \<times> unit outcome) option" where
  "subscriber_initialize zmq s z =
     (case require_handler zmq s z of
        Some (z1, Inr u) \<Rightarrow>
          (if so_subscriptions s = [] then refuse zmq s '' requires one or more subscriptions'' z1
           else case socket_connect zmq s z1 of
                  Some (z2, Inr v) \<Rightarrow>
                    map_option (\<lambda>h. (foldl (\<lambda>z sub. fst (zmq_setsockopt zmq h (Subscription sub) z)) z2 (so_subscriptions s), Inr ()))
                      (so_zmq s)
                | r \<Rightarrow> r)
      | r \<Rightarrow> r)"

fun set_options :: "'z zmq \<Rightarrow> nat \<Rightarrow> socket_option list \<Rightarrow> 'z \<Rightarrow> 'z \<times> string option" where
  "set_options zmq h [] z = (z, None)"
| "set_options zmq h (opt # opts) z =
     (case zmq_setsockopt zmq h opt z of
        (z1, None) \<Rightarrow> set_options zmq h opts z1
      | (z1, Some e) \<Rightarrow> (z1, Some e))"

definition handshakeTime :: cint where "handshakeTime = 50"

definition client_initialize :: "'z zmq \<Rightarrow> 'z socket \<Rightarrow> 'z \<Rightarrow> ('z \<times> unit outcome) option" where
  "client_initialize zmq s z =
     (case socket_connect zmq s z of
        Some (z1, Inr u) \<Rightarrow>
          (case so_zmq s of
             None \<Rightarrow> None
           | Some h \<Rightarrow>
               (case set_options zmq h
                   [SendTimeout handshakeTime, ReceiveTimeout handshakeTime, Linger handshakeTime] z1 of
                  (z2, None) \<Rightarrow> Some (z2, Inr ())
                | (z2, Some e) \<Rightarrow> refuse zmq s ('',Error='' @ e) z2))
      | r \<Rightarrow> r)"

definition socket_initialize :: "'z zmq \<Rightarrow> 'z socket \<Rightarrow> 'z \<Rightarrow> ('z \<times> unit outcome) option" where
  "socket_initialize zmq s z =
     (case so_kind s of
        ClientKind \<Rightarrow> client_initialize zmq s z
      | ServerKind \<Rightarrow> server_initialize zmq s z
      | PublisherKind \<Rightarrow> socket_bind zmq s z
      | SubscriberKind \<Rightarrow> subscriber_initialize zmq s z)"

definition socket_destroy :: "'z zmq \<Rightarrow> 'z socket \<Rightarrow> 'z \<Rightarrow> 'z" where
  "socket_destroy zmq s z =
     (case so_kind s of
        ClientKind \<Rightarrow> socket_disconnect zmq s z
      | ServerKind \<Rightarrow> socket_unbind zmq s z
      | PublisherKind \<Rightarrow> socket_unbind zmq s z
      | SubscriberKind \<Rightarrow> socket_disconnect zmq s z)"

text \<open>A request and its answer over a client socket.\<close>

definition exchange :: "'z zmq \<Rightarrow> 'z socket \<Rightarrow> string \<Rightarrow> 'z \<Rightarrow> ('z \<times> string outcome) option" where
  "exchange zmq s request z =
     (case so_zmq s of
        None \<Rightarrow> None
      | Some h \<Rightarrow>
          (case zmq_send zmq h True request z of
             (z1, Inl e) \<Rightarrow> refuse zmq s ('',Error='' @ e) z1
           | (z1, Inr False) \<Rightarrow> refuse zmq s '',Error=Socket could not send the message'' z1
           | (z1, Inr True) \<Rightarrow>
               (case zmq_recv zmq h [] z1 of
                  (z2, Inl e) \<Rightarrow> refuse zmq s ('',Error='' @ e) z2
                | (z2, Inr (False, answer)) \<Rightarrow> refuse zmq s '' did not receive any response'' z2
                | (z2, Inr (True, answer)) \<Rightarrow> Some (z2, Inr answer))))"

text \<open>Whether ZeroMQ took the message is not looked at, only whether it threw.\<close>

definition publish :: "'z zmq \<Rightarrow> 'z socket \<Rightarrow> string \<Rightarrow> 'z \<Rightarrow> ('z \<times> unit outcome) option" where
  "publish zmq s response z =
     (case so_zmq s of
        None \<Rightarrow> None
      | Some h \<Rightarrow>
          (case zmq_send zmq h False response z of
             (z1, Inl e) \<Rightarrow> Some (z1, Inl (RuntimeException (publisher_text s @ '', Error='' @ e)))
           | (z1, Inr sent) \<Rightarrow> Some (z1, Inr ())))"

text \<open>\<open>send\<close> of a server, with the ZeroMQ socket it has, and of a subscriber.\<close>

definition async_send :: "'z zmq \<Rightarrow> 'z socket \<Rightarrow> nat \<Rightarrow> 'z socket_send" where
  "async_send zmq s h response z =
     (if so_kind s = SubscriberKind
      then (z, Some (RuntimeException (subscriber_text s @ '' method can not be used'')))
      else case zmq_send zmq h False response z of
             (z1, Inl e) \<Rightarrow> (z1, Some (RuntimeException (server_text s @ '', Error='' @ e)))
           | (z1, Inr sent) \<Rightarrow> (z1, None))"

definition handle :: "'z zmq \<Rightarrow> 'z socket \<Rightarrow> nat \<Rightarrow> string \<Rightarrow> 'z \<Rightarrow> ('z \<times> unit outcome) option" where
  "handle zmq s h text z =
     map_option (\<lambda>handler. ha_apply handler (async_send zmq s h) text z) (so_messageHandler s)"

section \<open>The service\<close>

record 'z networking =
  nw_service :: service
  nw_sockets :: "'z socket list"
  nw_serverSockets :: "'z socket list"
  nw_namedClientSockets :: "(string \<times> 'z socket) list"
  nw_subscriberSockets :: "'z socket list"

definition networking_new :: "'z networking" where
  "networking_new = \<lparr>nw_service = service_new Networking ''ZeroMQ'', nw_sockets = [], nw_serverSockets = [],
     nw_namedClientSockets = [], nw_subscriberSockets = []\<rparr>"

abbreviation net_isRunning :: "'z networking \<Rightarrow> bool" where
  "net_isRunning nw \<equiv> AppCore.isRunning (s_flags (nw_service nw))"

text \<open>
  What the four operations that create a socket share: a socket of a running service is
  initialized at once, and when that throws, the new socket goes out of scope.
\<close>

definition create_socket ::
    "'z zmq \<Rightarrow> socket_kind \<Rightarrow> 'z socket_arguments \<Rightarrow> 'z networking \<Rightarrow> 'z \<Rightarrow> ('z \<times> 'z socket outcome) option" where
  "create_socket zmq k ar nw z =
     (case socket_new zmq k ar z of
        (z1, s) \<Rightarrow>
          (if net_isRunning nw
           then (case socket_initialize zmq s z1 of
                   None \<Rightarrow> None
                 | Some (z2, Inl e) \<Rightarrow> map_option (\<lambda>z3. (z3, Inl e)) (socket_delete zmq s z2)
                 | Some (z2, Inr u) \<Rightarrow> Some (z2, Inr s))
           else Some (z1, Inr s)))"

definition registered ::
    "('z socket \<Rightarrow> 'z networking) \<Rightarrow> 'z networking \<Rightarrow> ('z \<times> 'z socket outcome) option \<Rightarrow>
     ('z networking \<times> 'z \<times> 'z socket outcome) option" where
  "registered register nw made =
     map_option (\<lambda>(z, r). ((case r of Inl e \<Rightarrow> nw | Inr s \<Rightarrow> register s), z, r)) made"

definition createServerSocket ::
    "'z zmq \<Rightarrow> 'z socket_arguments \<Rightarrow> 'z networking \<Rightarrow> 'z \<Rightarrow> ('z networking \<times> 'z \<times> 'z socket outcome) option" where
  "createServerSocket zmq ar nw z =
     registered (\<lambda>s. nw\<lparr>nw_sockets := nw_sockets nw @ [s], nw_serverSockets := nw_serverSockets nw @ [s]\<rparr>) nw
       (create_socket zmq ServerKind ar nw z)"

definition createClientSocket ::
    "'z zmq \<Rightarrow> 'z socket_arguments \<Rightarrow> 'z networking \<Rightarrow> 'z \<Rightarrow> ('z networking \<times> 'z \<times> 'z socket outcome) option" where
  "createClientSocket zmq ar nw z =
     registered (\<lambda>s. nw\<lparr>nw_sockets := nw_sockets nw @ [s],
         nw_namedClientSockets := (if ar_name ar \<noteq> [] then AList.update (ar_name ar) s (nw_namedClientSockets nw)
                                   else nw_namedClientSockets nw)\<rparr>) nw
       (create_socket zmq ClientKind ar nw z)"

definition createPublisherSocket ::
    "'z zmq \<Rightarrow> 'z socket_arguments \<Rightarrow> 'z networking \<Rightarrow> 'z \<Rightarrow> ('z networking \<times> 'z \<times> 'z socket outcome) option" where
  "createPublisherSocket zmq ar nw z =
     registered (\<lambda>s. nw\<lparr>nw_sockets := nw_sockets nw @ [s]\<rparr>) nw (create_socket zmq PublisherKind ar nw z)"

definition createSubscriberSocket ::
    "'z zmq \<Rightarrow> 'z socket_arguments \<Rightarrow> 'z networking \<Rightarrow> 'z \<Rightarrow> ('z networking \<times> 'z \<times> 'z socket outcome) option" where
  "createSubscriberSocket zmq ar nw z =
     registered (\<lambda>s. nw\<lparr>nw_sockets := nw_sockets nw @ [s], nw_subscriberSockets := nw_subscriberSockets nw @ [s]\<rparr>) nw
       (create_socket zmq SubscriberKind ar nw z)"

definition findClientSocket :: "string \<Rightarrow> 'z networking \<Rightarrow> 'z socket outcome" where
  "findClientSocket name nw =
     (case map_of (nw_namedClientSockets nw) name of
        None \<Rightarrow> Inl (RuntimeException (''Client socket named as '' @ [CHR 0x27] @ name @ '' is not defined''))
      | Some s \<Rightarrow> Inr s)"

fun initialize_all :: "'z zmq \<Rightarrow> 'z socket list \<Rightarrow> 'z \<Rightarrow> ('z \<times> unit outcome) option" where
  "initialize_all zmq [] z = Some (z, Inr ())"
| "initialize_all zmq (s # ss) z =
     (case socket_initialize zmq s z of
        Some (z1, Inr u) \<Rightarrow> initialize_all zmq ss z1
      | r \<Rightarrow> r)"

definition net_do_initialize :: "'z zmq \<Rightarrow> 'z networking \<Rightarrow> 'z \<Rightarrow> ('z \<times> unit outcome) option" where
  "net_do_initialize zmq nw z = initialize_all zmq (nw_sockets nw) z"

text \<open>\<open>do_stop\<close>, once the broker has seen that the service does not run any more.\<close>

definition net_do_stop :: "'z zmq \<Rightarrow> 'z networking \<Rightarrow> 'z \<Rightarrow> 'z networking \<times> 'z" where
  "net_do_stop zmq nw z =
     (nw\<lparr>nw_service := (nw_service nw)\<lparr>s_flags := Stopped\<rparr>\<rparr>,
      foldl (\<lambda>z s. socket_destroy zmq s z) z (nw_sockets nw))"

section \<open>The broker\<close>

text \<open>
  \<open>Poll\<close>: the item at an index watches the ZeroMQ socket of the socket at that index.  The
  constructor dereferences the pointers.  (\<open>m_nitems\<close> is an \<open>int\<close>: fewer than \<open>2 ^ 31\<close> sockets.)
\<close>

record 'z poll =
  po_items :: "nat list"
  po_asyncSockets :: "'z socket list"

fun poll_items :: "'z socket list \<Rightarrow> nat list option" where
  "poll_items [] = Some []"
| "poll_items (s # ss) =
     (case so_zmq s of
        None \<Rightarrow> None
      | Some h \<Rightarrow> map_option (\<lambda>hs. h # hs) (poll_items ss))"

definition poll_new :: "'z networking \<Rightarrow> 'z poll option" where
  "poll_new nw =
     map_option (\<lambda>hs. \<lparr>po_items = hs, po_asyncSockets = nw_serverSockets nw @ nw_subscriberSockets nw\<rparr>)
       (poll_items (nw_serverSockets nw @ nw_subscriberSockets nw))"

definition isOutdated :: "'z networking \<Rightarrow> 'z poll \<Rightarrow> bool" where
  "isOutdated nw p = (length (po_items p) \<noteq> length (nw_serverSockets nw) + length (nw_subscriberSockets nw))"

definition refresh :: "'z networking \<Rightarrow> 'z poll \<Rightarrow> 'z poll option" where
  "refresh nw p = (if isOutdated nw p then poll_new nw else Some p)"

text \<open>
  The items that are ready, in the order of their indices; \<open>msg\<close> is the message object of
  the round.  Errors of ZeroMQ and runtime exceptions are logged; any other exception leaves a
  function that promises not to throw.
\<close>

fun serve :: "'z zmq \<Rightarrow> ('z socket \<times> nat \<times> bool) list \<Rightarrow> string \<Rightarrow> 'z \<Rightarrow> 'z option" where
  "serve zmq [] msg z = Some z"
| "serve zmq ((s, h, ready) # items) msg z =
     (if \<not> ready then serve zmq items msg z
      else case zmq_recv zmq h msg z of
             (z1, Inl e) \<Rightarrow> serve zmq items msg z1
           | (z1, Inr (received, msg1)) \<Rightarrow>
               (case handle zmq s h msg1 z1 of
                  None \<Rightarrow> None
                | Some (z2, Inl e) \<Rightarrow> (if is_runtime e then serve zmq items msg1 z2 else None)
                | Some (z2, Inr u) \<Rightarrow> serve zmq items msg1 z2))"

text \<open>One turn of the loop of \<open>broker\<close>: the poll, the world, and whether the loop goes on.\<close>

definition broker_turn :: "'z zmq \<Rightarrow> 'z networking \<Rightarrow> 'z poll \<Rightarrow> 'z \<Rightarrow> ('z poll \<times> 'z \<times> bool) option" where
  "broker_turn zmq nw p z =
     (case zmq_poll zmq (po_items p) z of
        (z1, PollError) \<Rightarrow> Some (p, z1, False)
      | (z1, PollTimeout) \<Rightarrow> map_option (\<lambda>p1. (p1, z1, True)) (refresh nw p)
      | (z1, PollReady ready) \<Rightarrow>
          (case serve zmq (zip (po_asyncSockets p) (zip (po_items p) ready)) [] z1 of
             None \<Rightarrow> None
           | Some z2 \<Rightarrow> map_option (\<lambda>p1. (p1, z2, True)) (refresh nw p)))"

text \<open>The first \<open>n\<close> turns of a broker whose service goes on running unchanged.\<close>

fun broker_turns :: "nat \<Rightarrow> 'z zmq \<Rightarrow> 'z networking \<Rightarrow> 'z poll \<Rightarrow> 'z \<Rightarrow> ('z poll \<times> 'z \<times> bool) option" where
  "broker_turns 0 zmq nw p z = Some (p, z, True)"
| "broker_turns (Suc n) zmq nw p z =
     (if \<not> net_isRunning nw then Some (p, z, False)
      else case broker_turn zmq nw p z of
             Some (p1, z1, True) \<Rightarrow> broker_turns n zmq nw p1 z1
           | r \<Rightarrow> r)"

text \<open>The start of the broker's thread, once the service is not starting any more.\<close>

definition broker_start :: "'z networking \<Rightarrow> ('z networking \<times> 'z poll) option" where
  "broker_start nw =
     map_option (\<lambda>p. (nw\<lparr>nw_service := notifyEffectiveRunning (nw_service nw)\<rparr>, p)) (poll_new nw)"

fun sockets_as_xml :: "(string \<Rightarrow> string) \<Rightarrow> 'z socket list \<Rightarrow> xml_node \<Rightarrow> xml_node outcome option" where
  "sockets_as_xml latin1 [] n = Some (Inr n)"
| "sockets_as_xml latin1 (s # ss) n =
     (case (if so_kind s \<in> {ServerKind, SubscriberKind} then async_as_xml latin1 s else Some (socket_as_xml latin1 s)) of
        Some (Inr c) \<Rightarrow> sockets_as_xml latin1 ss (add_child c n)
      | r \<Rightarrow> r)"

definition net_as_xml :: "(string \<Rightarrow> string) \<Rightarrow> 'z networking \<Rightarrow> xml_node outcome option" where
  "net_as_xml latin1 nw =
     (case service_as_xml (nw_service nw) of
        Inl e \<Rightarrow> Some (Inl e)
      | Inr n \<Rightarrow>
          (case sockets_as_xml latin1 (nw_sockets nw) (new_node ''Sockets'') of
             Some (Inr sockets) \<Rightarrow> Some (Inr (add_child sockets (add_child n (new_node ''networking.Service''))))
           | r \<Rightarrow> r))"

end
