(* ===== verification/Broker.thy ===== *)
theory Broker
  imports Networking "HOL-Library.Sublist"
begin

text \<open>
  What the broker of the networking service promises: it watches every server and subscriber
  socket, those created while it runs from its next turn on, without ever dereferencing a null
  socket; and the HTTP services on top of it answer every request once and in order.
\<close>

section \<open>The sockets the broker watches\<close>

definition async_sockets :: "'z networking \<Rightarrow> 'z socket list" where
  "async_sockets nw = nw_serverSockets nw @ nw_subscriberSockets nw"

text \<open>What a socket that was initialized has.\<close>

definition ready_socket :: "'z socket \<Rightarrow> bool" where
  "ready_socket s \<longleftrightarrow> isValid s \<and> (so_kind s \<in> {ServerKind, SubscriberKind} \<longrightarrow> so_messageHandler s \<noteq> None)"

definition members_ok :: "'z networking \<Rightarrow> bool" where
  "members_ok nw \<longleftrightarrow> set (async_sockets nw) \<subseteq> set (nw_sockets nw) \<and>
     (\<forall>s \<in> set (async_sockets nw). so_kind s \<in> {ServerKind, SubscriberKind})"

definition running_ok :: "'z networking \<Rightarrow> bool" where
  "running_ok nw \<longleftrightarrow> members_ok nw \<and> (\<forall>s \<in> set (nw_sockets nw). ready_socket s)"

definition poll_ok :: "'z networking \<Rightarrow> 'z poll \<Rightarrow> bool" where
  "poll_ok nw p \<longleftrightarrow> poll_items (po_asyncSockets p) = Some (po_items p) \<and>
     (\<exists>a b. po_asyncSockets p = a @ b \<and> prefix a (nw_serverSockets nw) \<and> prefix b (nw_subscriberSockets nw))"

lemma poll_items_valid: "\<forall>s \<in> set ss. isValid s \<Longrightarrow> poll_items ss = Some (map (\<lambda>s. the (so_zmq s)) ss)"
  by (induction ss) (auto simp: isValid_def)

lemma poll_items_length: "poll_items ss = Some hs \<Longrightarrow> length hs = length ss"
  by (induction ss arbitrary: hs) (auto split: option.splits)

lemma poll_ok_current:
  assumes "poll_ok nw p" "\<not> isOutdated nw p"
  shows "po_asyncSockets p = async_sockets nw"
proof -
  obtain a b where ab: "po_asyncSockets p = a @ b" "prefix a (nw_serverSockets nw)" "prefix b (nw_subscriberSockets nw)"
    using assms(1) by (auto simp: poll_ok_def)
  have "length a + length b = length (nw_serverSockets nw) + length (nw_subscriberSockets nw)"
    using assms ab(1) poll_items_length [of "po_asyncSockets p"] by (simp add: poll_ok_def isOutdated_def)
  moreover have "length a \<le> length (nw_serverSockets nw)" "length b \<le> length (nw_subscriberSockets nw)"
    using ab prefix_length_le by auto
  ultimately show ?thesis
    using ab by (auto simp: async_sockets_def prefix_def)
qed

lemma poll_new_running:
  assumes "running_ok nw"
  shows "\<exists>p. poll_new nw = Some p \<and> poll_ok nw p \<and> po_asyncSockets p = async_sockets nw"
proof -
  have "\<forall>s \<in> set (nw_serverSockets nw @ nw_subscriberSockets nw). isValid s"
    using assms by (auto simp: running_ok_def members_ok_def async_sockets_def ready_socket_def)
  from poll_items_valid [OF this] show ?thesis
    by (auto simp: poll_new_def poll_ok_def async_sockets_def)
qed

lemma refresh_running:
  assumes "running_ok nw" "poll_ok nw p"
  shows "\<exists>p1. refresh nw p = Some p1 \<and> poll_ok nw p1 \<and> po_asyncSockets p1 = async_sockets nw"
  using assms poll_new_running [OF assms(1)] poll_ok_current [OF assms(2)]
  by (auto simp: refresh_def)

section \<open>Initialized sockets are ready\<close>

lemma refuse_not_ok [simp]: "refuse zmq s reason z \<noteq> Some (z1, Inr u)"
  by (auto simp: refuse_def)

lemma require_handler_ok [simp]:
  "require_handler zmq s z = Some (z1, Inr u) \<longleftrightarrow> so_messageHandler s \<noteq> None \<and> z1 = z"
  by (auto simp: require_handler_def)

lemma socket_bind_ok: "socket_bind zmq s z = Some (z1, Inr u) \<Longrightarrow> isValid s"
  by (auto simp: socket_bind_def isValid_def split: if_splits option.splits)

lemma socket_connect_ok: "socket_connect zmq s z = Some (z1, Inr u) \<Longrightarrow> isValid s"
  by (auto simp: socket_connect_def isValid_def split: if_splits option.splits)

lemma socket_initialize_ok:
  assumes "socket_initialize zmq s z = Some (z1, Inr u)"
  shows "ready_socket s"
proof (cases "so_kind s")
  case ClientKind
  with assms show ?thesis
    by (auto simp: ready_socket_def socket_initialize_def client_initialize_def
        split: option.splits sum.splits dest: socket_connect_ok)
next
  case ServerKind
  with assms show ?thesis
    by (auto simp: ready_socket_def socket_initialize_def server_initialize_def
        split: option.splits sum.splits dest: socket_bind_ok)
next
  case PublisherKind
  with assms show ?thesis
    by (auto simp: ready_socket_def socket_initialize_def dest: socket_bind_ok)
next
  case SubscriberKind
  with assms show ?thesis
    by (auto simp: ready_socket_def isValid_def socket_initialize_def subscriber_initialize_def
        split: option.splits sum.splits if_splits dest: socket_connect_ok)
qed

lemma initialize_all_ok: "initialize_all zmq ss z = Some (z1, Inr u) \<Longrightarrow> \<forall>s \<in> set ss. ready_socket s"
  by (induction ss arbitrary: z) (auto split: option.splits sum.splits prod.splits dest: socket_initialize_ok)

lemma socket_new_kind [simp]: "socket_new zmq k ar z = (z1, s) \<Longrightarrow> so_kind s = k"
  by (auto simp: socket_new_def Let_def split: prod.splits sum.splits)

lemma create_socket_ok:
  assumes "create_socket zmq k ar nw z = Some (z1, Inr s)"
  shows "so_kind s = k \<and> (net_isRunning nw \<longrightarrow> ready_socket s)"
  using assms
  by (auto simp: create_socket_def split: prod.splits if_splits option.splits sum.splits
      dest: socket_initialize_ok socket_new_kind)

section \<open>Events\<close>

text \<open>What happens to a running service: sockets are created between the turns of the broker.\<close>

datatype 'z net_event =
    CreateServer "'z socket_arguments"
  | CreateClient "'z socket_arguments"
  | CreatePublisher "'z socket_arguments"
  | CreateSubscriber "'z socket_arguments"
  | Turn

fun net_step :: "'z zmq \<Rightarrow> 'z net_event \<Rightarrow> 'z networking \<times> 'z poll \<times> 'z \<Rightarrow> ('z networking \<times> 'z poll \<times> 'z) option" where
  "net_step zmq (CreateServer ar) (nw, p, z) = map_option (\<lambda>(nw1, z1, r). (nw1, p, z1)) (createServerSocket zmq ar nw z)"
| "net_step zmq (CreateClient ar) (nw, p, z) = map_option (\<lambda>(nw1, z1, r). (nw1, p, z1)) (createClientSocket zmq ar nw z)"
| "net_step zmq (CreatePublisher ar) (nw, p, z) = map_option (\<lambda>(nw1, z1, r). (nw1, p, z1)) (createPublisherSocket zmq ar nw z)"
| "net_step zmq (CreateSubscriber ar) (nw, p, z) = map_option (\<lambda>(nw1, z1, r). (nw1, p, z1)) (createSubscriberSocket zmq ar nw z)"
| "net_step zmq Turn (nw, p, z) = map_option (\<lambda>(p1, z1, goes). (nw, p1, z1)) (broker_turn zmq nw p z)"

fun net_events :: "'z zmq \<Rightarrow> 'z net_event list \<Rightarrow> 'z networking \<times> 'z poll \<times> 'z \<Rightarrow> ('z networking \<times> 'z poll \<times> 'z) option" where
  "net_events zmq [] st = Some st"
| "net_events zmq (e # es) st = Option.bind (net_step zmq e st) (net_events zmq es)"

text \<open>
  Handlers that throw runtime exceptions only, as their declaration says, when the socket's
  \<open>send\<close> does, as it always does.
\<close>

definition throws_runtime :: "'z socket_send \<Rightarrow> bool" where
  "throws_runtime send \<longleftrightarrow> (\<forall>answer z z1 e. send answer z = (z1, Some e) \<longrightarrow> is_runtime e)"

definition tame :: "'z socket \<Rightarrow> bool" where
  "tame s \<longleftrightarrow> (\<forall>handler. so_messageHandler s = Some handler \<longrightarrow>
     (\<forall>send block z z1 e. throws_runtime send \<longrightarrow> ha_apply handler send block z = (z1, Inl e) \<longrightarrow> is_runtime e))"

lemma async_send_runtime: "throws_runtime (async_send zmq s h)"
  by (auto simp: throws_runtime_def async_send_def split: if_splits prod.splits sum.splits)

lemma serve_defined:
  "\<forall>(s, h, r) \<in> set items. so_messageHandler s \<noteq> None \<and> tame s \<Longrightarrow> \<exists>z1. serve zmq items msg z = Some z1"
proof (induction items arbitrary: msg z)
  case (Cons item items)
  obtain s h r where item: "item = (s, h, r)" by (cases item) auto
  obtain handler where handler: "so_messageHandler s = Some handler" using Cons.prems item by auto
  have tame: "is_runtime e" if "ha_apply handler (async_send zmq s h) t z = (z1, Inl e)" for t z z1 e
    using Cons.prems item handler that async_send_runtime [of zmq s h] unfolding tame_def by auto
  show ?case
    using Cons item handler tame by (auto simp: handle_def split: prod.split sum.split)
qed simp

lemma in_zip3: "(s, h, r) \<in> set (zip ss (zip hs rs)) \<Longrightarrow> s \<in> set ss"
  by (auto dest: set_zip_leftD)

lemma poll_sockets_subset: "poll_ok nw p \<Longrightarrow> set (po_asyncSockets p) \<subseteq> set (async_sockets nw)"
  by (auto simp: poll_ok_def async_sockets_def prefix_def)

lemma broker_turn_running:
  assumes run: "running_ok nw" and poll: "poll_ok nw p" and tame: "\<forall>s \<in> set (async_sockets nw). tame s"
  shows "\<exists>p1 z1 goes. broker_turn zmq nw p z = Some (p1, z1, goes) \<and> poll_ok nw p1 \<and>
    (goes \<longrightarrow> po_asyncSockets p1 = async_sockets nw)"
proof -
  obtain p1 where p1: "refresh nw p = Some p1" "poll_ok nw p1" "po_asyncSockets p1 = async_sockets nw"
    using refresh_running [OF run poll] by auto
  have good: "so_messageHandler s \<noteq> None \<and> tame s" if "s \<in> set (po_asyncSockets p)" for s
    using that poll_sockets_subset [OF poll] run tame
    by (force simp: running_ok_def members_ok_def ready_socket_def)
  have served: "\<exists>z2. serve zmq (zip (po_asyncSockets p) (zip (po_items p) ready)) [] z1 = Some z2" for ready z1
    by (rule serve_defined) (auto dest: in_zip3 good)
  obtain z1 r where r: "zmq_poll zmq (po_items p) z = (z1, r)" by fastforce
  show ?thesis
  proof (cases r)
    case PollError
    with r poll show ?thesis by (auto simp: broker_turn_def)
  next
    case PollTimeout
    with r p1 show ?thesis by (auto simp: broker_turn_def)
  next
    case (PollReady ready)
    with r p1 served [of ready z1] show ?thesis by (auto simp: broker_turn_def)
  qed
qed

lemma poll_ok_grows:
  assumes "poll_ok nw p" "prefix (nw_serverSockets nw) (nw_serverSockets nw1)"
    "prefix (nw_subscriberSockets nw) (nw_subscriberSockets nw1)"
  shows "poll_ok nw1 p"
  using assms by (auto simp: poll_ok_def intro: prefix_order.trans)

definition broker_inv :: "'z networking \<times> 'z poll \<times> 'z \<Rightarrow> bool" where
  "broker_inv st = (case st of (nw, p, z) \<Rightarrow> net_isRunning nw \<and> running_ok nw \<and> poll_ok nw p)"

lemma turn_keeps_poll:
  assumes "broker_turn zmq nw p z = Some (p1, z1, goes)" "running_ok nw" "poll_ok nw p"
  shows "poll_ok nw p1"
  using assms refresh_running [OF assms(2,3)]
  by (auto simp: broker_turn_def split: prod.splits poll_result.splits option.splits)

lemma created_inv:
  assumes inv: "broker_inv (nw, p, z)"
    and made: "registered register nw (create_socket zmq k ar nw z) = Some (nw1, z1, r)"
    and new: "\<And>s. so_kind s = k \<Longrightarrow> ready_socket s \<Longrightarrow>
      (running_ok (register s) \<and> poll_ok (register s) p) \<and> nw_service (register s) = nw_service nw"
  shows "broker_inv (nw1, p, z1)"
proof (cases r)
  case (Inl e)
  with inv made show ?thesis by (auto simp: registered_def broker_inv_def)
next
  case (Inr s)
  then have c: "create_socket zmq k ar nw z = Some (z1, Inr s)" and n: "nw1 = register s"
    using made by (auto simp: registered_def)
  have "net_isRunning nw" using inv by (simp add: broker_inv_def)
  with new [of s] create_socket_ok [OF c] n show ?thesis by (auto simp: broker_inv_def)
qed

lemma registers_ok:
  assumes "broker_inv (nw, p, z)" "ready_socket s" "nw_sockets nw1 = nw_sockets nw @ [s]"
    "nw_serverSockets nw1 = nw_serverSockets nw @ (if so_kind s = ServerKind then [s] else [])"
    "nw_subscriberSockets nw1 = nw_subscriberSockets nw @ (if so_kind s = SubscriberKind then [s] else [])"
  shows "running_ok nw1 \<and> poll_ok nw1 p"
proof
  have "poll_ok nw p" using assms(1) by (simp add: broker_inv_def)
  then show "poll_ok nw1 p" by (rule poll_ok_grows) (simp_all only: assms(4,5) prefixI)
  have ok: "running_ok nw" using assms(1) by (simp add: broker_inv_def)
  have "set (async_sockets nw1) \<subseteq> set (async_sockets nw) \<union> {x. x = s \<and> so_kind s \<in> {ServerKind, SubscriberKind}}"
    using assms(4,5) by (auto simp: async_sockets_def)
  with ok assms(2,3) show "running_ok nw1" unfolding running_ok_def members_ok_def by fastforce
qed

lemma net_step_inv:
  assumes step: "net_step zmq e (nw, p, z) = Some st1" and inv: "broker_inv (nw, p, z)"
  shows "broker_inv st1"
proof (cases e)
  case (CreateServer ar)
  then obtain nw1 z1 r where c: "createServerSocket zmq ar nw z = Some (nw1, z1, r)" and st1: "st1 = (nw1, p, z1)"
    using step by auto
  show ?thesis unfolding st1
    by (rule created_inv [OF inv c [unfolded createServerSocket_def]], rule conjI, rule registers_ok [OF inv]) auto
next
  case (CreateClient ar)
  then obtain nw1 z1 r where c: "createClientSocket zmq ar nw z = Some (nw1, z1, r)" and st1: "st1 = (nw1, p, z1)"
    using step by auto
  show ?thesis unfolding st1
    by (rule created_inv [OF inv c [unfolded createClientSocket_def]], rule conjI, rule registers_ok [OF inv]) auto
next
  case (CreatePublisher ar)
  then obtain nw1 z1 r where c: "createPublisherSocket zmq ar nw z = Some (nw1, z1, r)" and st1: "st1 = (nw1, p, z1)"
    using step by auto
  show ?thesis unfolding st1
    by (rule created_inv [OF inv c [unfolded createPublisherSocket_def]], rule conjI, rule registers_ok [OF inv]) auto
next
  case (CreateSubscriber ar)
  then obtain nw1 z1 r where c: "createSubscriberSocket zmq ar nw z = Some (nw1, z1, r)" and st1: "st1 = (nw1, p, z1)"
    using step by auto
  show ?thesis unfolding st1
    by (rule created_inv [OF inv c [unfolded createSubscriberSocket_def]], rule conjI, rule registers_ok [OF inv]) auto
next
  case Turn
  with step inv show ?thesis by (auto simp: broker_inv_def dest: turn_keeps_poll)
qed

lemma net_events_inv: "net_events zmq es st = Some st1 \<Longrightarrow> broker_inv st \<Longrightarrow> broker_inv st1"
  by (induction es arbitrary: st) (auto simp: bind_eq_Some_conv dest: net_step_inv)

definition started :: "'z networking \<Rightarrow> 'z networking" where
  "started nw = nw\<lparr>nw_service := (nw_service nw)\<lparr>s_flags := statusRunning (s_flags (nw_service nw))\<rparr>\<rparr>"

lemma started_fields [simp]:
  "nw_sockets (started nw) = nw_sockets nw" "nw_serverSockets (started nw) = nw_serverSockets nw"
  "nw_subscriberSockets (started nw) = nw_subscriberSockets nw"
  by (simp_all add: started_def)

lemma statusRunning_runs: "AppCore.isRunning (statusRunning f)"
proof -
  have "(deactivate Starting f OR Running) AND Running = Running"
    by (simp add: bit_eq_iff bit_simps)
  then show ?thesis by (simp add: statusRunning_def activate_def AppCore.isRunning_def Running_def)
qed

lemma broker_started:
  assumes "net_do_initialize zmq nw z = Some (z0, Inr ())" "members_ok nw"
  shows "\<exists>p. broker_start (started nw) =
      Some ((started nw)\<lparr>nw_service := notifyEffectiveRunning (nw_service (started nw))\<rparr>, p) \<and>
    broker_inv ((started nw)\<lparr>nw_service := notifyEffectiveRunning (nw_service (started nw))\<rparr>, p, z0)"
proof -
  let ?nw = "started nw"
  let ?nw1 = "?nw\<lparr>nw_service := notifyEffectiveRunning (nw_service ?nw)\<rparr>"
  have run: "running_ok ?nw"
    using assms initialize_all_ok [of zmq "nw_sockets nw" z z0 "()"]
    by (simp add: running_ok_def members_ok_def async_sockets_def net_do_initialize_def)
  then obtain p where p: "poll_new ?nw = Some p" "poll_ok ?nw p" using poll_new_running by blast
  have "running_ok ?nw1" using run by (simp add: running_ok_def members_ok_def async_sockets_def)
  moreover have "poll_ok ?nw1 p" using p(2) by (simp add: poll_ok_def)
  moreover have "net_isRunning ?nw1"
    by (simp add: started_def notifyEffectiveRunning_def statusRunning_runs)
  ultimately show ?thesis using p(1) by (simp add: broker_start_def broker_inv_def)
qed


text \<open>
  An invalid socket never gets that far on a running service: its initialization throws, and
  the destructor of the new socket dereferences the null pointer.
\<close>

theorem invalid_server_undefined:
  assumes "zmq_socket zmq (zmq_type zmq ServerKind) z = (z1, Inl e)" "net_isRunning nw"
  shows "createServerSocket zmq ar nw z = None"
proof -
  obtain s where s: "socket_new zmq ServerKind ar z = (z1, s)" "so_zmq s = None"
    using assms(1) by (auto simp: socket_new_def Let_def)
  have "socket_initialize zmq s z1 \<noteq> Some (z2, Inr u)" for z2 u
    using socket_initialize_ok [of zmq s z1 z2 u] s(2) by (auto simp: ready_socket_def isValid_def)
  with s assms(2) show ?thesis
    by (auto simp: createServerSocket_def registered_def create_socket_def socket_delete_def
        split: option.split prod.split sum.split)
qed

section \<open>ZeroMQ as it is documented\<close>

text \<open>
  What the broker needs of the reply sockets of ZeroMQ: \<open>inbox\<close> and \<open>outbox\<close> are the messages a
  socket has received and not read, and sent; \<open>owes\<close> says that it has read a request and not
  answered it.  Such a socket can only send when it owes an answer and only receive when it
  owes none.
\<close>

definition reply_sockets ::
    "'z zmq \<Rightarrow> ('z \<Rightarrow> nat \<Rightarrow> string list) \<Rightarrow> ('z \<Rightarrow> nat \<Rightarrow> string list) \<Rightarrow> ('z \<Rightarrow> nat \<Rightarrow> bool) \<Rightarrow> bool" where
  "reply_sockets zmq inbox outbox owes \<longleftrightarrow>
     (\<forall>hs z. \<exists>z1. zmq_poll zmq hs z =
          (z1, if \<forall>h \<in> set hs. inbox z h = [] \<or> owes z h then PollTimeout
               else PollReady (map (\<lambda>h. inbox z h \<noteq> [] \<and> \<not> owes z h) hs)) \<and>
        inbox z1 = inbox z \<and> outbox z1 = outbox z \<and> owes z1 = owes z) \<and>
     (\<forall>h msg z. inbox z h \<noteq> [] \<and> \<not> owes z h \<longrightarrow>
        (\<exists>z1. zmq_recv zmq h msg z = (z1, Inr (True, hd (inbox z h))) \<and>
           inbox z1 = (inbox z)(h := tl (inbox z h)) \<and> outbox z1 = outbox z \<and> owes z1 = (owes z)(h := True))) \<and>
     (\<forall>h answer z. owes z h \<longrightarrow>
        (\<exists>z1. zmq_send zmq h False answer z = (z1, Inr True) \<and>
           inbox z1 = inbox z \<and> outbox z1 = (outbox z)(h := outbox z h @ [answer]) \<and> owes z1 = (owes z)(h := False)))"

section \<open>HTTP services over the broker\<close>

text \<open>
  The handler of an HTTP service reads the servlets from the service at the time it is called,
  hence from the world.
\<close>

definition http_handler :: "('z \<Rightarrow> http_service) \<Rightarrow> 'z message_handler" where
  "http_handler service =
     \<lparr>ha_name = ''HttpRequestHandler'', ha_apply = (\<lambda>send block z. handler_apply send (service z) block z)\<rparr>"

definition http_createServer ::
    "'z zmq \<Rightarrow> ('z \<Rightarrow> http_service) \<Rightarrow> url \<Rightarrow> 'z networking \<Rightarrow> 'z \<Rightarrow> ('z networking \<times> 'z \<times> unit outcome) option" where
  "http_createServer zmq service u nw z =
     (case calculateEndPoint u of
        Inl e \<Rightarrow> Some (nw, z, Inl e)
      | Inr endPoint \<Rightarrow>
          map_option (\<lambda>(nw1, z1, r). (nw1, z1, case r of Inl e \<Rightarrow> Inl e | Inr s \<Rightarrow> Inr ()))
            (createServerSocket zmq
               (arguments_addEndPoint endPoint (setMessageHandler (Some (http_handler service)) arguments_new)) nw z))"

definition http_createClient ::
    "'z zmq \<Rightarrow> url \<Rightarrow> 'z networking \<Rightarrow> 'z \<Rightarrow> ('z networking \<times> 'z \<times> 'z socket outcome) option" where
  "http_createClient zmq u nw z =
     (case calculateEndPoint u of
        Inl e \<Rightarrow> Some (nw, z, Inl e)
      | Inr endPoint \<Rightarrow> createClientSocket zmq (arguments_addEndPoint endPoint arguments_new) nw z)"

text \<open>The bytes of the answer a service owes.\<close>

definition answer_bytes :: "http_service \<Rightarrow> string \<Rightarrow> string" where
  "answer_bytes service block = (case encoder_apply (http_answer service block) of Inl e \<Rightarrow> [] | Inr (bytes, m) \<Rightarrow> bytes)"

definition http_socket :: "('z \<Rightarrow> http_service) \<Rightarrow> 'z socket \<Rightarrow> bool" where
  "http_socket service s \<longleftrightarrow> so_kind s = ServerKind \<and> so_messageHandler s = Some (http_handler service)"

lemma reply_poll:
  assumes "reply_sockets zmq inbox outbox owes"
  shows "\<exists>z1. zmq_poll zmq hs z =
      (z1, if \<forall>h \<in> set hs. inbox z h = [] \<or> owes z h then PollTimeout
           else PollReady (map (\<lambda>h. inbox z h \<noteq> [] \<and> \<not> owes z h) hs)) \<and>
    inbox z1 = inbox z \<and> outbox z1 = outbox z \<and> owes z1 = owes z"
  using assms unfolding reply_sockets_def by blast

lemma reply_recv:
  assumes "reply_sockets zmq inbox outbox owes" "inbox z h \<noteq> []" "\<not> owes z h"
  shows "\<exists>z1. zmq_recv zmq h msg z = (z1, Inr (True, hd (inbox z h))) \<and>
    inbox z1 = (inbox z)(h := tl (inbox z h)) \<and> outbox z1 = outbox z \<and> owes z1 = (owes z)(h := True)"
  using assms unfolding reply_sockets_def by blast

lemma reply_send:
  assumes "reply_sockets zmq inbox outbox owes" "owes z h"
  shows "\<exists>z1. zmq_send zmq h False answer z = (z1, Inr True) \<and>
    inbox z1 = inbox z \<and> outbox z1 = (outbox z)(h := outbox z h @ [answer]) \<and> owes z1 = (owes z)(h := False)"
  using assms unfolding reply_sockets_def by blast

text \<open>One request: it is read, answered, and the socket owes nothing any more.\<close>

lemma serve_one:
  assumes zmq: "reply_sockets zmq inbox outbox owes"
    and s: "http_socket (\<lambda>_. sv) s" "good_servlets sv" "\<not> owes z h" "servable (hd (inbox z h))"
    and ready: "inbox z h \<noteq> []"
  shows "\<exists>z2 msg2. serve zmq ((s, h, True) # items) msg z = serve zmq items msg2 z2 \<and> owes z2 = owes z \<and>
    inbox z2 = (inbox z)(h := tl (inbox z h)) \<and>
    outbox z2 = (outbox z)(h := outbox z h @ [answer_bytes sv (hd (inbox z h))])"
proof -
  let ?block = "hd (inbox z h)"
  obtain z1 where r: "zmq_recv zmq h msg z = (z1, Inr (True, ?block))"
    "inbox z1 = (inbox z)(h := tl (inbox z h))" "outbox z1 = outbox z" "owes z1 = (owes z)(h := True)"
    using reply_recv [OF zmq ready s(3)] by blast
  obtain bytes m1 where e: "encoder_apply (http_answer sv ?block) = Inr (bytes, m1)"
    using answer_encodes [OF s(2), of ?block] by (auto simp: is_ok_iff)
  then have bytes: "bytes = answer_bytes sv ?block" by (simp add: answer_bytes_def)
  obtain z2 where w: "zmq_send zmq h False bytes z1 = (z2, Inr True)" "inbox z2 = inbox z1"
    "outbox z2 = (outbox z1)(h := outbox z1 h @ [bytes])" "owes z2 = (owes z1)(h := False)"
    using reply_send [OF zmq, of z1 h bytes] r(4) by auto
  have "async_send zmq s h bytes z1 = (z2, None)"
    using w(1) s(1) by (simp add: async_send_def http_socket_def)
  from handler_sends_answer [OF s(2,4) e, where send = "async_send zmq s h", OF this]
  have "handle zmq s h ?block z1 = Some (z2, Inr ())"
    using s(1) by (simp add: handle_def http_socket_def http_handler_def)
  with r w s(3) bytes show ?thesis
    by (intro exI [of _ z2] exI [of _ ?block]) (auto simp: fun_eq_iff)
qed

text \<open>The first \<open>n\<close> requests of the sockets \<open>hs\<close> have been answered.\<close>

definition answered ::
    "('z \<Rightarrow> nat \<Rightarrow> string list) \<Rightarrow> ('z \<Rightarrow> nat \<Rightarrow> string list) \<Rightarrow> ('z \<Rightarrow> nat \<Rightarrow> bool) \<Rightarrow> (nat \<Rightarrow> http_service) \<Rightarrow>
     nat set \<Rightarrow> nat \<Rightarrow> 'z \<Rightarrow> 'z \<Rightarrow> bool" where
  "answered inbox outbox owes sv hs n z z1 \<longleftrightarrow> owes z1 = owes z \<and>
     (\<forall>h. inbox z1 h = (if h \<in> hs then drop n (inbox z h) else inbox z h) \<and>
          outbox z1 h = outbox z h @ (if h \<in> hs then map (answer_bytes (sv h)) (take n (inbox z h)) else []))"

definition waiting :: "('z \<Rightarrow> nat \<Rightarrow> string list) \<Rightarrow> ('z \<Rightarrow> nat \<Rightarrow> bool) \<Rightarrow> (nat \<Rightarrow> http_service) \<Rightarrow> ('z socket \<times> nat) list \<Rightarrow> 'z \<Rightarrow> bool" where
  "waiting inbox owes sv ps z \<longleftrightarrow> distinct (map snd ps) \<and>
     (\<forall>(s, h) \<in> set ps. http_socket (\<lambda>_. sv h) s \<and> good_servlets (sv h) \<and> \<not> owes z h \<and>
        (\<forall>block \<in> set (inbox z h). servable block))"

lemma waiting_same:
  assumes w: "waiting inbox owes sv ps z"
    and same: "\<And>s h. (s, h) \<in> set ps \<Longrightarrow> inbox z2 h = inbox z h \<and> owes z2 h = owes z h"
  shows "waiting inbox owes sv ps z2"
proof -
  have "http_socket (\<lambda>_. sv h) s \<and> good_servlets (sv h) \<and> \<not> owes z2 h \<and> (\<forall>block \<in> set (inbox z2 h). servable block)"
    if p: "(s, h) \<in> set ps" for s h
    using w p same [OF p] by (auto simp: waiting_def)
  with w show ?thesis by (auto simp: waiting_def)
qed

lemma serve_all:
  assumes zmq: "reply_sockets zmq inbox outbox owes"
  shows "waiting inbox owes sv ps z \<Longrightarrow>
    \<exists>z1. serve zmq (map (\<lambda>(s, h). (s, h, inbox z h \<noteq> [])) ps) msg z = Some z1 \<and>
      answered inbox outbox owes sv (snd ` set ps) 1 z z1"
proof (induction ps arbitrary: msg z)
  case Nil
  then show ?case by (simp add: answered_def)
next
  case (Cons p ps)
  obtain s h where p: "p = (s, h)" by (cases p) auto
  have tail: "waiting inbox owes sv ps z" and h: "h \<notin> snd ` set ps"
    and s: "http_socket (\<lambda>_. sv h) s" "good_servlets (sv h)" "\<not> owes z h" "\<forall>block \<in> set (inbox z h). servable block"
    using Cons.prems p by (auto simp: waiting_def)
  show ?case
  proof (cases "inbox z h = []")
    case True
    with Cons.IH [OF tail, of msg] p show ?thesis
      by (fastforce simp: answered_def)
  next
    case False
    then have block: "servable (hd (inbox z h))" using s(4) by simp
    from serve_one [OF zmq s(1,2,3) block False,
        of "map (\<lambda>(s, h). (s, h, inbox z h \<noteq> [])) ps" msg]
    obtain z2 msg2 where one:
        "serve zmq ((s, h, True) # map (\<lambda>(s, h). (s, h, inbox z h \<noteq> [])) ps) msg z =
           serve zmq (map (\<lambda>(s, h). (s, h, inbox z h \<noteq> [])) ps) msg2 z2"
        "owes z2 = owes z" "inbox z2 = (inbox z)(h := tl (inbox z h))"
        "outbox z2 = (outbox z)(h := outbox z h @ [answer_bytes (sv h) (hd (inbox z h))])"
      by blast
    have other: "k \<noteq> h" if "(t, k) \<in> set ps" for t k using h that by force
    have same: "map (\<lambda>(s, h). (s, h, inbox z h \<noteq> [])) ps = map (\<lambda>(s, h). (s, h, inbox z2 h \<noteq> [])) ps"
      by (rule map_cong) (use other one(3) in auto)
    have "waiting inbox owes sv ps z2"
      by (rule waiting_same [OF tail]) (use other one(2,3) in auto)
    from Cons.IH [OF this, of msg2] obtain z3 where z3:
        "serve zmq (map (\<lambda>(s, h). (s, h, inbox z2 h \<noteq> [])) ps) msg2 z2 = Some z3"
        "answered inbox outbox owes sv (snd ` set ps) 1 z2 z3" by blast
    have "answered inbox outbox owes sv (snd ` set (p # ps)) 1 z z3"
      using z3(2) one(2,3,4) h p False by (auto simp: answered_def drop_Suc take_Suc)
    moreover have "serve zmq (map (\<lambda>(s, h). (s, h, inbox z h \<noteq> [])) (p # ps)) msg z = Some z3"
      using one(1) z3(1) unfolding same [symmetric] p by (simp add: False del: serve.simps)
    ultimately show ?thesis by blast
  qed
qed

lemma zip_ready:
  "length ss = length hs \<Longrightarrow> zip ss (zip hs (map f hs)) = map (\<lambda>(s, h). (s, h, f h)) (zip ss hs)"
  by (induction ss hs rule: list_induct2) simp_all

lemma snd_zip: "length ss = length hs \<Longrightarrow> snd ` set (zip ss hs) = set hs"
  by (metis list.set_map map_snd_zip)

lemma take_later: "map f (take (Suc 0) xs) @ map f (take n (tl xs)) = map f (take (Suc n) xs)"
  by (cases xs) simp_all

lemma answered_later:
  assumes "answered inbox outbox owes sv hs 1 z z1" "answered inbox outbox owes sv hs n z1 z2"
  shows "answered inbox outbox owes sv hs (Suc n) z z2"
  using assms take_later by (auto simp: answered_def drop_Suc)

lemma waiting_answered:
  assumes "waiting inbox owes sv ps z" "answered inbox outbox owes sv hs n z z1"
  shows "waiting inbox owes sv ps z1"
proof -
  have "set (inbox z1 h) \<subseteq> set (inbox z h)" "owes z1 h = owes z h" for h
    using assms(2) set_drop_subset [of n "inbox z h"] by (auto simp: answered_def)
  with assms(1) show ?thesis unfolding waiting_def by fast
qed

lemma turn_answers:
  assumes zmq: "reply_sockets zmq inbox outbox owes"
    and w: "waiting inbox owes sv (zip (po_asyncSockets p) (po_items p)) z"
    and len: "length (po_asyncSockets p) = length (po_items p)" and now: "\<not> isOutdated nw p"
  shows "\<exists>z1. broker_turn zmq nw p z = Some (p, z1, True) \<and>
    answered inbox outbox owes sv (set (po_items p)) 1 z z1"
proof -
  let ?ps = "zip (po_asyncSockets p) (po_items p)"
  have idle: "\<not> owes z h" if h: "h \<in> set (po_items p)" for h
  proof -
    obtain s where "(s, h) \<in> set ?ps" using h snd_zip [OF len] by force
    with w show ?thesis by (auto simp: waiting_def)
  qed
  obtain z1 where poll: "zmq_poll zmq (po_items p) z =
        (z1, if \<forall>h \<in> set (po_items p). inbox z h = [] \<or> owes z h then PollTimeout
             else PollReady (map (\<lambda>h. inbox z h \<noteq> [] \<and> \<not> owes z h) (po_items p)))"
    and same: "inbox z1 = inbox z" "outbox z1 = outbox z" "owes z1 = owes z"
    using reply_poll [OF zmq] by blast
  show ?thesis
  proof (cases "\<forall>h \<in> set (po_items p). inbox z h = []")
    case True
    with poll have "zmq_poll zmq (po_items p) z = (z1, PollTimeout)" by simp
    then have "broker_turn zmq nw p z = Some (p, z1, True)" using now by (simp add: broker_turn_def refresh_def)
    moreover have "answered inbox outbox owes sv (set (po_items p)) 1 z z1"
      using same True by (simp add: answered_def)
    ultimately show ?thesis by blast
  next
    case False
    have "map (\<lambda>h. inbox z h \<noteq> [] \<and> \<not> owes z h) (po_items p) = map (\<lambda>h. inbox z1 h \<noteq> []) (po_items p)"
      using idle same(1) by simp
    moreover have "\<not> (\<forall>h \<in> set (po_items p). inbox z h = [] \<or> owes z h)" using False idle by blast
    ultimately have ready: "zmq_poll zmq (po_items p) z = (z1, PollReady (map (\<lambda>h. inbox z1 h \<noteq> []) (po_items p)))"
      using poll by simp
    have "waiting inbox owes sv ?ps z1" by (rule waiting_same [OF w]) (simp add: same)
    from serve_all [OF zmq this, of "[]"] obtain z2 where z2:
        "serve zmq (map (\<lambda>(s, h). (s, h, inbox z1 h \<noteq> [])) ?ps) [] z1 = Some z2"
        "answered inbox outbox owes sv (snd ` set ?ps) 1 z1 z2" by blast
    have "broker_turn zmq nw p z = Some (p, z2, True)"
      using ready z2(1) now by (simp add: broker_turn_def refresh_def zip_ready [OF len])
    moreover have "answered inbox outbox owes sv (set (po_items p)) 1 z z2"
      using z2(2) same snd_zip [OF len] by (simp add: answered_def)
    ultimately show ?thesis by blast
  qed
qed

lemma turns_answer:
  assumes zmq: "reply_sockets zmq inbox outbox owes" and run: "net_isRunning nw"
    and len: "length (po_asyncSockets p) = length (po_items p)" and now: "\<not> isOutdated nw p"
  shows "waiting inbox owes sv (zip (po_asyncSockets p) (po_items p)) z \<Longrightarrow>
    \<exists>z1. broker_turns n zmq nw p z = Some (p, z1, True) \<and>
      answered inbox outbox owes sv (set (po_items p)) n z z1"
proof (induction n arbitrary: z)
  case 0
  then show ?case by (simp add: answered_def)
next
  case (Suc n)
  obtain z1 where z1: "broker_turn zmq nw p z = Some (p, z1, True)"
      "answered inbox outbox owes sv (set (po_items p)) 1 z z1"
    using turn_answers [OF zmq Suc.prems len now] by blast
  obtain z2 where z2: "broker_turns n zmq nw p z1 = Some (p, z2, True)"
      "answered inbox outbox owes sv (set (po_items p)) n z1 z2"
    using Suc.IH [OF waiting_answered [OF Suc.prems z1(2)]] by blast
  from answered_later [OF z1(2) z2(2)] z1(1) z2(1) run show ?case by auto
qed


section \<open>A ZeroMQ to evaluate with\<close>

record loop_world =
  lw_inbox :: "nat \<Rightarrow> string list"
  lw_outbox :: "nat \<Rightarrow> string list"
  lw_owes :: "nat \<Rightarrow> bool"
  lw_next :: nat

definition loopback :: "loop_world zmq" where
  "loopback = \<lparr>zmq_type = (\<lambda>k. 4), zmq_socket = (\<lambda>t w. (w\<lparr>lw_next := lw_next w + 1\<rparr>, Inr (lw_next w))),
     zmq_close = (\<lambda>h w. w), zmq_bind = (\<lambda>h ep w. (w, None)), zmq_unbind = (\<lambda>h ep w. (w, None)),
     zmq_connect = (\<lambda>h ep w. (w, None)), zmq_disconnect = (\<lambda>h ep w. (w, None)),
     zmq_setsockopt = (\<lambda>h opt w. (w, None)),
     zmq_send = (\<lambda>h dontwait answer w.
        if lw_owes w h
        then (w\<lparr>lw_outbox := (lw_outbox w)(h := lw_outbox w h @ [answer]), lw_owes := (lw_owes w)(h := False)\<rparr>, Inr True)
        else (w, Inl ''Operation cannot be accomplished in current state'')),
     zmq_recv = (\<lambda>h msg w.
        if lw_inbox w h \<noteq> [] \<and> \<not> lw_owes w h
        then (w\<lparr>lw_inbox := (lw_inbox w)(h := tl (lw_inbox w h)), lw_owes := (lw_owes w)(h := True)\<rparr>,
              Inr (True, hd (lw_inbox w h)))
        else (w, Inr (False, msg))),
     zmq_connected = (\<lambda>h w. True),
     zmq_poll = (\<lambda>hs w. (w, if \<forall>h \<in> set hs. lw_inbox w h = [] \<or> lw_owes w h then PollTimeout
        else PollReady (map (\<lambda>h. lw_inbox w h \<noteq> [] \<and> \<not> lw_owes w h) hs)))\<rparr>"

lemma loopback_replies: "reply_sockets loopback lw_inbox lw_outbox lw_owes"
  by (simp add: reply_sockets_def loopback_def)

definition loop_empty :: loop_world where
  "loop_empty = \<lparr>lw_inbox = (\<lambda>h. []), lw_outbox = (\<lambda>h. []), lw_owes = (\<lambda>h. False), lw_next = 0\<rparr>"

definition sample_server :: "loop_world socket" where
  "sample_server = snd (socket_new loopback ServerKind (arguments_addEndPoint ''tcp://*:80''
     (setMessageHandler (Some (http_handler (\<lambda>_. http_service_new))) arguments_new)) loop_empty)"

definition sample_networking :: "loop_world networking" where
  "sample_networking = networking_new\<lparr>nw_sockets := [sample_server], nw_serverSockets := [sample_server]\<rparr>"

lemma sample_server_fields [simp]:
  "so_kind sample_server = ServerKind" "so_zmq sample_server = Some 0"
  "so_messageHandler sample_server = Some (http_handler (\<lambda>_. http_service_new))"
  "so_endPoints sample_server = [''tcp://*:80'']"
  by (simp_all add: sample_server_def socket_new_def loopback_def loop_empty_def arguments_new_def
      arguments_addEndPoint_def setMessageHandler_def Let_def)

lemma sample_lists [simp]:
  "nw_sockets sample_networking = [sample_server]" "nw_serverSockets sample_networking = [sample_server]"
  "nw_subscriberSockets sample_networking = []"
  by (simp_all add: sample_networking_def networking_new_def)

lemma send_message_runtime:
  assumes "throws_runtime send" "is_ok (encoder_apply m)" "send_message send m z = (z1, Inl e)"
  shows "is_runtime e"
  using assms by (auto simp: send_message_def throws_runtime_def is_ok_iff split: prod.splits option.splits)

lemma response_ok: "is_ok (encoder_apply (response_instantiate a b st d))"
  using response_encodes [of a b st d] by (auto simp: is_ok_iff)

lemma getPath_runtime: "getPath u = Inl e \<Longrightarrow> is_runtime e"
  by (auto simp: getPath_def getComponent_def split: option.splits)

lemma http_handler_tame:
  fixes s :: "'z socket"
  assumes good: "good_servlets sv" and s: "so_messageHandler s = Some (http_handler (\<lambda>_. sv))"
  shows "tame s"
proof -
  have "is_runtime e" if send: "throws_runtime send" and h: "handler_apply send sv block z = (z1, Inl e)"
    for send :: "'z socket_send" and block z z1 e
  proof -
    have answered: "is_runtime e'" if "send_message send m z' = (z1', Inl e')" "is_ok (encoder_apply m)" for m z' z1' e'
      using send_message_runtime [OF send that(2,1)] .
    have r: "is_ok (encoder_apply x)" if "findServlet path sv = Inr servlet" "servlet m = Inr x" for path servlet m x
      using good [unfolded good_servlets_def, rule_format, OF that(1), of m] that(2) by simp
    have g: "is_runtime x" if "findServlet path sv = Inr servlet" "servlet m = Inl x" for path servlet m x
      using good [unfolded good_servlets_def, rule_format, OF that(1), of m] that(2) by simp
    show ?thesis
      using h unfolding handler_apply_def
      by (auto split: sum.splits http_kind.splits if_splits prod.splits
          dest: decoder_error getPath_runtime findServlet_error g answered [OF _ response_ok] answered [OF _ r])
  qed
  with s show ?thesis by (simp add: tame_def http_handler_def)
qed


definition sample_requests :: loop_world where
  "sample_requests = loop_empty\<lparr>lw_inbox := (\<lambda>h. if h = 0 then [''junk'', ''junk''] else [])\<rparr>"


end
