(* ===== verification/Sqlite.thy ===== *)
theory Sqlite
  imports DbmsOrder DbmsWork
begin

text \<open>
  \<open>dbms.sqlite\<close>: the driver on SQLite.  The library is not part of the sources: its calls are
  the fields of \<open>sqlite\<close>, over a state \<open>'s\<close> of its own.  A handle of a connection or a
  statement is a number; \<open>None\<close> is a null pointer.  The objects of the driver are in
  \<open>sqlite_world\<close>, the state of the record \<open>driver\<close>: the connection's handle, the part of each
  statement that \<open>SqliteStatement\<close> adds to it, by the statement's name, and the values.
  \<open>sw_crashed\<close> records undefined behaviour; what a call returns then means nothing.
\<close>

section \<open>The library\<close>

datatype sqlite_code =
    SQLITE_OK | SQLITE_LOCKED | SQLITE_NOTFOUND | SQLITE_CORRUPT | SQLITE_NOTADB | SQLITE_ROW | SQLITE_DONE
  | SQLITE_NULL

datatype sqlite_value =
    SqlNull
  | SqlInt cint
  | SqlText string
  | SqlDouble "32 word"
  | SqlBlob string
  | SqlInt64 clong

record 's sqlite =
  sq_code :: "sqlite_code \<Rightarrow> cint"
  sq_open :: "string \<Rightarrow> 's \<Rightarrow> 's \<times> cint \<times> nat option"
  sq_close :: "nat \<Rightarrow> 's \<Rightarrow> 's"
  sq_exec :: "nat option \<Rightarrow> string \<Rightarrow> 's \<Rightarrow> 's \<times> cint \<times> string option"
  sq_errmsg :: "nat option \<Rightarrow> 's \<Rightarrow> string"
  sq_prepare :: "nat option \<Rightarrow> string \<Rightarrow> 's \<Rightarrow> 's \<times> cint \<times> nat option"
  sq_bind_parameter_count :: "nat option \<Rightarrow> 's \<Rightarrow> cint"
  sq_column_count :: "nat option \<Rightarrow> 's \<Rightarrow> cint"
  sq_bind :: "nat option \<Rightarrow> cint \<Rightarrow> sqlite_value \<Rightarrow> 's \<Rightarrow> 's \<times> cint"
  sq_reset :: "nat option \<Rightarrow> 's \<Rightarrow> 's \<times> cint"
  sq_step :: "nat option \<Rightarrow> 's \<Rightarrow> 's \<times> cint"
  sq_finalize :: "nat \<Rightarrow> 's \<Rightarrow> 's"
  sq_column_type :: "nat option \<Rightarrow> nat \<Rightarrow> 's \<Rightarrow> cint"
  sq_column_int :: "nat option \<Rightarrow> nat \<Rightarrow> 's \<Rightarrow> cint"
  sq_column_text :: "nat option \<Rightarrow> nat \<Rightarrow> 's \<Rightarrow> string"
  sq_column_double :: "nat option \<Rightarrow> nat \<Rightarrow> 's \<Rightarrow> 32 word"
  sq_column_blob :: "nat option \<Rightarrow> nat \<Rightarrow> 's \<Rightarrow> string"
  sq_column_int64 :: "nat option \<Rightarrow> nat \<Rightarrow> 's \<Rightarrow> clong"

text \<open>\<open>owner\<close> is the connection a statement was prepared on.\<close>

record sqlite_statement =
  ss_impl :: "nat option"
  ss_owner :: "nat option"
  ss_fetchIsDone :: bool

record 's sqlite_world =
  sw_self :: nat
  sw_database :: string
  sw_impl :: "nat option"
  sw_statement :: "string \<Rightarrow> sqlite_statement"
  sw_heap :: heap
  sw_crashed :: bool
  sw_lib :: 's

definition undefined_behaviour :: "'s sqlite_world \<Rightarrow> 's sqlite_world \<times> 'a outcome" where
  "undefined_behaviour w = (w\<lparr>sw_crashed := True\<rparr>, Inl (DatabaseException []))"

definition sqlite_interpreter :: "'s sqlite \<Rightarrow> interpreter" where
  "sqlite_interpreter sq =
     \<lparr>eci_notFound = (\<lambda>c. c = sq_code sq SQLITE_NOTFOUND), eci_successful = (\<lambda>c. c = sq_code sq SQLITE_OK),
      eci_locked = (\<lambda>c. c = sq_code sq SQLITE_LOCKED),
      eci_lostConnection = (\<lambda>c. c = sq_code sq SQLITE_NOTADB \<or> c = sq_code sq SQLITE_CORRUPT)\<rparr>"

section \<open>The connection\<close>

definition sqlite_close :: "'s sqlite \<Rightarrow> 's sqlite_world \<Rightarrow> 's sqlite_world" where
  "sqlite_close sq w =
     (case sw_impl w of
        None \<Rightarrow> w
      | Some h \<Rightarrow> w\<lparr>sw_lib := sq_close sq h (sw_lib w), sw_impl := None\<rparr>)"

definition sqlite_open :: "'s sqlite \<Rightarrow> 's sqlite_world \<Rightarrow> 's sqlite_world \<times> unit outcome" where
  "sqlite_open sq w =
     (case sq_open sq (c_str (sw_database w)) (sw_lib w) of
        (s, rc, h) \<Rightarrow>
          (let w1 = w\<lparr>sw_lib := s, sw_impl := h\<rparr>
           in if rc \<noteq> sq_code sq SQLITE_OK then (sqlite_close sq w1, Inl (DatabaseException [])) else (w1, Inr ())))"

text \<open>The text of a result code is built from the message, which must not be null.\<close>

definition sqlite_exec :: "'s sqlite \<Rightarrow> string \<Rightarrow> 's sqlite_world \<Rightarrow> 's sqlite_world \<times> unit outcome" where
  "sqlite_exec sq sql w =
     (case sq_exec sq (sw_impl w) sql (sw_lib w) of
        (s, rc, errorMessage) \<Rightarrow>
          (let w1 = w\<lparr>sw_lib := s\<rparr>
           in if rc = sq_code sq SQLITE_OK then (w1, Inr ())
              else case errorMessage of
                     None \<Rightarrow> undefined_behaviour w1
                   | Some msg \<Rightarrow> (w1, Inl (DatabaseException msg))))"

definition sqlite_beginTransaction :: "'s sqlite \<Rightarrow> 's sqlite_world \<Rightarrow> 's sqlite_world \<times> bool outcome" where
  "sqlite_beginTransaction sq w =
     (case sqlite_exec sq ''BEGIN TRANSACTION;'' w of (w1, Inl e) \<Rightarrow> (w1, Inl e) | (w1, Inr u) \<Rightarrow> (w1, Inr True))"

definition sqlite_commit :: "'s sqlite \<Rightarrow> 's sqlite_world \<Rightarrow> 's sqlite_world \<times> unit outcome" where
  "sqlite_commit sq w = sqlite_exec sq ''COMMIT;'' w"

definition sqlite_rollback :: "'s sqlite \<Rightarrow> 's sqlite_world \<Rightarrow> 's sqlite_world" where
  "sqlite_rollback sq w = fst (sqlite_exec sq ''ROLLBACK'' w)"

section \<open>Statements\<close>

definition sqlite_statement_new :: sqlite_statement where
  "sqlite_statement_new = \<lparr>ss_impl = None, ss_owner = None, ss_fetchIsDone = False\<rparr>"

definition isASelect :: "statement \<Rightarrow> bool" where
  "isASelect st = (find_str (map tolower (st_expression st)) ''select'' 0 \<noteq> None)"

definition impl_of :: "statement \<Rightarrow> 's sqlite_world \<Rightarrow> nat option" where
  "impl_of st w = ss_impl (sw_statement w (st_name st))"

definition set_impl :: "statement \<Rightarrow> nat option \<Rightarrow> 's sqlite_world \<Rightarrow> 's sqlite_world" where
  "set_impl st h w = w\<lparr>sw_statement := (sw_statement w)(st_name st := (sw_statement w (st_name st))\<lparr>ss_impl := h\<rparr>)\<rparr>"

definition set_fetchIsDone :: "statement \<Rightarrow> bool \<Rightarrow> 's sqlite_world \<Rightarrow> 's sqlite_world" where
  "set_fetchIsDone st b w =
     w\<lparr>sw_statement := (sw_statement w)(st_name st := (sw_statement w (st_name st))\<lparr>ss_fetchIsDone := b\<rparr>)\<rparr>"

definition sqlite_isPrepared :: "statement \<Rightarrow> 's sqlite_world \<Rightarrow> bool" where
  "sqlite_isPrepared st w = (st_prepared st \<and> ss_owner (sw_statement w (st_name st)) = Some (sw_self w))"

definition sqlite_prepare :: "'s sqlite \<Rightarrow> statement \<Rightarrow> 's sqlite_world \<Rightarrow> 's sqlite_world \<times> unit outcome" where
  "sqlite_prepare sq st w =
     (case sq_prepare sq (sw_impl w) (c_str (st_expression st)) (sw_lib w) of
        (s, rc, h) \<Rightarrow>
          (let w1 = set_impl st h (w\<lparr>sw_lib := s\<rparr>)
           in if rc \<noteq> sq_code sq SQLITE_OK
              then (w1, Inl (DatabaseException (sq_errmsg sq (sw_impl w1) s)))
              else if sq_bind_parameter_count sq h s \<noteq> of_nat (length (st_inputs st))
              then (w1, Inl (RuntimeException (st_expression st @ '' number of input binders does not match'')))
              else if sq_column_count sq h s \<noteq> of_nat (length (st_outputs st))
              then (w1, Inl (RuntimeException (st_expression st @ '' number of output binders does not match'')))
              else (w1, Inr ())))"

definition sqlite_result :: "'s sqlite \<Rightarrow> cint \<Rightarrow> result_code" where
  "sqlite_result sq rc = result_code (Some (sqlite_interpreter sq)) rc []"

definition sqlite_execute :: "'s sqlite \<Rightarrow> statement \<Rightarrow> 's sqlite_world \<Rightarrow> 's sqlite_world \<times> result_code outcome" where
  "sqlite_execute sq st w =
     (case sq_reset sq (impl_of st w) (sw_lib w) of
        (s, rc) \<Rightarrow>
          (if rc \<noteq> sq_code sq SQLITE_OK
           then (w\<lparr>sw_lib := s\<rparr>, Inl (DatabaseException (sq_errmsg sq (sw_impl w) s)))
           else case sq_step sq (impl_of st w) s of
                  (s1, rc1) \<Rightarrow>
                    (let w1 = w\<lparr>sw_lib := s1\<rparr>
                     in if isASelect st
                        then (if rc1 = sq_code sq SQLITE_DONE
                              then (set_fetchIsDone st False w1, Inr (sqlite_result sq (sq_code sq SQLITE_NOTFOUND)))
                              else (set_fetchIsDone st True w1, Inr (sqlite_result sq (sq_code sq SQLITE_OK))))
                        else (w1, Inr (sqlite_result sq
                                (if rc1 = sq_code sq SQLITE_DONE then sq_code sq SQLITE_OK else rc1))))))"

definition sqlite_fetch :: "'s sqlite \<Rightarrow> statement \<Rightarrow> 's sqlite_world \<Rightarrow> 's sqlite_world \<times> bool outcome" where
  "sqlite_fetch sq st w =
     (if ss_fetchIsDone (sw_statement w (st_name st)) then (set_fetchIsDone st False w, Inr True)
      else case sq_step sq (impl_of st w) (sw_lib w) of
             (s, rc) \<Rightarrow> (w\<lparr>sw_lib := s\<rparr>, Inr (rc = sq_code sq SQLITE_ROW)))"

definition sqlite_statement_close :: "'s sqlite \<Rightarrow> statement \<Rightarrow> 's sqlite_world \<Rightarrow> 's sqlite_world" where
  "sqlite_statement_close sq st w =
     (case impl_of st w of
        None \<Rightarrow> w
      | Some h \<Rightarrow> set_impl st None (w\<lparr>sw_lib := sq_finalize sq h (sw_lib w)\<rparr>))"

section \<open>Binders\<close>

definition DefaultFormat :: string where "DefaultFormat = ''%Y-%m-%dT%H:%M:%S''"

text \<open>
  \<open>AsString::apply\<close> of a date.  The C library's \<open>localtime\<close> and \<open>strftime\<close> are the parameter: no
  result is a null broken-down time, no text one that does not fit.
\<close>

definition as_string_date :: "(string \<Rightarrow> clong \<Rightarrow> string option option) \<Rightarrow> string \<Rightarrow> clong \<Rightarrow> string outcome" where
  "as_string_date strftime format t =
     (case strftime format t of
        None \<Rightarrow> Inl (RuntimeException (as_string_seconds t @ '' is a bad time''))
      | Some None \<Rightarrow> Inl (RuntimeException (as_string_seconds t @ ''is a bad date''))
      | Some (Some text_of) \<Rightarrow> Inr text_of)"

text \<open>What is bound for a value; a list of strings is not bound at all.\<close>

definition bound_value :: "(string \<Rightarrow> clong \<Rightarrow> string option option) \<Rightarrow> data \<Rightarrow> sqlite_value option outcome" where
  "bound_value strftime d =
     (if \<not> hasValue d then Inr (Some SqlNull)
      else case d_content d of
             IntegerValue i \<Rightarrow> Inr (Some (SqlInt i))
           | StringValue s \<Rightarrow> Inr (Some (SqlText (c_str s)))
           | FloatValue f \<Rightarrow> Inr (Some (SqlDouble f))
           | ShortBlockValue b \<Rightarrow> Inr (Some (SqlBlob b))
           | LongBlockValue b \<Rightarrow> Inr (Some (SqlBlob b))
           | DateValue t \<Rightarrow>
               (case as_string_date strftime DefaultFormat t of Inl e \<Rightarrow> Inl e | Inr x \<Rightarrow> Inr (Some (SqlText x)))
           | TimeStampValue t f \<Rightarrow> Inr (Some (SqlInt64 t))
           | MultiStringValue vs \<Rightarrow> Inr None)"

text \<open>When SQLite refuses the value, the text of the error is asked of the connection that owns the statement.\<close>

definition sqlite_encode ::
    "'s sqlite \<Rightarrow> (string \<Rightarrow> clong \<Rightarrow> string option option) \<Rightarrow> statement \<Rightarrow> nat \<Rightarrow> nat \<Rightarrow> 's sqlite_world \<Rightarrow>
     's sqlite_world \<times> unit outcome" where
  "sqlite_encode sq strftime st pos ref w =
     (case bound_value strftime (sw_heap w ref) of
        Inl e \<Rightarrow> (w, Inl e)
      | Inr None \<Rightarrow> (w, Inr ())
      | Inr (Some v) \<Rightarrow>
          (case sq_bind sq (impl_of st w) (of_nat pos + 1) v (sw_lib w) of
             (s, rc) \<Rightarrow>
               (let w1 = w\<lparr>sw_lib := s\<rparr>
                in if rc = sq_code sq SQLITE_OK then (w1, Inr ())
                   else case ss_owner (sw_statement w1 (st_name st)) of
                          None \<Rightarrow> undefined_behaviour w1
                        | Some owner \<Rightarrow> (w1, Inl (DatabaseException (sq_errmsg sq (sw_impl w1) s))))))"

definition put_heap :: "nat \<Rightarrow> data \<Rightarrow> 's sqlite_world \<Rightarrow> 's sqlite_world" where
  "put_heap ref d w = w\<lparr>sw_heap := (sw_heap w)(ref := d)\<rparr>"

definition keep_set :: "nat \<Rightarrow> data outcome \<Rightarrow> 's sqlite_world \<Rightarrow> 's sqlite_world \<times> unit outcome" where
  "keep_set ref r w = (case r of Inl e \<Rightarrow> (w, Inl e) | Inr d \<Rightarrow> (put_heap ref d w, Inr ()))"

definition sqlite_decode ::
    "'s sqlite \<Rightarrow> env \<Rightarrow> statement \<Rightarrow> nat \<Rightarrow> nat \<Rightarrow> 's sqlite_world \<Rightarrow> 's sqlite_world \<times> unit outcome" where
  "sqlite_decode sq env st pos ref w =
     (let d = sw_heap w ref; h = impl_of st w; s = sw_lib w
      in if sq_column_type sq h pos s = sq_code sq SQLITE_NULL then keep_set ref (isNull env d) w
         else case getType d of
                TypeInteger \<Rightarrow> (put_heap ref (put_value (IntegerValue (sq_column_int sq h pos s)) d) w, Inr ())
              | TypeString \<Rightarrow> keep_set ref (string_set env (Some (sq_column_text sq h pos s)) d) w
              | TypeFloat \<Rightarrow> (put_heap ref (put_value (FloatValue (sq_column_double sq h pos s)) d) w, Inr ())
              | TypeShortBlock \<Rightarrow> keep_set ref (shortblock_set (sq_column_blob sq h pos s) d) w
              | TypeLongBlock \<Rightarrow> (put_heap ref (longblock_set (sq_column_blob sq h pos s) d) w, Inr ())
              | TypeDate \<Rightarrow>
                  (case date_set_text env (sq_column_text sq h pos s) (Some DefaultFormat) d of
                     (d1, r) \<Rightarrow> (put_heap ref d1 w, r))
              | TypeTimeStamp \<Rightarrow> (put_heap ref (date_set (sq_column_int64 sq h pos s) d) w, Inr ())
              | TypeMultiString \<Rightarrow> (w, Inr ()))"

section \<open>The driver and its database\<close>

definition sqlite_driver ::
    "'s sqlite \<Rightarrow> env \<Rightarrow> (string \<Rightarrow> clong \<Rightarrow> string option option) \<Rightarrow> 's sqlite_world driver" where
  "sqlite_driver sq env strftime =
     \<lparr>drv_isAvailable = (\<lambda>w. sw_impl w \<noteq> None), drv_describe = (\<lambda>base w. base), drv_open = sqlite_open sq,
      drv_close = sqlite_close sq, drv_beginTransaction = sqlite_beginTransaction sq,
      drv_commit = sqlite_commit sq, drv_rollback = sqlite_rollback sq,
      drv_isPrepared = sqlite_isPrepared, drv_prepare = sqlite_prepare sq,
      drv_prepareInput = (\<lambda>st pos ref w. (w, Inr ())), drv_prepareOutput = (\<lambda>st pos ref w. (w, Inr ())),
      drv_encode = sqlite_encode sq strftime, drv_execute = sqlite_execute sq,
      drv_fetch = sqlite_fetch sq, drv_decode = sqlite_decode sq env, drv_failRecovery = None\<rparr>"

definition sqlite_database_new :: "'s sqlite \<Rightarrow> string \<Rightarrow> 's sqlite_world database" where
  "sqlite_database_new sq dbFile =
     (database_new ''SQLite3'' (Some dbFile))\<lparr>db_interpreter := Some (sqlite_interpreter sq)\<rparr>"

text \<open>
  \<open>do_stop\<close> is overridden by a body that does nothing: the connections stay open and registered.  A
  service that is started again opens them again, over the handles, which are never closed.
\<close>

definition sqlite_do_stop :: "'s sqlite_world database \<Rightarrow> 's sqlite_world database \<times> 's sqlite_world list" where
  "sqlite_do_stop db = (db, [])"

lemma restart_leaks_handle:
  assumes "db_connections db = [c]" "sw_impl (c_world c) = Some h"
    and "sq_open sq (c_str (sw_database (c_world c))) (sw_lib (c_world c)) = (s, sq_code sq SQLITE_OK, Some h1)"
  shows "database_do_initialize (sqlite_driver sq env strftime) (fst (sqlite_do_stop db)) =
    (db\<lparr>db_connections := [c\<lparr>c_world := (c_world c)\<lparr>sw_lib := s, sw_impl := Some h1\<rparr>\<rparr>]\<rparr>, Inr ())"
  using assms
  by (simp add: database_do_initialize_def sqlite_do_stop_def sqlite_driver_def sqlite_open_def)

definition sqlite_allocateConnection ::
    "string \<Rightarrow> nat \<Rightarrow> heap \<Rightarrow> 's \<Rightarrow> string \<Rightarrow> string \<Rightarrow> string \<Rightarrow> 's sqlite_world connection allocation" where
  "sqlite_allocateConnection database self h s name user password =
     Allocated (connection_new database name user password
       \<lparr>sw_self = self, sw_database = database, sw_impl = None, sw_statement = (\<lambda>n. sqlite_statement_new),
        sw_heap = h, sw_crashed = False, sw_lib = s\<rparr>)"

definition sqlite_allocateStatement :: "string \<Rightarrow> string \<Rightarrow> action_on_error \<Rightarrow> statement allocation" where
  "sqlite_allocateStatement name expression action = Allocated (statement_new name expression action)"

definition sqlite_allocateInputBind :: "nat \<Rightarrow> nat option" where "sqlite_allocateInputBind ref = Some ref"

definition sqlite_allocateOutputBind :: "nat \<Rightarrow> nat option" where "sqlite_allocateOutputBind ref = Some ref"

section \<open>A value comes back as it was bound\<close>

text \<open>The column of the current row holds a value, as the library's accessors show it.\<close>

fun column_holds :: "'s sqlite \<Rightarrow> nat option \<Rightarrow> nat \<Rightarrow> 's \<Rightarrow> sqlite_value \<Rightarrow> bool" where
  "column_holds sq h pos s SqlNull = (sq_column_type sq h pos s = sq_code sq SQLITE_NULL)"
| "column_holds sq h pos s (SqlInt i) =
     (sq_column_type sq h pos s \<noteq> sq_code sq SQLITE_NULL \<and> sq_column_int sq h pos s = i)"
| "column_holds sq h pos s (SqlText x) =
     (sq_column_type sq h pos s \<noteq> sq_code sq SQLITE_NULL \<and> sq_column_text sq h pos s = x)"
| "column_holds sq h pos s (SqlDouble f) =
     (sq_column_type sq h pos s \<noteq> sq_code sq SQLITE_NULL \<and> sq_column_double sq h pos s = f)"
| "column_holds sq h pos s (SqlBlob b) =
     (sq_column_type sq h pos s \<noteq> sq_code sq SQLITE_NULL \<and> sq_column_blob sq h pos s = b)"
| "column_holds sq h pos s (SqlInt64 t) =
     (sq_column_type sq h pos s \<noteq> sq_code sq SQLITE_NULL \<and> sq_column_int64 sq h pos s = t)"

definition dates_parse :: "env \<Rightarrow> (string \<Rightarrow> clong \<Rightarrow> string option option) \<Rightarrow> data \<Rightarrow> bool" where
  "dates_parse env strftime d \<longleftrightarrow>
     (case d_content d of
        DateValue t \<Rightarrow>
          (case strftime DefaultFormat t of
             Some (Some x) \<Rightarrow> parse_date env x DefaultFormat = Some t \<and> t \<noteq> -1 | _ \<Rightarrow> True)
      | _ \<Rightarrow> True)"

lemma view_put [simp]: "data_view (put_value c d) = Some (view c)"
  by (simp add: data_view_def put_value_def)

lemma decode_null:
  assumes "wf_data d" "wf_data target" "same_schema d target" "d_isNull d"
    and "column_holds sq (impl_of st w) pos (sw_lib w) SqlNull" "sw_heap w ref = target"
  shows "\<exists>d1. sqlite_decode sq env st pos ref w = (put_heap ref d1 w, Inr ()) \<and>
    data_view d1 = data_view d \<and> wf_data d1 \<and> same_schema target d1"
proof -
  have "isNull env target = Inr (target\<lparr>d_isNull := True\<rparr>)"
    using assms(1,3,4) by (simp add: isNull_def wf_data_def same_schema_def)
  with wf_isNull [OF assms(2) this] show ?thesis
    using assms(4-6)
    by (intro exI [of _ "target\<lparr>d_isNull := True\<rparr>"]) (simp add: sqlite_decode_def keep_set_def data_view_def)
qed

lemma decode_date:
  assumes wf: "wf_data target" and ty: "getType target = TypeDate" and ref: "sw_heap w ref = target"
    and library: "column_holds sq (impl_of st w) pos (sw_lib w) (SqlText x)"
    and parse: "parse_date env x DefaultFormat = Some t" "t \<noteq> -1"
  shows "\<exists>d1. sqlite_decode sq env st pos ref w = (put_heap ref d1 w, Inr ()) \<and>
    data_view d1 = Some (DateValue t) \<and> wf_data d1 \<and> same_schema target d1"
proof -
  obtain u where u: "d_content target = DateValue u" using ty by (cases "d_content target") auto
  have "wf_data (put_value (DateValue t) (data_clear target)) \<and>
      same_schema target (put_value (DateValue t) (data_clear target))"
    using wf_clear [OF wf] wf_put [of "data_clear target" "DateValue t"] u
    by (auto simp: same_schema_def data_clear_def)
  with u library ref parse show ?thesis
    by (auto simp: sqlite_decode_def Let_def date_set_text_def date_set_def data_clear_def)
qed

text \<open>A value that is put into the output.\<close>

lemma decode_put:
  assumes "wf_data target" "type_of c = getType target"
    and "case c of StringValue s \<Rightarrow> length s \<le> d_maxSize target \<and> NUL \<notin> set s
         | ShortBlockValue b \<Rightarrow> length b \<le> d_maxSize target | _ \<Rightarrow> True"
    and "sqlite_decode sq env st pos ref w = (put_heap ref (put_value c target) w, Inr ())"
  shows "\<exists>d1. sqlite_decode sq env st pos ref w = (put_heap ref d1 w, Inr ()) \<and>
    data_view d1 = Some (view c) \<and> wf_data d1 \<and> same_schema target d1"
  using assms wf_put [OF assms(1-3)] by auto


section \<open>A library to evaluate with\<close>

text \<open>
  A database of one number, which every statement but a select increments.  It has the
  transactions of SQLite, and can be told that another process holds a lock on the file.
\<close>

record memory =
  mem_committed :: nat
  mem_visible :: nat
  mem_inside :: bool
  mem_refuses :: bool
  mem_handles :: nat

definition memory_new :: memory where
  "memory_new = \<lparr>mem_committed = 0, mem_visible = 0, mem_inside = False, mem_refuses = False, mem_handles = 0\<rparr>"

fun memory_code :: "sqlite_code \<Rightarrow> cint" where
  "memory_code SQLITE_OK = 0"
| "memory_code SQLITE_LOCKED = 6"
| "memory_code SQLITE_NOTFOUND = 12"
| "memory_code SQLITE_CORRUPT = 11"
| "memory_code SQLITE_NOTADB = 26"
| "memory_code SQLITE_ROW = 100"
| "memory_code SQLITE_DONE = 101"
| "memory_code SQLITE_NULL = 5"

definition memory_exec :: "string \<Rightarrow> memory \<Rightarrow> memory \<times> cint \<times> string option" where
  "memory_exec sql m =
     (if sql = ''BEGIN TRANSACTION;''
      then (if mem_inside m then (m, 1, Some ''cannot start a transaction within a transaction'')
            else (m\<lparr>mem_inside := True, mem_visible := mem_committed m\<rparr>, 0, None))
      else if \<not> mem_inside m then (m, 1, Some ''no transaction is active'')
      else if sql = ''COMMIT;''
      then (if mem_refuses m then (m, 5, Some ''database is locked'')
            else (m\<lparr>mem_inside := False, mem_committed := mem_visible m\<rparr>, 0, None))
      else (m\<lparr>mem_inside := False, mem_visible := mem_committed m\<rparr>, 0, None))"

definition memory_sqlite :: "memory sqlite" where
  "memory_sqlite =
     \<lparr>sq_code = memory_code, sq_open = (\<lambda>file m. (m, 0, Some 1)), sq_close = (\<lambda>h m. m),
      sq_exec = (\<lambda>h. memory_exec), sq_errmsg = (\<lambda>h m. ''error''),
      sq_prepare = (\<lambda>h sql m. (m\<lparr>mem_handles := mem_handles m + 1\<rparr>, 0, Some (mem_handles m))),
      sq_bind_parameter_count = (\<lambda>h m. 1), sq_column_count = (\<lambda>h m. 0),
      sq_bind = (\<lambda>h i v m. (m, if i = 1 then 0 else 25)), sq_reset = (\<lambda>h m. (m, 0)),
      sq_step = (\<lambda>h m. (m\<lparr>mem_visible := mem_visible m + 1\<rparr>, 101)), sq_finalize = (\<lambda>h m. m),
      sq_column_type = (\<lambda>h pos m. 3), sq_column_int = (\<lambda>h pos m. 7), sq_column_text = (\<lambda>h pos m. ''x''),
      sq_column_double = (\<lambda>h pos m. 0), sq_column_blob = (\<lambda>h pos m. []), sq_column_int64 = (\<lambda>h pos m. 9)\<rparr>"

definition memory_connection :: "memory sqlite_world connection" where
  "memory_connection = connection_new ''db'' ''c'' '''' ''''
     \<lparr>sw_self = 0, sw_database = ''file'', sw_impl = Some 1, sw_statement = (\<lambda>n. sqlite_statement_new),
      sw_heap = (\<lambda>r. integer_new ''i'' True), sw_crashed = False, sw_lib = memory_new\<rparr>"

definition memory_statement :: statement where
  "memory_statement = (statement_new ''insert'' ''insert into t values(?)'' Rollback)\<lparr>st_inputs := [0]\<rparr>"

definition no_strftime :: "string \<Rightarrow> clong \<Rightarrow> string option option" where
  "no_strftime fmt t = None"

lemmas memory_defs = memory_sqlite_def memory_exec_def memory_new_def memory_connection_def memory_statement_def
  statement_new_def connection_new_def sqlite_statement_new_def


section \<open>Units of work on SQLite\<close>

text \<open>
  What SQLite documents of one connection \<open>h\<close>: a transaction begins in auto-commit mode
  only, what it did is seen by the others when it is committed and forgotten when it is rolled
  back.  \<open>ac_committed\<close> is the content of the file, \<open>ac_visible\<close> what the connection
  sees, \<open>ac_fresh\<close> holds of a prepared statement that was not stepped yet.  The laws speak of
  the time when nothing else uses the file and the file is sound, so that nothing is refused
  and no step ends the transaction by itself.
\<close>

record ('s, 't) account =
  ac_committed :: "'s \<Rightarrow> 't"
  ac_visible :: "'s \<Rightarrow> 't"
  ac_autocommit :: "'s \<Rightarrow> bool"
  ac_fresh :: "nat option \<Rightarrow> 's \<Rightarrow> bool"

definition same_content :: "('s, 't) account \<Rightarrow> 's \<Rightarrow> 's \<Rightarrow> bool" where
  "same_content ac s s' \<longleftrightarrow>
     ac_committed ac s' = ac_committed ac s \<and> ac_visible ac s' = ac_visible ac s \<and>
     ac_autocommit ac s' = ac_autocommit ac s"

definition code_laws :: "'s sqlite \<Rightarrow> bool" where
  "code_laws sq \<longleftrightarrow>
     (\<forall>good \<in> {SQLITE_OK, SQLITE_NOTFOUND}. \<forall>lost \<in> {SQLITE_CORRUPT, SQLITE_NOTADB}. sq_code sq good \<noteq> sq_code sq lost)"

definition transaction_laws :: "'s sqlite \<Rightarrow> ('s, 't) account \<Rightarrow> nat \<Rightarrow> bool" where
  "transaction_laws sq ac h \<longleftrightarrow>
     (\<forall>s. ac_autocommit ac s \<longrightarrow>
        (\<exists>s' m. sq_exec sq (Some h) ''BEGIN TRANSACTION;'' s = (s', sq_code sq SQLITE_OK, m) \<and>
           \<not> ac_autocommit ac s' \<and> ac_committed ac s' = ac_committed ac s \<and> ac_visible ac s' = ac_committed ac s)) \<and>
     (\<forall>s. \<not> ac_autocommit ac s \<longrightarrow>
        (\<exists>s' m. sq_exec sq (Some h) ''COMMIT;'' s = (s', sq_code sq SQLITE_OK, m) \<and>
           ac_autocommit ac s' \<and> ac_committed ac s' = ac_visible ac s)) \<and>
     (\<forall>s. \<not> ac_autocommit ac s \<longrightarrow>
        (\<exists>s' m. sq_exec sq (Some h) ''ROLLBACK'' s = (s', sq_code sq SQLITE_OK, m) \<and>
           ac_autocommit ac s' \<and> ac_committed ac s' = ac_committed ac s))"

definition statement_laws :: "'s sqlite \<Rightarrow> ('s, 't) account \<Rightarrow> nat \<Rightarrow> bool" where
  "statement_laws sq ac h \<longleftrightarrow>
     (\<forall>sql s s' rc hs. sq_prepare sq (Some h) sql s = (s', rc, hs) \<longrightarrow>
        same_content ac s s' \<and> (rc = sq_code sq SQLITE_OK \<longrightarrow> ac_fresh ac hs s')) \<and>
     (\<forall>hs i v s. ac_fresh ac hs s \<and> 0 <s i \<and> i \<le>s sq_bind_parameter_count sq hs s \<longrightarrow>
        (\<exists>s'. sq_bind sq hs i v s = (s', sq_code sq SQLITE_OK) \<and> same_content ac s s' \<and> ac_fresh ac hs s' \<and>
           sq_bind_parameter_count sq hs s' = sq_bind_parameter_count sq hs s)) \<and>
     (\<forall>hs s s' rc. sq_reset sq hs s = (s', rc) \<and> ac_fresh ac hs s \<longrightarrow> same_content ac s s') \<and>
     (\<forall>hs s s' rc. sq_step sq hs s = (s', rc) \<and> \<not> ac_autocommit ac s \<longrightarrow>
        ac_committed ac s' = ac_committed ac s \<and> \<not> ac_autocommit ac s' \<and>
        rc \<noteq> sq_code sq SQLITE_CORRUPT \<and> rc \<noteq> sq_code sq SQLITE_NOTADB)"

definition sqlite_laws :: "'s sqlite \<Rightarrow> ('s, 't) account \<Rightarrow> nat \<Rightarrow> bool" where
  "sqlite_laws sq ac h \<longleftrightarrow> code_laws sq \<and> transaction_laws sq ac h \<and> statement_laws sq ac h"

text \<open>The connection between two units, and the driver's state within one.\<close>

definition never_owned :: "'s sqlite_world \<Rightarrow> bool" where
  "never_owned w \<longleftrightarrow> (\<forall>n. ss_owner (sw_statement w n) = None)"

definition sqlite_idle :: "('s, 't) account \<Rightarrow> nat \<Rightarrow> 's sqlite_world connection \<Rightarrow> bool" where
  "sqlite_idle ac h c \<longleftrightarrow>
     \<not> c_mutex c \<and> c_lockingCounter c = 0 \<and> c_maxCommitPending c = 0 \<and> sw_impl (c_world c) = Some h \<and>
     ac_autocommit ac (sw_lib (c_world c)) \<and> never_owned (c_world c) \<and> \<not> sw_crashed (c_world c)"

definition in_transaction :: "('s, 't) account \<Rightarrow> nat \<Rightarrow> 't \<Rightarrow> 's sqlite_world \<Rightarrow> bool" where
  "in_transaction ac h t w \<longleftrightarrow>
     sw_impl w = Some h \<and> \<not> ac_autocommit ac (sw_lib w) \<and> ac_committed ac (sw_lib w) = t \<and>
     never_owned w \<and> \<not> sw_crashed w"

definition sqlite_inside :: "('s, 't) account \<Rightarrow> nat \<Rightarrow> 't \<Rightarrow> nat \<Rightarrow> 's sqlite_world connection \<Rightarrow> bool" where
  "sqlite_inside ac h t n c \<longleftrightarrow>
     c_mutex c \<and> c_lockingCounter c = 1 \<and> c_maxCommitPending c = 0 \<and> in_transaction ac h t (c_world c) \<and>
     0 < sint (c_commitPending c) \<and> sint (c_commitPending c) + int n < 2 ^ 31"

definition rebinds :: "('s sqlite_world \<Rightarrow> 's sqlite_world) \<Rightarrow> bool" where
  "rebinds f \<longleftrightarrow> (\<forall>w. \<exists>heap. f w = w\<lparr>sw_heap := heap\<rparr>)"

lemma sqlite_inside_fewer: "sqlite_inside ac h t n c \<Longrightarrow> m \<le> n \<Longrightarrow> sqlite_inside ac h t m c"
  by (auto simp: sqlite_inside_def)

lemma sqlite_inside_world:
  "sqlite_inside ac h t n c \<Longrightarrow> in_transaction ac h t w \<Longrightarrow> sqlite_inside ac h t n (c\<lparr>c_world := w\<rparr>)"
  by (simp add: sqlite_inside_def)

lemma in_transaction_lib:
  "in_transaction ac h t w \<Longrightarrow> same_content ac (sw_lib w) s \<Longrightarrow> in_transaction ac h t (w\<lparr>sw_lib := s\<rparr>)"
  by (simp add: in_transaction_def same_content_def never_owned_def)

lemma in_transaction_impl [simp]: "in_transaction ac h t (set_impl st i w) = in_transaction ac h t w"
  by (auto simp: in_transaction_def set_impl_def never_owned_def)

lemma in_transaction_fetchIsDone [simp]:
  "in_transaction ac h t (set_fetchIsDone st b w) = in_transaction ac h t w"
  by (auto simp: in_transaction_def set_fetchIsDone_def never_owned_def)

text \<open>Preparing leaves a fresh handle with as many parameters as there are inputs.\<close>

definition ready :: "'s sqlite \<Rightarrow> ('s, 't) account \<Rightarrow> statement \<Rightarrow> 's sqlite_world \<Rightarrow> bool" where
  "ready sq ac st w \<longleftrightarrow>
     ac_fresh ac (impl_of st w) (sw_lib w) \<and>
     sq_bind_parameter_count sq (impl_of st w) (sw_lib w) = of_nat (length (st_inputs st))"

lemma prepare_transaction:
  assumes laws: "sqlite_laws sq ac h" and i: "in_transaction ac h t w"
    and p: "sqlite_prepare sq st w = (w1, q)"
  shows "in_transaction ac h t w1 \<and> (q = Inr () \<longrightarrow> ready sq ac st w1)"
proof -
  obtain s rc hs where x: "sq_prepare sq (Some h) (c_str (st_expression st)) (sw_lib w) = (s, rc, hs)"
    by (rule prod_cases3)
  have same: "same_content ac (sw_lib w) s" and fresh: "rc = sq_code sq SQLITE_OK \<longrightarrow> ac_fresh ac hs s"
    using laws x unfolding sqlite_laws_def statement_laws_def by blast+
  have impl: "sw_impl w = Some h" using i by (simp add: in_transaction_def)
  have w1: "w1 = set_impl st hs (w\<lparr>sw_lib := s\<rparr>)"
    using p x impl by (auto simp: sqlite_prepare_def Let_def split: if_splits)
  have "in_transaction ac h t w1" unfolding w1 using in_transaction_lib [OF i same] by simp
  moreover have "ready sq ac st w1" if "q = Inr ()"
    using p x impl fresh that
    by (auto simp: sqlite_prepare_def Let_def w1 ready_def impl_of_def set_impl_def split: if_splits)
  ultimately show ?thesis by simp
qed

text \<open>The position of an input is a parameter of the prepared statement.\<close>

lemma position_in_range:
  assumes "pos < n" "n < 2 ^ 31"
  shows "(0 :: cint) <s of_nat pos + 1" "(of_nat pos + 1 :: cint) \<le>s of_nat n"
proof -
  have s: "sint (of_nat k :: cint) = int k" if "k < 2 ^ 31" for k
    using that by (simp add: signed_of_nat signed_take_bit_int_eq_self)
  have "(of_nat pos + 1 :: cint) = of_nat (Suc pos)" by simp
  then have "sint (of_nat pos + 1 :: cint) = int (Suc pos)" using s [of "Suc pos"] assms by (simp only: )
  then show "(0 :: cint) <s of_nat pos + 1" "(of_nat pos + 1 :: cint) \<le>s of_nat n"
    using s [of n] assms by (simp_all add: word_sless_alt word_sle_eq)
qed

lemma encode_transaction:
  assumes laws: "sqlite_laws sq ac h" and i: "in_transaction ac h t w" and r: "ready sq ac st w"
    and pos: "pos < length (st_inputs st)" "length (st_inputs st) < 2 ^ 31"
    and e: "sqlite_encode sq strftime st pos ref w = (w1, q)"
  shows "in_transaction ac h t w1 \<and> ready sq ac st w1"
proof (cases "bound_value strftime (sw_heap w ref)")
  case (Inl x)
  with e i r show ?thesis by (simp add: sqlite_encode_def)
next
  case (Inr bv)
  show ?thesis
  proof (cases bv)
    case None
    with Inr e i r show ?thesis by (simp add: sqlite_encode_def)
  next
    case (Some v)
    have "0 <s (of_nat pos + 1 :: cint) \<and> of_nat pos + 1 \<le>s sq_bind_parameter_count sq (impl_of st w) (sw_lib w)"
      using position_in_range [OF pos] r by (simp add: ready_def)
    with laws r obtain s where s: "sq_bind sq (impl_of st w) (of_nat pos + 1) v (sw_lib w) = (s, sq_code sq SQLITE_OK)"
      "same_content ac (sw_lib w) s" "ac_fresh ac (impl_of st w) s"
      "sq_bind_parameter_count sq (impl_of st w) s = sq_bind_parameter_count sq (impl_of st w) (sw_lib w)"
      unfolding sqlite_laws_def statement_laws_def ready_def by blast
    with Inr Some e have "w1 = w\<lparr>sw_lib := s\<rparr>" by (simp add: sqlite_encode_def)
    with s r in_transaction_lib [OF i s(2)] show ?thesis by (simp add: ready_def impl_of_def)
  qed
qed

lemma bind_transaction:
  assumes laws: "sqlite_laws sq ac h" and few: "length (st_inputs st) < 2 ^ 31"
  shows "in_transaction ac h t w \<Longrightarrow> ready sq ac st w \<Longrightarrow> pos + length refs \<le> length (st_inputs st) \<Longrightarrow>
    bind_loop (sqlite_encode sq strftime st) pos refs w = (w1, q) \<Longrightarrow>
    in_transaction ac h t w1 \<and> ready sq ac st w1"
proof (induction refs arbitrary: pos w)
  case Nil
  then show ?case by simp
next
  case (Cons ref refs)
  obtain w2 r where e: "sqlite_encode sq strftime st pos ref w = (w2, r)" by fastforce
  have i: "in_transaction ac h t w2 \<and> ready sq ac st w2"
    using encode_transaction [OF laws Cons.prems(1,2) _ few e] Cons.prems(3) by simp
  with Cons.IH [of w2 "Suc pos"] Cons.prems(3,4) e show ?case by (cases r) auto
qed

lemma step_transaction:
  assumes laws: "sqlite_laws sq ac h" and i: "in_transaction ac h t w" and r: "ready sq ac st w"
    and x: "sqlite_execute sq st w = (w1, q)"
  shows "in_transaction ac h t w1 \<and>
    (\<forall>result. q = Inr result \<longrightarrow> lostConnection result = Inr False \<and> rc_interpreter result \<noteq> None)"
proof -
  obtain s rc where s: "sq_reset sq (impl_of st w) (sw_lib w) = (s, rc)" by fastforce
  have same: "same_content ac (sw_lib w) s"
    using laws s r unfolding sqlite_laws_def statement_laws_def ready_def by blast
  have i1: "in_transaction ac h t (w\<lparr>sw_lib := s\<rparr>)" by (rule in_transaction_lib [OF i same])
  show ?thesis
  proof (cases "rc = sq_code sq SQLITE_OK")
    case False
    with x s i1 show ?thesis by (auto simp: sqlite_execute_def)
  next
    case True
    obtain s1 rc1 where s1: "sq_step sq (impl_of st w) s = (s1, rc1)" by fastforce
    have "\<not> ac_autocommit ac s" using i1 by (simp add: in_transaction_def)
    with laws s1 have keeps: "ac_committed ac s1 = ac_committed ac s" "\<not> ac_autocommit ac s1"
      and lost: "rc1 \<noteq> sq_code sq SQLITE_CORRUPT" "rc1 \<noteq> sq_code sq SQLITE_NOTADB"
      unfolding sqlite_laws_def statement_laws_def by blast+
    have "in_transaction ac h t (w\<lparr>sw_lib := s1\<rparr>)" using i1 keeps by (simp add: in_transaction_def never_owned_def)
    moreover have "code_laws sq" using laws by (simp add: sqlite_laws_def)
    ultimately show ?thesis
      using x s s1 True lost
      by (auto simp: sqlite_execute_def Let_def sqlite_result_def result_code_def lostConnection_def
          sqlite_interpreter_def code_laws_def split: if_splits)
  qed
qed

text \<open>A statement whose owner was never written is prepared again by every execution.\<close>

lemma prepared_anew:
  assumes laws: "sqlite_laws sq ac h" and i: "in_transaction ac h t (c_world c)"
    and p: "ensure_prepared (sqlite_driver sq env strftime) st c = (c1, st1, q)"
  shows "\<exists>w. c1 = c\<lparr>c_world := w\<rparr> \<and> in_transaction ac h t w \<and>
    (q = Inr () \<longrightarrow> st1 = st\<lparr>st_prepared := True\<rparr> \<and> ready sq ac st1 w)"
proof -
  have loop: "bind_loop (\<lambda>pos ref w. (w, Inr ())) k refs w = (w, Inr ())" for k refs and w :: "'a sqlite_world"
    by (induction refs arbitrary: k) simp_all
  have "\<not> sqlite_isPrepared st (c_world c)"
    using i by (simp add: sqlite_isPrepared_def in_transaction_def never_owned_def)
  moreover obtain w r where w: "sqlite_prepare sq st (c_world c) = (w, r)" by fastforce
  moreover have "ready sq ac (st\<lparr>st_prepared := True\<rparr>) w = ready sq ac st w" by (simp add: ready_def impl_of_def)
  ultimately show ?thesis
    using p prepare_transaction [OF laws i w] loop
    by (cases r) (auto simp: ensure_prepared_def statement_prepare_def sqlite_driver_def)
qed

lemma note_result_sqlite:
  assumes i: "sqlite_inside ac h t (Suc n) c" and known: "rc_interpreter result \<noteq> None"
    and noted: "note_result drv st result c = (c1, st1, q)"
  shows "sqlite_inside ac h t n c1 \<and> (c_rollbackPending c1 \<longrightarrow> c_rollbackPending c \<or> (\<exists>e. q = Inl e))"
proof -
  have s: "sint (c_commitPending c + 1) = sint (c_commitPending c) + 1"
    using i by (simp add: sqlite_inside_def sint_word_ariths signed_take_bit_int_eq_self)
  have "sqlite_inside ac h t n c" "sqlite_inside ac h t n (c\<lparr>c_rollbackPending := True\<rparr>)"
    "sqlite_inside ac h t n (c\<lparr>c_commitPending := c_commitPending c + 1\<rparr>)"
    "\<not> reachMaxCommitPending (c\<lparr>c_commitPending := c_commitPending c + 1\<rparr>)"
    using i s by (auto simp: sqlite_inside_def reachMaxCommitPending_def)
  with noted known show ?thesis
    by (auto simp: note_result_def successful_def Let_def split: if_splits option.splits bool.splits)
qed

lemma execute_sqlite:
  assumes laws: "sqlite_laws sq ac h" and i: "sqlite_inside ac h t (Suc n) c"
    and few: "length (st_inputs st) < 2 ^ 31"
  shows "\<exists>c1 st1 q. connection_execute (sqlite_driver sq env strftime) us st c = Some (c1, st1, q) \<and>
    sqlite_inside ac h t n c1 \<and> (c_rollbackPending c1 \<longrightarrow> c_rollbackPending c \<or> (\<exists>e. q = Inl e))"
proof (cases "requiresCommit st \<and> c_rollbackPending c")
  case True
  with sqlite_inside_fewer [OF i, of n] show ?thesis by (simp add: connection_execute_def)
next
  case False
  let ?drv = "sqlite_driver sq env strftime"
  have n: "sqlite_inside ac h t n c" using i by (rule sqlite_inside_fewer) simp
  have tr: "in_transaction ac h t (c_world c)" using i by (simp add: sqlite_inside_def)
  obtain c1 st1 p where p: "ensure_prepared ?drv st c = (c1, st1, p)" by (rule prod_cases3)
  from prepared_anew [OF laws tr p] obtain w where c1: "c1 = c\<lparr>c_world := w\<rparr>" and w: "in_transaction ac h t w"
    and prep: "p = Inr () \<longrightarrow> st1 = st\<lparr>st_prepared := True\<rparr> \<and> ready sq ac st1 w" by blast
  show ?thesis
  proof (cases p)
    case (Inl e)
    with p c1 have "connection_execute ?drv us st c = Some (c\<lparr>c_world := w\<rparr>, st1, Inl e)"
      using False by (auto simp: connection_execute_def)
    with sqlite_inside_world [OF n w] show ?thesis by simp
  next
    case (Inr u)
    with prep have st1: "st1 = st\<lparr>st_prepared := True\<rparr>" and r: "ready sq ac st1 w"
      by (metis (full_types) unit.exhaust)+
    obtain w1 b where b: "bind_loop (sqlite_encode sq strftime st1) 0 (st_inputs st1) w = (w1, b)" by fastforce
    have b1: "in_transaction ac h t w1 \<and> ready sq ac st1 w1"
      by (rule bind_transaction [OF laws _ w r _ b]) (insert few, simp_all add: st1)
    show ?thesis
    proof (cases b)
      case bad: (Inl e)
      with p Inr c1 b have "connection_execute ?drv us st c = Some (c\<lparr>c_world := w1\<rparr>, st1, Inl e)"
        using False by (auto simp: connection_execute_def statement_execute_def sqlite_driver_def)
      with b1 sqlite_inside_world [OF n, of w1] show ?thesis by simp
    next
      case ok: (Inr u1)
      obtain w2 x where x: "sqlite_execute sq st1 w1 = (w2, x)" by fastforce
      from step_transaction [OF laws _ _ x] b1 have w2: "in_transaction ac h t w2"
        and result: "\<And>result. x = Inr result \<Longrightarrow> lostConnection result = Inr False \<and> rc_interpreter result \<noteq> None"
        by auto
      have exe: "statement_execute ?drv st1 w = (w2, x)"
        using b ok x by (simp add: statement_execute_def sqlite_driver_def)
      show ?thesis
      proof (cases x)
        case (Inl e)
        with exe p \<open>p = Inr u\<close> c1 have "connection_execute ?drv us st c = Some (c\<lparr>c_world := w2\<rparr>, st1, Inl e)"
          using False by (auto simp: connection_execute_def)
        with sqlite_inside_world [OF n w2] show ?thesis by simp
      next
        case res: (Inr result)
        obtain c3 st3 q where noted:
          "note_result ?drv (registerElapsedTime us st1) result (c\<lparr>c_world := w2\<rparr>) = (c3, st3, q)"
          by (rule prod_cases3)
        have "connection_execute ?drv us st c = Some (c3, st3, q)"
          using exe False p \<open>p = Inr u\<close> c1 res result [OF res] noted
          by (auto simp: connection_execute_def handle_result_def)
        moreover have "sqlite_inside ac h t n c3 \<and> (c_rollbackPending c3 \<longrightarrow> c_rollbackPending c \<or> (\<exists>e. q = Inl e))"
          using note_result_sqlite [OF sqlite_inside_world [OF i w2] _ noted] result [OF res] by simp
        ultimately show ?thesis by blast
      qed
    qed
  qed
qed

lemma run_steps_sqlite:
  assumes laws: "sqlite_laws sq ac h"
  shows "sqlite_inside ac h t (length steps) c \<Longrightarrow>
    (\<forall>(f, us, st) \<in> set steps. rebinds f \<and> length (st_inputs st) < 2 ^ 31) \<Longrightarrow>
    \<exists>c1 rs. run_steps (sqlite_driver sq env strftime) steps c = Some (c1, rs) \<and> sqlite_inside ac h t 0 c1 \<and>
      (c_rollbackPending c1 \<longrightarrow> c_rollbackPending c \<or> (\<exists>e. Inl e \<in> set rs))"
proof (induction steps arbitrary: c)
  case Nil
  then show ?case by simp
next
  case (Cons step steps)
  obtain f us st where step: "step = (f, us, st)" by (cases step)
  let ?c = "c\<lparr>c_world := f (c_world c)\<rparr>"
  have tr: "in_transaction ac h t (c_world c)" using Cons.prems(1) by (simp add: sqlite_inside_def)
  have "rebinds f" using Cons.prems(2) by (simp add: step)
  then obtain heap where "f (c_world c) = (c_world c)\<lparr>sw_heap := heap\<rparr>" unfolding rebinds_def by blast
  with tr have "in_transaction ac h t (f (c_world c))" by (simp add: in_transaction_def never_owned_def)
  then have i: "sqlite_inside ac h t (Suc (length steps)) ?c"
    using sqlite_inside_world Cons.prems(1) by simp
  have few: "length (st_inputs st) < 2 ^ 31" using Cons.prems(2) by (simp add: step)
  from execute_sqlite [OF laws i few, of env strftime us] obtain c1 st1 q where
    x: "connection_execute (sqlite_driver sq env strftime) us st ?c = Some (c1, st1, q)"
    and i1: "sqlite_inside ac h t (length steps) c1"
    and rb: "c_rollbackPending c1 \<longrightarrow> c_rollbackPending c \<or> (\<exists>e. q = Inl e)" by auto
  have "\<forall>(f, us, st) \<in> set steps. rebinds f \<and> length (st_inputs st) < 2 ^ 31" using Cons.prems(2) by simp
  from Cons.IH [OF i1 this] obtain c2 rs where
    "run_steps (sqlite_driver sq env strftime) steps c1 = Some (c2, rs)" "sqlite_inside ac h t 0 c2"
    "c_rollbackPending c2 \<longrightarrow> c_rollbackPending c1 \<or> (\<exists>e. Inl e \<in> set rs)" by blast
  with x rb show ?case by (auto simp: step)
qed

lemma lock_sqlite:
  assumes laws: "sqlite_laws sq ac h" and idle: "sqlite_idle ac h c" and n: "n + 1 < 2 ^ 31"
  shows "\<exists>c1. connection_lock (sqlite_driver sq env strftime) c = Some (c1, Inr ()) \<and>
    sqlite_inside ac h (ac_committed ac (sw_lib (c_world c))) n c1 \<and> \<not> c_rollbackPending c1 \<and>
    ac_visible ac (sw_lib (c_world c1)) = ac_committed ac (sw_lib (c_world c))"
proof -
  have "ac_autocommit ac (sw_lib (c_world c))" "sw_impl (c_world c) = Some h" using idle by (simp_all add: sqlite_idle_def)
  with laws obtain s m where "sq_exec sq (Some h) ''BEGIN TRANSACTION;'' (sw_lib (c_world c)) = (s, sq_code sq SQLITE_OK, m)"
    "\<not> ac_autocommit ac s" "ac_committed ac s = ac_committed ac (sw_lib (c_world c))"
    "ac_visible ac s = ac_committed ac (sw_lib (c_world c))"
    unfolding sqlite_laws_def transaction_laws_def by blast
  with idle n show ?thesis
    by (simp add: connection_lock_def isAvailable_def acquire_def begin_work_def sqlite_driver_def Let_def
        sqlite_beginTransaction_def sqlite_exec_def sqlite_idle_def sqlite_inside_def in_transaction_def never_owned_def)
qed

lemma unlock_sqlite:
  assumes laws: "sqlite_laws sq ac h" and i: "sqlite_inside ac h t 0 c"
  shows "\<exists>c1. connection_unlock (sqlite_driver sq env strftime) c = Some c1 \<and> sqlite_idle ac h c1 \<and>
    ac_committed ac (sw_lib (c_world c1)) =
      (if c_rollbackPending c then t else ac_visible ac (sw_lib (c_world c)))"
proof -
  have w: "\<not> ac_autocommit ac (sw_lib (c_world c))" "sw_impl (c_world c) = Some h"
    "ac_committed ac (sw_lib (c_world c)) = t" using i by (simp_all add: sqlite_inside_def in_transaction_def)
  obtain s m where commit: "sq_exec sq (Some h) ''COMMIT;'' (sw_lib (c_world c)) = (s, sq_code sq SQLITE_OK, m)"
    "ac_autocommit ac s" "ac_committed ac s = ac_visible ac (sw_lib (c_world c))"
    using laws w unfolding sqlite_laws_def transaction_laws_def by blast
  obtain s1 m1 where rollback: "sq_exec sq (Some h) ''ROLLBACK'' (sw_lib (c_world c)) = (s1, sq_code sq SQLITE_OK, m1)"
    "ac_autocommit ac s1" "ac_committed ac s1 = t"
    using laws w unfolding sqlite_laws_def transaction_laws_def by blast
  show ?thesis
  proof (cases "c_rollbackPending c")
    case True
    with i w rollback show ?thesis
      by (simp add: connection_unlock_def Let_def finish_work_def connection_rollback_def sqlite_driver_def
          sqlite_rollback_def sqlite_exec_def sqlite_inside_def sqlite_idle_def in_transaction_def never_owned_def)
  next
    case False
    with i w commit show ?thesis
      by (simp add: connection_unlock_def Let_def finish_work_def connection_commit_def isAvailable_def
          sqlite_driver_def sqlite_commit_def sqlite_exec_def sqlite_inside_def sqlite_idle_def in_transaction_def
          never_owned_def word_sless_alt)
  qed
qed


definition memory_account :: "(memory, nat) account" where
  "memory_account = \<lparr>ac_committed = mem_committed, ac_visible = mem_visible,
     ac_autocommit = (\<lambda>m. \<not> mem_inside m), ac_fresh = (\<lambda>hs m. True)\<rparr>"

text \<open>The laws are those of the database of one number that refuses nothing.\<close>

definition free_sqlite :: "memory sqlite" where
  "free_sqlite = memory_sqlite\<lparr>sq_exec := (\<lambda>h sql m. memory_exec sql (m\<lparr>mem_refuses := False\<rparr>))\<rparr>"

lemma free_laws: "sqlite_laws free_sqlite memory_account 1"
proof -
  have one: "i = 1" if "0 <s i" "i \<le>s 1" for i :: cint
  proof -
    have "sint i = sint (1 :: cint)" using that by (simp add: word_sless_alt word_sle_eq)
    then show ?thesis by (simp only: signed_word_eqI)
  qed
  show ?thesis
    by (auto simp: sqlite_laws_def code_laws_def transaction_laws_def statement_laws_def free_sqlite_def
        memory_sqlite_def memory_exec_def memory_account_def same_content_def dest: one)
qed

lemma rebinds_same: "rebinds (\<lambda>w. w)"
  unfolding rebinds_def
proof
  fix w :: "'s sqlite_world"
  show "\<exists>heap. w = w\<lparr>sw_heap := heap\<rparr>" by (rule exI [of _ "sw_heap w"]) simp
qed

lemma memory_not_select: "st_expression st = ''insert into t values(?)'' \<Longrightarrow> \<not> isASelect st"
  unfolding isASelect_def by (simp only: ) code_simp

lemma unit_evaluates:
  "map_option (\<lambda>(c, r). mem_committed (sw_lib (c_world c)))
     (unit_of_work (sqlite_driver free_sqlite sample_env no_strftime)
       [(\<lambda>w. w, 1, memory_statement), (\<lambda>w. w, 1, memory_statement)] memory_connection) = Some 2"
  by (simp add: unit_of_work_def connection_lock_def isAvailable_def acquire_def begin_work_def
      sqlite_driver_def memory_defs free_sqlite_def sqlite_beginTransaction_def sqlite_exec_def
      connection_execute_def ensure_prepared_def statement_prepare_def sqlite_isPrepared_def sqlite_prepare_def
      statement_execute_def sqlite_encode_def bound_value_def hasValue_def integer_new_def data_new_def
      impl_of_def set_impl_def sqlite_execute_def memory_not_select sqlite_result_def result_code_def
      handle_result_def lostConnection_def sqlite_interpreter_def note_result_def requiresCommit_def
      registerElapsedTime_def successful_def reachMaxCommitPending_def connection_unlock_def finish_work_def
      connection_commit_def sqlite_commit_def Let_def word_sless_alt)


section \<open>Errors that are not reported\<close>

text \<open>
  A query whose first step fails is reported as successful.  For a select every result
  of the step but \<open>SQLITE_DONE\<close> counts as a row: a busy or locked file, an interrupted or a
  misused statement.  The fetch that follows takes that row for granted, without asking the
  library, and so decodes columns of no row.
\<close>

theorem select_error_is_success:
  assumes "isASelect st" "sq_reset sq (impl_of st w) (sw_lib w) = (s, sq_code sq SQLITE_OK)"
    and "sq_step sq (impl_of st w) s = (s1, rc)" "rc \<noteq> sq_code sq SQLITE_DONE"
  shows "\<exists>w1 w2 result. sqlite_execute sq st w = (w1, Inr result) \<and> successful result = Inr True \<and>
    sw_lib w1 = s1 \<and> sqlite_fetch sq st w1 = (w2, Inr True) \<and> sw_lib w2 = s1"
  using assms
  by (simp add: sqlite_execute_def Let_def sqlite_result_def result_code_def successful_def sqlite_interpreter_def
      sqlite_fetch_def set_fetchIsDone_def)

definition busy_sqlite :: "memory sqlite" where
  "busy_sqlite = memory_sqlite\<lparr>sq_step := (\<lambda>h m. (m, 5))\<rparr>"

definition memory_query :: statement where
  "memory_query = statement_new ''query'' ''select i from t'' Ignore"

lemma query_selects: "isASelect memory_query"
  by code_simp

theorem select_error_is_success_witness:
  "\<exists>w1 result. sqlite_execute busy_sqlite memory_query (c_world memory_connection) = (w1, Inr result) \<and>
    successful result = Inr True \<and> snd (sqlite_fetch busy_sqlite memory_query w1) = Inr True"
proof -
  have "\<exists>w1 w2 result. sqlite_execute busy_sqlite memory_query (c_world memory_connection) = (w1, Inr result) \<and>
      successful result = Inr True \<and> sw_lib w1 = memory_new \<and>
      sqlite_fetch busy_sqlite memory_query w1 = (w2, Inr True) \<and> sw_lib w2 = memory_new"
    by (rule select_error_is_success [where rc = 5 and s = memory_new, OF query_selects])
      (simp_all add: busy_sqlite_def memory_sqlite_def memory_connection_def connection_new_def)
  then show ?thesis by force
qed


definition memory_insert_select :: statement where
  "memory_insert_select = statement_new ''copy'' ''insert into t select i from u'' Rollback"

lemma insert_select_selects: "isASelect memory_insert_select"
  by code_simp


text \<open>
  A commit that SQLite refuses when the unit of work ends is lost: \<open>unlock\<close> drops the
  exception and frees the connection with the transaction still open.  The next \<open>lock\<close> cannot
  begin another transaction and throws with the mutex held, and every \<open>lock\<close> after that one blocks:
  one busy file makes the connection useless.
\<close>

theorem busy_commit_blocks:
  assumes held: "c_mutex c" "c_lockingCounter c = 1" "\<not> c_rollbackPending c" "0 <s c_commitPending c"
    and opened: "sw_impl (c_world c) = Some h"
    and refused: "sq_exec sq (Some h) ''COMMIT;'' (sw_lib (c_world c)) = (sa, ra, Some ma)" "ra \<noteq> sq_code sq SQLITE_OK"
    and still: "sq_exec sq (Some h) ''BEGIN TRANSACTION;'' sa = (sb, rb, Some mb)" "rb \<noteq> sq_code sq SQLITE_OK"
  shows "\<exists>c1 c2. connection_unlock (sqlite_driver sq env strftime) c = Some c1 \<and> \<not> c_mutex c1 \<and>
    connection_lock (sqlite_driver sq env strftime) c1 = Some (c2, Inl (RuntimeException (c_str mb))) \<and>
    c_mutex c2 \<and> connection_lock (sqlite_driver sq env strftime) c2 = None"
  using assms
  by (simp add: connection_unlock_def Let_def finish_work_def connection_commit_def isAvailable_def sqlite_driver_def
      sqlite_commit_def sqlite_exec_def connection_lock_def acquire_def begin_work_def sqlite_beginTransaction_def
      what_def)

theorem busy_commit_blocks_witness:
  "\<exists>c1 c2. connection_unlock (sqlite_driver memory_sqlite sample_env no_strftime)
       (memory_connection\<lparr>c_mutex := True, c_lockingCounter := 1, c_commitPending := 2,
          c_world := (c_world memory_connection)\<lparr>sw_lib := memory_new\<lparr>mem_inside := True, mem_refuses := True\<rparr>\<rparr>\<rparr>)
      = Some c1 \<and>
    connection_lock (sqlite_driver memory_sqlite sample_env no_strftime) c1 =
      Some (c2, Inl (RuntimeException ''cannot start a transaction within a transaction'')) \<and>
    connection_lock (sqlite_driver memory_sqlite sample_env no_strftime) c2 = None"
proof -
  let ?m = "memory_new\<lparr>mem_inside := True, mem_refuses := True\<rparr>"
  let ?c = "memory_connection\<lparr>c_mutex := True, c_lockingCounter := 1, c_commitPending := 2,
      c_world := (c_world memory_connection)\<lparr>sw_lib := ?m\<rparr>\<rparr>"
  let ?drv = "sqlite_driver memory_sqlite sample_env no_strftime"
  have "\<exists>c1 c2. connection_unlock ?drv ?c = Some c1 \<and> \<not> c_mutex c1 \<and>
      connection_lock ?drv c1 = Some (c2, Inl (RuntimeException
        (c_str ''cannot start a transaction within a transaction''))) \<and>
      c_mutex c2 \<and> connection_lock ?drv c2 = None"
    by (rule busy_commit_blocks [where h = 1 and sa = ?m and sb = ?m and ra = 5 and rb = 1])
      (simp_all add: memory_defs word_sless_alt)
  then show ?thesis by (auto simp: c_str_def)
qed

text \<open>
  An input that SQLite refuses crashes the program: the text of the error is asked of the owner
  of the statement, which is never written.
\<close>

lemma refused_input_crashes:
  assumes "never_owned w" "bound_value strftime (sw_heap w ref) = Inr (Some v)"
    and "sq_bind sq (impl_of st w) (of_nat pos + 1) v (sw_lib w) = (s, rc)" "rc \<noteq> sq_code sq SQLITE_OK"
  shows "sw_crashed (fst (sqlite_encode sq strftime st pos ref w))"
  using assms by (simp add: sqlite_encode_def Let_def never_owned_def undefined_behaviour_def)

end
