(* ===== verification/Ldap.thy ===== *)
theory Ldap
  imports DbmsOrder DbmsWork
begin

text \<open>
  \<open>dbms.ldap\<close>: the driver on an LDAP server.  The library libldap is not part of the sources:
  its calls are the fields of \<open>ldap\<close>, over a state \<open>'l\<close> of its own.  A handle, the result of
  a search and an entry of it are numbers; \<open>None\<close> is a null pointer.  \<open>ldap_world\<close> is the state
  of the record \<open>driver\<close>: the connection, what \<open>LdapStatement\<close> adds to each statement, by
  the statement's name, and the values.  \<open>lw_crashed\<close> records undefined behaviour.  The trace,
  and with it the distinguished name that a fetch writes to it, is not modelled.
\<close>

section \<open>The library\<close>

datatype ldap_code = LDAP_SUCCESS | LDAP_NO_SUCH_OBJECT | LDAP_BUSY | LDAP_CONNECT_ERROR

record 'l ldap =
  ld_code :: "ldap_code \<Rightarrow> cint"
  ld_initialize :: "string \<Rightarrow> 'l \<Rightarrow> 'l \<times> cint \<times> nat option"
  ld_set_version :: "nat option \<Rightarrow> cint \<Rightarrow> 'l \<Rightarrow> 'l \<times> cint"
  ld_start_tls :: "nat option \<Rightarrow> 'l \<Rightarrow> 'l \<times> cint"
  ld_diagnostic :: "nat option \<Rightarrow> 'l \<Rightarrow> string option"
  ld_sasl_bind :: "nat option \<Rightarrow> string \<Rightarrow> string \<Rightarrow> 'l \<Rightarrow> 'l \<times> cint"
  ld_unbind :: "nat \<Rightarrow> 'l \<Rightarrow> 'l"
  ld_err2string :: "cint \<Rightarrow> string"
  ld_search :: "nat option \<Rightarrow> string \<Rightarrow> cint \<Rightarrow> string option \<Rightarrow> string list \<Rightarrow> bool \<Rightarrow> cint \<Rightarrow> 'l \<Rightarrow>
    'l \<times> cint \<times> nat option"
  ld_count_entries :: "nat option \<Rightarrow> nat option \<Rightarrow> 'l \<Rightarrow> cint"
  ld_msgfree :: "nat option \<Rightarrow> 'l \<Rightarrow> 'l"
  ld_first_entry :: "nat option \<Rightarrow> nat \<Rightarrow> 'l \<Rightarrow> nat option"
  ld_next_entry :: "nat option \<Rightarrow> nat \<Rightarrow> 'l \<Rightarrow> nat option"
  ld_memfree :: "nat \<Rightarrow> 'l \<Rightarrow> 'l"
  ld_get_values :: "nat option \<Rightarrow> nat option \<Rightarrow> string \<Rightarrow> 'l \<Rightarrow> string list option"
  ld_all_user_attributes :: string
  ld_version2 :: cint
  ld_version3 :: cint
  ld_scope_base :: cint
  ld_no_limit :: cint

section \<open>Parameters\<close>

text \<open>\<open>ConnectionParameters\<close> and the class derived from it.\<close>

datatype connection_parameters =
    ConnectionParameters (cp_user: string) (cp_password: string)
  | LdapConnectionParameters (cp_user: string) (cp_password: string) (cp_protocolVersion: cint) (cp_useTLS: bool)

definition ldap_parameters_new :: "'l ldap \<Rightarrow> string \<Rightarrow> string \<Rightarrow> connection_parameters" where
  "ldap_parameters_new ld user password = LdapConnectionParameters user password (ld_version3 ld) False"

fun connection_parameters_as_string :: "'l ldap \<Rightarrow> connection_parameters \<Rightarrow> string" where
  "connection_parameters_as_string ld (ConnectionParameters user password) =
     ''dbms.ConnectionParameters { User='' @ user @ '' }''"
| "connection_parameters_as_string ld (LdapConnectionParameters user password version tls) =
     ''dbms.LdapConnectionParameters { '' @ ''dbms.ConnectionParameters { User='' @ user @ '' }''
     @ '' | ProtocolVersion='' @ (if version = ld_version2 ld then ''V2'' else ''V3'')
     @ ''('' @ as_string_int version @ '')'' @ '' | UseTLS='' @ as_string_bool tls @ '' }''"

text \<open>\<open>StatementParameters\<close> and the class derived from it.\<close>

datatype statement_parameters =
    StatementParameters (sp_action: action_on_error)
  | LdapStatementParameters (sp_action: action_on_error) (sp_baseDN: string) (sp_scope: cint) (sp_attrOnly: bool)
      (sp_sizeLimit: cint)

definition ldap_statement_parameters_new :: "'l ldap \<Rightarrow> action_on_error \<Rightarrow> string \<Rightarrow> statement_parameters" where
  "ldap_statement_parameters_new ld action baseDN =
     LdapStatementParameters action baseDN (ld_scope_base ld) False (ld_no_limit ld)"

section \<open>The connection\<close>

record ldap_statement =
  ls_base :: string
  ls_scope :: cint
  ls_attrOnly :: bool
  ls_sizeLimit :: cint
  ls_handle :: "nat option"
  ls_result :: "nat option"
  ls_currentEntry :: "nat option"

record 'l ldap_world =
  lw_database :: string
  lw_user :: string
  lw_password :: string
  lw_protocolVersion :: cint
  lw_useTLS :: bool
  lw_ldapHandle :: "nat option"
  lw_statement :: "string \<Rightarrow> ldap_statement"
  lw_heap :: heap
  lw_crashed :: bool
  lw_lib :: 'l

definition ldap_interpreter :: "'l ldap \<Rightarrow> interpreter" where
  "ldap_interpreter ld =
     \<lparr>eci_notFound = (\<lambda>c. c = ld_code ld LDAP_NO_SUCH_OBJECT), eci_successful = (\<lambda>c. c = ld_code ld LDAP_SUCCESS),
      eci_locked = (\<lambda>c. c = ld_code ld LDAP_BUSY), eci_lostConnection = (\<lambda>c. c = ld_code ld LDAP_CONNECT_ERROR)\<rparr>"

definition ldap_close :: "'l ldap \<Rightarrow> 'l ldap_world \<Rightarrow> 'l ldap_world" where
  "ldap_close ld w =
     (case lw_ldapHandle w of
        None \<Rightarrow> w
      | Some h \<Rightarrow> w\<lparr>lw_lib := ld_unbind ld h (lw_lib w), lw_ldapHandle := None\<rparr>)"

definition checkResult :: "'l ldap \<Rightarrow> cint \<Rightarrow> 'l ldap_world \<Rightarrow> 'l ldap_world \<times> unit outcome" where
  "checkResult ld rc w =
     (if rc \<noteq> ld_code ld LDAP_SUCCESS then (ldap_close ld w, Inl (DatabaseException (ld_err2string ld rc)))
      else (w, Inr ()))"

text \<open>The diagnostic message that the library does not have is a null pointer.\<close>

definition ldap_startTLS :: "'l ldap \<Rightarrow> 'l ldap_world \<Rightarrow> 'l ldap_world \<times> unit outcome" where
  "ldap_startTLS ld w =
     (case ld_start_tls ld (lw_ldapHandle w) (lw_lib w) of
        (s, rc) \<Rightarrow>
          (let w1 = w\<lparr>lw_lib := s\<rparr>
           in if rc = ld_code ld LDAP_CONNECT_ERROR
              then (case ld_diagnostic ld (lw_ldapHandle w1) s of
                      None \<Rightarrow> (w1\<lparr>lw_crashed := True\<rparr>, Inl (DatabaseException []))
                    | Some msg \<Rightarrow> (w1, Inl (DatabaseException msg)))
              else checkResult ld rc w1))"

definition ldap_bind :: "'l ldap \<Rightarrow> 'l ldap_world \<Rightarrow> 'l ldap_world \<times> unit outcome" where
  "ldap_bind ld w =
     (case ld_sasl_bind ld (lw_ldapHandle w) (c_str (lw_user w)) (c_str (lw_password w)) (lw_lib w) of
        (s, rc) \<Rightarrow> checkResult ld rc (w\<lparr>lw_lib := s\<rparr>))"

definition ldap_open :: "'l ldap \<Rightarrow> 'l ldap_world \<Rightarrow> 'l ldap_world \<times> unit outcome" where
  "ldap_open ld w =
     (case ld_initialize ld (c_str (lw_database w)) (lw_lib w) of
        (s, rc, h) \<Rightarrow>
          (case checkResult ld rc (w\<lparr>lw_lib := s, lw_ldapHandle := h\<rparr>) of
             (w1, Inl e) \<Rightarrow> (w1, Inl e)
           | (w1, Inr u) \<Rightarrow>
               (case ld_set_version ld (lw_ldapHandle w1) (lw_protocolVersion w1) (lw_lib w1) of
                  (s1, rc1) \<Rightarrow>
                    (case checkResult ld rc1 (w1\<lparr>lw_lib := s1\<rparr>) of
                       (w2, Inl e) \<Rightarrow> (w2, Inl e)
                     | (w2, Inr u1) \<Rightarrow>
                         (case (if lw_useTLS w2 then ldap_startTLS ld w2 else (w2, Inr ())) of
                            (w3, Inl e) \<Rightarrow> (w3, Inl e)
                          | (w3, Inr u2) \<Rightarrow> ldap_bind ld w3)))))"

section \<open>Statements\<close>

definition ldap_statement_of :: "statement_parameters \<Rightarrow> ldap_statement allocation" where
  "ldap_statement_of p =
     (case p of
        StatementParameters action \<Rightarrow> BadCast
      | LdapStatementParameters action baseDN scope attrOnly sizeLimit \<Rightarrow>
          Allocated \<lparr>ls_base = baseDN, ls_scope = scope, ls_attrOnly = attrOnly, ls_sizeLimit = sizeLimit,
            ls_handle = None, ls_result = None, ls_currentEntry = None\<rparr>)"

definition put_statement_state :: "statement \<Rightarrow> ldap_statement \<Rightarrow> 'l ldap_world \<Rightarrow> 'l ldap_world" where
  "put_statement_state st ls w = w\<lparr>lw_statement := (lw_statement w)(st_name st := ls)\<rparr>"

text \<open>
  \<open>close\<close> frees the current entry and forgets the handle; the result stays.  An entry belongs to
  the result and is freed with the function for strings; what that does is the library's.
\<close>

definition ldap_statement_close :: "'l ldap \<Rightarrow> statement \<Rightarrow> 'l ldap_world \<Rightarrow> 'l ldap_world" where
  "ldap_statement_close ld st w =
     (let ls = lw_statement w (st_name st);
          w1 = (case ls_currentEntry ls of None \<Rightarrow> w | Some e \<Rightarrow> w\<lparr>lw_lib := ld_memfree ld e (lw_lib w)\<rparr>)
      in put_statement_state st (ls\<lparr>ls_currentEntry := None, ls_handle := None\<rparr>) w1)"

text \<open>The attributes to read are the names of the inputs; their values are never looked at.\<close>

definition search_attributes :: "'l ldap \<Rightarrow> statement \<Rightarrow> 'l ldap_world \<Rightarrow> string list" where
  "search_attributes ld st w =
     (if st_inputs st = [] then [ld_all_user_attributes ld] else map (\<lambda>ref. c_str (d_name (lw_heap w ref))) (st_inputs st))"

definition ldap_execute :: "'l ldap \<Rightarrow> statement \<Rightarrow> 'l ldap_world \<Rightarrow> 'l ldap_world \<times> result_code outcome" where
  "ldap_execute ld st w0 =
     (let w = ldap_statement_close ld st w0;
          ls = (lw_statement w (st_name st))\<lparr>ls_handle := lw_ldapHandle w\<rparr>;
          filt = (if st_expression st = [] then None else Some (c_str (st_expression st)))
      in case ld_search ld (ls_handle ls) (c_str (ls_base ls)) (ls_scope ls) filt (search_attributes ld st w)
                (ls_attrOnly ls) (ls_sizeLimit ls) (lw_lib w) of
           (s, rc, r) \<Rightarrow>
             (if rc = ld_code ld LDAP_SUCCESS \<and> ld_count_entries ld (ls_handle ls) r s = 0
              then (put_statement_state st (ls\<lparr>ls_result := None\<rparr>) (w\<lparr>lw_lib := ld_msgfree ld r s\<rparr>),
                    Inr (result_code (Some (ldap_interpreter ld)) (ld_code ld LDAP_NO_SUCH_OBJECT) []))
              else (put_statement_state st (ls\<lparr>ls_result := r\<rparr>) (w\<lparr>lw_lib := s\<rparr>),
                    Inr (result_code (Some (ldap_interpreter ld)) rc []))))"

definition ldap_fetch :: "'l ldap \<Rightarrow> statement \<Rightarrow> 'l ldap_world \<Rightarrow> 'l ldap_world \<times> bool outcome" where
  "ldap_fetch ld st w =
     (let ls = lw_statement w (st_name st)
      in case ls_result ls of
           None \<Rightarrow> (w, Inr False)
         | Some r \<Rightarrow>
             (case ls_currentEntry ls of
                None \<Rightarrow>
                  (let e = ld_first_entry ld (ls_handle ls) r (lw_lib w)
                   in (put_statement_state st (ls\<lparr>ls_currentEntry := e\<rparr>) w, Inr (e \<noteq> None)))
              | Some cur \<Rightarrow>
                  (let e = ld_next_entry ld (ls_handle ls) cur (lw_lib w)
                   in (put_statement_state st (ls\<lparr>ls_currentEntry := e\<rparr>)
                         (w\<lparr>lw_lib := ld_memfree ld cur (lw_lib w)\<rparr>), Inr (e \<noteq> None)))))"

section \<open>Binders\<close>

definition ldap_put_heap :: "nat \<Rightarrow> data \<Rightarrow> 'l ldap_world \<Rightarrow> 'l ldap_world" where
  "ldap_put_heap ref d w = w\<lparr>lw_heap := (lw_heap w)(ref := d)\<rparr>"

definition read_attribute :: "env \<Rightarrow> string list option \<Rightarrow> data \<Rightarrow> data \<times> unit outcome" where
  "read_attribute env values_of d =
     (let d1 = data_clear d
      in case values_of of
           None \<Rightarrow> (case isNull env d1 of Inl e \<Rightarrow> (d1, Inl e) | Inr d2 \<Rightarrow> (d2, Inr ()))
         | Some vs \<Rightarrow> (foldl (\<lambda>d v. multistring_add (c_str v) d) d1 vs, Inr ()))"

definition ldap_decode ::
    "'l ldap \<Rightarrow> env \<Rightarrow> statement \<Rightarrow> nat \<Rightarrow> nat \<Rightarrow> 'l ldap_world \<Rightarrow> 'l ldap_world \<times> unit outcome" where
  "ldap_decode ld env st pos ref w =
     (let ls = lw_statement w (st_name st)
      in case downcast env [TypeMultiString] (lw_heap w ref) of
           Inl e \<Rightarrow> (w, Inl e)
         | Inr d \<Rightarrow>
             (case read_attribute env (ld_get_values ld (ls_handle ls) (ls_currentEntry ls) (c_str (d_name d)) (lw_lib w)) d of
                (d1, r) \<Rightarrow> (ldap_put_heap ref d1 w, r)))"

section \<open>The driver and its database\<close>

definition ldap_driver :: "'l ldap \<Rightarrow> env \<Rightarrow> 'l ldap_world driver" where
  "ldap_driver ld env =
     \<lparr>drv_isAvailable = (\<lambda>w. lw_ldapHandle w \<noteq> None), drv_describe = (\<lambda>base w. base), drv_open = ldap_open ld,
      drv_close = ldap_close ld, drv_beginTransaction = (\<lambda>w. (w, Inr False)),
      drv_commit = (\<lambda>w. (w, Inr ())), drv_rollback = (\<lambda>w. w),
      drv_isPrepared = (\<lambda>st w. st_prepared st), drv_prepare = (\<lambda>st w. (w, Inr ())),
      drv_prepareInput = (\<lambda>st pos ref w. (w, Inr ())), drv_prepareOutput = (\<lambda>st pos ref w. (w, Inr ())),
      drv_encode = (\<lambda>st pos ref w. (w, Inr ())), drv_execute = ldap_execute ld,
      drv_fetch = ldap_fetch ld, drv_decode = ldap_decode ld env, drv_failRecovery = None\<rparr>"

definition ldap_database_new :: "'l ldap \<Rightarrow> string \<Rightarrow> 'l ldap_world database" where
  "ldap_database_new ld url =
     (database_new ''ldap'' (Some url))\<lparr>db_interpreter := Some (ldap_interpreter ld)\<rparr>"

text \<open>As in the driver for SQLite, \<open>do_stop\<close> does nothing.\<close>

definition ldap_do_stop :: "'l ldap_world database \<Rightarrow> 'l ldap_world database \<times> 'l ldap_world list" where
  "ldap_do_stop db = (db, [])"

definition ldap_allocateConnection ::
    "string \<Rightarrow> (string \<Rightarrow> ldap_statement) \<Rightarrow> heap \<Rightarrow> 'l \<Rightarrow> string \<Rightarrow> connection_parameters \<Rightarrow>
     'l ldap_world connection allocation" where
  "ldap_allocateConnection database statements h s name p =
     (case p of
        ConnectionParameters user password \<Rightarrow> BadCast
      | LdapConnectionParameters user password version tls \<Rightarrow>
          Allocated (connection_new database name user password
            \<lparr>lw_database = database, lw_user = user, lw_password = password, lw_protocolVersion = version,
             lw_useTLS = tls, lw_ldapHandle = None, lw_statement = statements, lw_heap = h, lw_crashed = False,
             lw_lib = s\<rparr>))"

definition ldap_allocateStatement :: "string \<Rightarrow> string \<Rightarrow> statement_parameters \<Rightarrow> (statement \<times> ldap_statement) allocation" where
  "ldap_allocateStatement name expression p =
     (case ldap_statement_of p of
        Allocated ls \<Rightarrow> Allocated (statement_new name expression (sp_action p), ls)
      | BadCast \<Rightarrow> BadCast | Thrown e \<Rightarrow> Thrown e)"

definition ldap_allocateInputBind :: "nat \<Rightarrow> nat option" where "ldap_allocateInputBind ref = Some ref"

definition ldap_allocateOutputBind :: "nat \<Rightarrow> nat option" where "ldap_allocateOutputBind ref = Some ref"

section \<open>Reading the entries of a search\<close>

text \<open>The loop of a client: \<open>while (guard.fetch ())\<close>, with the values it sees in each turn.\<close>

fun fetch_rows :: "nat \<Rightarrow> 'l ldap_world driver \<Rightarrow> statement \<Rightarrow> 'l ldap_world \<Rightarrow> 'l ldap_world \<times> heap list \<times> bool outcome" where
  "fetch_rows 0 drv st w = (w, [], Inr True)"
| "fetch_rows (Suc n) drv st w =
     (case statement_fetch drv st w of
        (w1, Inr True) \<Rightarrow> (case fetch_rows n drv st w1 of (w2, rows, r) \<Rightarrow> (w2, lw_heap w1 # rows, r))
      | (w1, r) \<Rightarrow> (w1, [], r))"

text \<open>What is read for the values of an attribute.\<close>

definition attribute_view :: "string list option \<Rightarrow> content option" where
  "attribute_view values_of = map_option (\<lambda>vs. MultiStringValue (map c_str vs)) values_of"

definition takes :: "data \<Rightarrow> string list option \<Rightarrow> bool" where
  "takes d values_of \<longleftrightarrow>
     wf_data d \<and> getType d = TypeMultiString \<and> (case values_of of None \<Rightarrow> d_canBeNull d | Some vs \<Rightarrow> vs \<noteq> [])"

lemma takes_same:
  "takes d v \<Longrightarrow> same_schema d e \<and> (wf_data d \<longrightarrow> wf_data e) \<Longrightarrow> takes e v \<and> d_name e = d_name d"
  by (simp add: takes_def same_schema_def split: option.splits)

lemma add_values:
  "d_content d = MultiStringValue us \<Longrightarrow> vs \<noteq> [] \<Longrightarrow>
   foldl (\<lambda>d v. multistring_add (c_str v) d) d vs = put_value (MultiStringValue (us @ map c_str vs)) d"
proof (induction vs arbitrary: d us)
  case Nil
  then show ?case by simp
next
  case (Cons v vs)
  let ?d = "put_value (MultiStringValue (us @ [c_str v])) d"
  have "multistring_add (c_str v) d = ?d" using Cons.prems(1) by (simp add: multistring_add_def)
  moreover have "put_value c ?d = put_value c d" for c by (simp add: put_value_def)
  moreover have "d_content ?d = MultiStringValue (us @ [c_str v])" by (simp add: put_value_def)
  ultimately show ?case using Cons.IH [of ?d "us @ [c_str v]"] by (cases "vs = []") simp_all
qed

lemma read_attribute_view:
  assumes "takes d values_of"
  shows "\<exists>d1. read_attribute env values_of d = (d1, Inr ()) \<and> data_view d1 = attribute_view values_of \<and>
    wf_data d1 \<and> same_schema d d1"
proof -
  have wf: "wf_data d" and ty: "getType d = TypeMultiString" using assms by (simp_all add: takes_def)
  then obtain us where us: "d_content d = MultiStringValue us" by (cases "d_content d") simp_all
  have c: "wf_data (data_clear d)" "same_schema d (data_clear d)" using wf_clear [OF wf] by simp_all
  have empty: "d_content (data_clear d) = MultiStringValue []" by (simp add: data_clear_def us)
  show ?thesis
  proof (cases values_of)
    case None
    then have "d_canBeNull (data_clear d)" using assms c(2) by (simp add: takes_def same_schema_def)
    then have n: "isNull env (data_clear d) = Inr ((data_clear d)\<lparr>d_isNull := True\<rparr>)" by (simp add: isNull_def)
    from wf_isNull [OF c(1) n] c(2) show ?thesis
      by (auto simp: None read_attribute_def n Let_def data_view_def attribute_view_def intro: same_schema_trans)
  next
    case (Some vs)
    let ?d = "put_value (MultiStringValue (map c_str vs)) (data_clear d)"
    have "read_attribute env values_of d = (?d, Inr ())"
      using assms add_values [OF empty, of vs] by (simp add: Some read_attribute_def takes_def)
    moreover have "wf_data ?d \<and> same_schema (data_clear d) ?d" by (rule wf_put [OF c(1)]) (simp_all add: empty)
    moreover have "data_view ?d = attribute_view values_of"
      by (simp add: Some attribute_view_def data_view_def put_value_def)
    ultimately show ?thesis using c(2) by (blast intro: same_schema_trans)
  qed
qed

text \<open>The outputs of one row.\<close>

definition row_holds :: "(string \<Rightarrow> string list option) \<Rightarrow> data \<Rightarrow> bool" where
  "row_holds vals d \<longleftrightarrow> data_view d = attribute_view (vals (c_str (d_name d)))"

lemma decode_row:
  assumes vals: "\<And>n. ld_get_values ld (ls_handle (lw_statement w (st_name st))) (ls_currentEntry (lw_statement w (st_name st))) n
      (lw_lib w) = vals n"
    and takes: "takes (lw_heap w ref) (vals (c_str (d_name (lw_heap w ref))))"
  shows "\<exists>d1. ldap_decode ld env st pos ref w = (ldap_put_heap ref d1 w, Inr ()) \<and> row_holds vals d1 \<and>
    wf_data d1 \<and> same_schema (lw_heap w ref) d1"
proof -
  have "downcast env [TypeMultiString] (lw_heap w ref) = Inr (lw_heap w ref)"
    using takes by (simp add: takes_def downcast_def)
  moreover from read_attribute_view [OF takes] obtain d1 where
    d1: "read_attribute env (vals (c_str (d_name (lw_heap w ref)))) (lw_heap w ref) = (d1, Inr ())"
      "data_view d1 = attribute_view (vals (c_str (d_name (lw_heap w ref))))" "wf_data d1" "same_schema (lw_heap w ref) d1"
    by blast
  moreover have "row_holds vals d1" using d1(2,4) by (simp add: row_holds_def same_schema_def)
  ultimately show ?thesis by (auto simp: ldap_decode_def vals Let_def)
qed

lemma decode_rows:
  assumes vals: "\<And>n. ld_get_values ld (ls_handle ls) (ls_currentEntry ls) n s = vals n"
  shows "lw_statement w (st_name st) = ls \<Longrightarrow> lw_lib w = s \<Longrightarrow>
    (\<forall>ref \<in> set refs. takes (lw_heap w ref) (vals (c_str (d_name (lw_heap w ref))))) \<Longrightarrow>
    \<exists>h. bind_loop (ldap_decode ld env st) pos refs w = (w\<lparr>lw_heap := h\<rparr>, Inr ()) \<and>
      (\<forall>ref. ref \<in> set refs \<or> row_holds vals (lw_heap w ref) \<longrightarrow> row_holds vals (h ref)) \<and>
      (\<forall>ref. same_schema (lw_heap w ref) (h ref) \<and> (wf_data (lw_heap w ref) \<longrightarrow> wf_data (h ref)))"
proof (induction refs arbitrary: w pos)
  case Nil
  then show ?case by (intro exI [of _ "lw_heap w"]) simp
next
  case (Cons ref refs)
  have v: "ld_get_values ld (ls_handle (lw_statement w (st_name st))) (ls_currentEntry (lw_statement w (st_name st))) n
      (lw_lib w) = vals n" for n using vals Cons.prems by simp
  from decode_row [OF v, of ref env pos] Cons.prems(3) obtain d1 where
    d: "ldap_decode ld env st pos ref w = (ldap_put_heap ref d1 w, Inr ())" and d1: "row_holds vals d1" "wf_data d1"
      "same_schema (lw_heap w ref) d1" by auto
  let ?w = "ldap_put_heap ref d1 w"
  have heap: "same_schema (lw_heap w x) (lw_heap ?w x) \<and> (wf_data (lw_heap w x) \<longrightarrow> wf_data (lw_heap ?w x))" for x
    using d1 by (simp add: ldap_put_heap_def)
  have "\<forall>x \<in> set refs. takes (lw_heap ?w x) (vals (c_str (d_name (lw_heap ?w x))))"
  proof
    fix x
    assume "x \<in> set refs"
    with Cons.prems(3) have "takes (lw_heap w x) (vals (c_str (d_name (lw_heap w x))))" by simp
    from takes_same [OF this heap [of x]] show "takes (lw_heap ?w x) (vals (c_str (d_name (lw_heap ?w x))))" by simp
  qed
  with Cons.IH [of ?w "Suc pos"] Cons.prems(1,2) obtain h where
    h: "bind_loop (ldap_decode ld env st) (Suc pos) refs ?w = (?w\<lparr>lw_heap := h\<rparr>, Inr ())"
      "\<forall>x. x \<in> set refs \<or> row_holds vals (lw_heap ?w x) \<longrightarrow> row_holds vals (h x)"
      "\<forall>x. same_schema (lw_heap ?w x) (h x) \<and> (wf_data (lw_heap ?w x) \<longrightarrow> wf_data (h x))"
    by (auto simp: ldap_put_heap_def)
  have "bind_loop (ldap_decode ld env st) pos (ref # refs) w = (w\<lparr>lw_heap := h\<rparr>, Inr ())"
    using d h(1) by (simp add: ldap_put_heap_def)
  moreover have "\<forall>x. x \<in> set (ref # refs) \<or> row_holds vals (lw_heap w x) \<longrightarrow> row_holds vals (h x)"
    using h(2) d1(1) by (auto simp: ldap_put_heap_def)
  moreover have "\<forall>x. same_schema (lw_heap w x) (h x) \<and> (wf_data (lw_heap w x) \<longrightarrow> wf_data (h x))"
    using h(3) heap by (meson same_schema_trans)
  ultimately show ?case by blast
qed

text \<open>
  What the code relies on: the entries of a result are walked through one by one, and freeing an entry
  leaves the others as they are.
\<close>

fun first_of :: "nat list \<Rightarrow> nat option" where
  "first_of [] = None"
| "first_of (e # es) = Some e"

fun entry_chain :: "'l ldap \<Rightarrow> nat option \<Rightarrow> nat list \<Rightarrow> 'l \<Rightarrow> bool" where
  "entry_chain ld h [] s = True"
| "entry_chain ld h (e # es) s = (ld_next_entry ld h e s = first_of es \<and> entry_chain ld h es s)"

definition frees_one :: "'l ldap \<Rightarrow> nat option \<Rightarrow> bool" where
  "frees_one ld h \<longleftrightarrow>
     (\<forall>e e' s n. e' \<noteq> e \<longrightarrow> ld_next_entry ld h e' (ld_memfree ld e s) = ld_next_entry ld h e' s \<and>
        ld_get_values ld h (Some e') n (ld_memfree ld e s) = ld_get_values ld h (Some e') n s)"

lemma chain_freed:
  "frees_one ld h \<Longrightarrow> e \<notin> set es \<Longrightarrow> entry_chain ld h es s \<Longrightarrow> entry_chain ld h es (ld_memfree ld e s)"
  by (induction es) (auto simp: frees_one_def)

lemma values_freed:
  "frees_one ld h \<Longrightarrow> x \<noteq> e \<Longrightarrow>
   ld_get_values ld h (Some x) n (ld_memfree ld e s) = ld_get_values ld h (Some x) n s"
  unfolding frees_one_def by blast

text \<open>Between two fetches: \<open>es\<close> are the entries that are left, \<open>vals\<close> what they hold.\<close>

definition reading ::
    "'l ldap \<Rightarrow> nat option \<Rightarrow> nat \<Rightarrow> (nat \<Rightarrow> string \<Rightarrow> string list option) \<Rightarrow> statement \<Rightarrow> nat list \<Rightarrow> 'l ldap_world \<Rightarrow> bool" where
  "reading ld h r vals st es w \<longleftrightarrow>
     (let ls = lw_statement w (st_name st)
      in ls_result ls = Some r \<and> ls_handle ls = h \<and> distinct es \<and> entry_chain ld h es (lw_lib w) \<and>
         (\<forall>e \<in> set es. \<forall>n. ld_get_values ld h (Some e) n (lw_lib w) = vals e n) \<and>
         (\<forall>e \<in> set es. \<forall>ref \<in> set (st_outputs st).
            takes (lw_heap w ref) (vals e (c_str (d_name (lw_heap w ref))))) \<and>
         (case ls_currentEntry ls of
            None \<Rightarrow> ld_first_entry ld h r (lw_lib w) = first_of es
          | Some cur \<Rightarrow> ld_next_entry ld h cur (lw_lib w) = first_of es \<and> cur \<notin> set es))"

lemma fetch_end:
  assumes "reading ld h r vals st [] w"
  shows "\<exists>w1. statement_fetch (ldap_driver ld env) st w = (w1, Inr False)"
  using assms
  by (auto simp: reading_def Let_def statement_fetch_def ldap_driver_def ldap_fetch_def split: option.splits)

text \<open>The library after a fetch has moved to the next entry.\<close>

lemma fetch_moves:
  assumes r: "reading ld h r vals st (e # es) w" and law: "frees_one ld h"
  shows "\<exists>w1. ldap_fetch ld st w = (w1, Inr True) \<and> lw_heap w1 = lw_heap w \<and>
    lw_statement w1 (st_name st) = (lw_statement w (st_name st))\<lparr>ls_currentEntry := Some e\<rparr> \<and>
    ld_next_entry ld h e (lw_lib w1) = first_of es \<and> entry_chain ld h es (lw_lib w1) \<and>
    (\<forall>x \<in> set (e # es). \<forall>n. ld_get_values ld h (Some x) n (lw_lib w1) = vals x n)"
proof (cases "ls_currentEntry (lw_statement w (st_name st))")
  case None
  with r show ?thesis by (auto simp: reading_def Let_def ldap_fetch_def put_statement_state_def)
next
  case (Some cur)
  let ?s = "ld_memfree ld cur (lw_lib w)"
  have cur: "cur \<notin> set (e # es)" and next_of: "ld_next_entry ld h cur (lw_lib w) = Some e"
    using r Some by (simp_all add: reading_def Let_def)
  have "entry_chain ld h (e # es) ?s"
    using r by (intro chain_freed [OF law cur]) (simp add: reading_def Let_def)
  moreover have "\<forall>x \<in> set (e # es). \<forall>n. ld_get_values ld h (Some x) n (lw_lib w) = vals x n"
    using r by (simp add: reading_def Let_def)
  then have "\<forall>x \<in> set (e # es). \<forall>n. ld_get_values ld h (Some x) n ?s = vals x n"
    using cur values_freed [OF law, of _ cur] by metis
  ultimately show ?thesis
    using r Some next_of by (auto simp: reading_def Let_def ldap_fetch_def put_statement_state_def)
qed

lemma fetch_one:
  assumes r: "reading ld h r vals st (e # es) w" and law: "frees_one ld h"
  shows "\<exists>w1. statement_fetch (ldap_driver ld env) st w = (w1, Inr True) \<and> reading ld h r vals st es w1 \<and>
    (\<forall>ref. same_schema (lw_heap w ref) (lw_heap w1 ref)) \<and>
    (\<forall>ref \<in> set (st_outputs st). row_holds (vals e) (lw_heap w1 ref))"
proof -
  from fetch_moves [OF r law] obtain w1 where
    f: "ldap_fetch ld st w = (w1, Inr True)" and heap: "lw_heap w1 = lw_heap w" and
    ls: "lw_statement w1 (st_name st) = (lw_statement w (st_name st))\<lparr>ls_currentEntry := Some e\<rparr>" and
    chain: "ld_next_entry ld h e (lw_lib w1) = first_of es" "entry_chain ld h es (lw_lib w1)" and
    vals: "\<forall>x \<in> set (e # es). \<forall>n. ld_get_values ld h (Some x) n (lw_lib w1) = vals x n" by blast
  have lsh: "ls_handle (lw_statement w (st_name st)) = h" "ls_result (lw_statement w (st_name st)) = Some r"
    "distinct (e # es)" using r by (simp_all add: reading_def Let_def)
  have tk: "takes (lw_heap w ref) (vals x (c_str (d_name (lw_heap w ref))))"
    if "x \<in> set (e # es)" "ref \<in> set (st_outputs st)" for x ref
    using r that by (auto simp: reading_def Let_def)
  have v: "ld_get_values ld (ls_handle (lw_statement w1 (st_name st))) (ls_currentEntry (lw_statement w1 (st_name st))) n
      (lw_lib w1) = vals e n" for n using vals lsh by (simp add: ls)
  have "\<forall>ref \<in> set (st_outputs st). takes (lw_heap w1 ref) (vals e (c_str (d_name (lw_heap w1 ref))))"
    using tk by (simp add: heap)
  from decode_rows [OF v refl refl this, of env 0] obtain hp where
    loop: "bind_loop (ldap_decode ld env st) 0 (st_outputs st) w1 = (w1\<lparr>lw_heap := hp\<rparr>, Inr ())" and
    rows: "\<forall>ref. ref \<in> set (st_outputs st) \<or> row_holds (vals e) (lw_heap w1 ref) \<longrightarrow> row_holds (vals e) (hp ref)" and
    same: "\<forall>ref. same_schema (lw_heap w1 ref) (hp ref) \<and> (wf_data (lw_heap w1 ref) \<longrightarrow> wf_data (hp ref))" by blast
  have "takes (hp ref) (vals x (c_str (d_name (hp ref))))"
    if "x \<in> set es" "ref \<in> set (st_outputs st)" for x ref
    using takes_same [OF tk, of x ref "hp ref"] that same by (simp add: heap)
  then have "reading ld h r vals st es (w1\<lparr>lw_heap := hp\<rparr>)"
    using chain vals lsh by (simp add: reading_def Let_def ls)
  moreover have "statement_fetch (ldap_driver ld env) st w = (w1\<lparr>lw_heap := hp\<rparr>, Inr True)"
    using f loop by (simp add: statement_fetch_def ldap_driver_def)
  ultimately show ?thesis using rows same by (simp add: heap)
qed

lemma fetch_rows_read:
  assumes law: "frees_one ld h"
  shows "reading ld h r vals st es w \<Longrightarrow> length es < n \<Longrightarrow>
    \<exists>w1 rows. fetch_rows n (ldap_driver ld env) st w = (w1, rows, Inr False) \<and> length rows = length es \<and>
      (\<forall>k < length es. \<forall>ref. same_schema (lw_heap w ref) ((rows ! k) ref) \<and>
         (ref \<in> set (st_outputs st) \<longrightarrow> row_holds (vals (es ! k)) ((rows ! k) ref)))"
proof (induction es arbitrary: w n)
  case Nil
  from fetch_end [OF Nil.prems(1), of env] obtain w1 where
    "statement_fetch (ldap_driver ld env) st w = (w1, Inr False)" by blast
  with Nil.prems(2) show ?case by (cases n) simp_all
next
  case (Cons e es)
  obtain m where n: "n = Suc m" "length es < m" using Cons.prems(2) by (cases n) auto
  from fetch_one [OF Cons.prems(1) law, of env] obtain w1 where
    f: "statement_fetch (ldap_driver ld env) st w = (w1, Inr True)" and r: "reading ld h r vals st es w1" and
    same: "\<forall>ref. same_schema (lw_heap w ref) (lw_heap w1 ref)" and
    row: "\<forall>ref \<in> set (st_outputs st). row_holds (vals e) (lw_heap w1 ref)" by blast
  from Cons.IH [OF r n(2)] obtain w2 rows where
    rest: "fetch_rows m (ldap_driver ld env) st w1 = (w2, rows, Inr False)" "length rows = length es"
      "\<forall>k < length es. \<forall>ref. same_schema (lw_heap w1 ref) ((rows ! k) ref) \<and>
         (ref \<in> set (st_outputs st) \<longrightarrow> row_holds (vals (es ! k)) ((rows ! k) ref))" by blast
  have "fetch_rows n (ldap_driver ld env) st w = (w2, lw_heap w1 # rows, Inr False)"
    using f rest(1) by (simp add: n)
  moreover have "same_schema (lw_heap w ref) (((lw_heap w1 # rows) ! k) ref) \<and>
      (ref \<in> set (st_outputs st) \<longrightarrow> row_holds (vals ((e # es) ! k)) (((lw_heap w1 # rows) ! k) ref))"
    if "k < length (e # es)" for k ref
    using that same row rest(3) by (cases k) (auto intro: same_schema_trans)
  ultimately show ?case using rest(2) by auto
qed


section \<open>Opening\<close>

text \<open>
  C39: When the server refuses TLS, \<open>open\<close> throws and leaves the handle behind, which is all
  that tells whether the connection is available.  The \<open>lock\<close> during which this happens
  throws; the next one finds the connection available and lets its thread work on it:
  without encryption, and without ever having bound the user.
\<close>

theorem tls_failure_leaves_connection:
  assumes closed: "lw_ldapHandle (c_world c) = None" "lw_useTLS (c_world c)" "\<not> c_mutex c" "c_lockingCounter c = 0"
    and init: "ld_initialize ld (c_str (lw_database (c_world c))) (lw_lib (c_world c)) = (s, ld_code ld LDAP_SUCCESS, Some h)"
    and version: "ld_set_version ld (Some h) (lw_protocolVersion (c_world c)) s = (t, ld_code ld LDAP_SUCCESS)"
    and tls: "ld_start_tls ld (Some h) t = (u, ld_code ld LDAP_CONNECT_ERROR)" "ld_diagnostic ld (Some h) u = Some msg"
  shows "\<exists>c1 e c2. connection_lock (ldap_driver ld env) c = Some (c1, Inl e) \<and> \<not> c_mutex c1 \<and>
    isAvailable (ldap_driver ld env) c1 \<and> lw_lib (c_world c1) = u \<and>
    connection_lock (ldap_driver ld env) c1 = Some (c2, Inr ()) \<and> lw_lib (c_world c2) = u"
  using assms
  by (simp add: connection_lock_def isAvailable_def recover_def notifyRecoveryFail_def ldap_driver_def ldap_close_def
      ldap_open_def checkResult_def ldap_startTLS_def Let_def acquire_def begin_work_def)

text \<open>Every other failure leaves no handle.\<close>

lemma open_fails_closed:
  assumes o: "ldap_open ld w = (w1, Inl e)" and no_tls: "\<not> lw_useTLS w \<or> (\<forall>h s. snd (ld_start_tls ld h s) \<noteq> ld_code ld LDAP_CONNECT_ERROR)"
  shows "lw_ldapHandle w1 = None"
proof -
  have c: "lw_ldapHandle x1 = None" if "checkResult ld rc x = (x1, Inl e)" for x x1 rc
    using that by (auto simp: checkResult_def ldap_close_def split: if_splits option.splits)
  have k: "x1 = x" if "checkResult ld rc x = (x1, Inr u)" for x x1 rc and u :: unit
    using that by (auto simp: checkResult_def split: if_splits)
  have t: "lw_ldapHandle x1 = None" if "ldap_startTLS ld x = (x1, Inl e)" "lw_useTLS w" for x x1
    using that no_tls c by (auto simp: ldap_startTLS_def Let_def split: prod.splits if_splits option.splits) 
      (metis snd_conv)+
  show ?thesis
    using o c k t
    by (auto simp: ldap_open_def ldap_bind_def split: prod.splits sum.splits if_splits dest!: k)
qed

section \<open>A directory to evaluate with\<close>

text \<open>Two entries, the first of which has no telephone; the server does not speak TLS.\<close>

fun directory_code :: "ldap_code \<Rightarrow> cint" where
  "directory_code LDAP_SUCCESS = 0"
| "directory_code LDAP_NO_SUCH_OBJECT = 32"
| "directory_code LDAP_BUSY = 51"
| "directory_code LDAP_CONNECT_ERROR = -11"

definition directory_values :: "nat option \<Rightarrow> string \<Rightarrow> string list option" where
  "directory_values e n =
     (if n = ''cn'' then (if e = Some 0 then Some [''Euler''] else Some [''Gauss'', ''Carl''])
      else if e = Some 1 then Some [''42''] else None)"

definition directory_ldap :: "unit ldap" where
  "directory_ldap =
     \<lparr>ld_code = directory_code, ld_initialize = (\<lambda>url s. (s, 0, Some 1)), ld_set_version = (\<lambda>h v s. (s, 0)),
      ld_start_tls = (\<lambda>h s. (s, -11)), ld_diagnostic = (\<lambda>h s. Some ''no tls''), ld_sasl_bind = (\<lambda>h u p s. (s, 0)),
      ld_unbind = (\<lambda>h s. s), ld_err2string = (\<lambda>rc. ''error''),
      ld_search = (\<lambda>h base scope filt attrs only limit s. (s, 0, Some 9)),
      ld_count_entries = (\<lambda>h r s. 2), ld_msgfree = (\<lambda>r s. s), ld_first_entry = (\<lambda>h r s. Some 0),
      ld_next_entry = (\<lambda>h e s. if e = 0 then Some 1 else None), ld_memfree = (\<lambda>e s. s),
      ld_get_values = (\<lambda>h e n s. directory_values e n), ld_all_user_attributes = ''*'', ld_version2 = 2,
      ld_version3 = 3, ld_scope_base = 0, ld_no_limit = 0\<rparr>"

definition directory_statement :: ldap_statement where
  "directory_statement = \<lparr>ls_base = ''dc=example'', ls_scope = 2, ls_attrOnly = False, ls_sizeLimit = 0,
     ls_handle = None, ls_result = None, ls_currentEntry = None\<rparr>"

definition directory_world :: "bool \<Rightarrow> nat option \<Rightarrow> unit ldap_world" where
  "directory_world tls h =
     \<lparr>lw_database = ''ldap://x'', lw_user = ''u'', lw_password = ''p'', lw_protocolVersion = 3, lw_useTLS = tls,
      lw_ldapHandle = h, lw_statement = (\<lambda>n. directory_statement),
      lw_heap = (\<lambda>ref. if ref = 0 then multistring_new ''cn'' False else multistring_new ''tel'' True),
      lw_crashed = False, lw_lib = ()\<rparr>"

definition persons :: statement where
  "persons = (statement_new ''persons'' ''objectClass=person'' Ignore)\<lparr>st_outputs := [0, 1]\<rparr>"

lemmas directory_defs = directory_ldap_def directory_world_def directory_statement_def directory_values_def
  persons_def statement_new_def


theorem tls_failure_leaves_connection_witness:
  "\<exists>c1 c2. connection_lock (ldap_driver directory_ldap sample_env)
      (connection_new ''ldap://x'' ''c'' ''u'' ''p'' (directory_world True None)) = Some (c1, Inl (RuntimeException
        (described_as (ldap_driver directory_ldap sample_env) c1 @ '' | Connection is not available''))) \<and>
    connection_lock (ldap_driver directory_ldap sample_env) c1 = Some (c2, Inr ())"
proof -
  let ?c = "connection_new ''ldap://x'' ''c'' ''u'' ''p'' (directory_world True None)"
  let ?drv = "ldap_driver directory_ldap sample_env"
  have "\<exists>c1 e c2. connection_lock ?drv ?c = Some (c1, Inl e) \<and> \<not> c_mutex c1 \<and>
      isAvailable ?drv c1 \<and> lw_lib (c_world c1) = () \<and>
      connection_lock ?drv c1 = Some (c2, Inr ()) \<and> lw_lib (c_world c2) = ()"
    by (rule tls_failure_leaves_connection [where h = 1 and msg = "''no tls''"])
      (simp_all add: connection_new_def directory_defs)
  moreover have "e = RuntimeException (described_as ?drv c1 @ '' | Connection is not available'')"
    if "connection_lock ?drv ?c = Some (c1, Inl e)" for c1 e
    using that by (auto simp: connection_lock_def acquire_def begin_work_def ldap_driver_def Let_def
        split: if_splits option.splits bool.splits)
  ultimately show ?thesis by blast
qed

end
