(* ===== verification/XmlDocument.thy ===== *)
theory XmlDocument
  imports XmlNode
begin

text \<open>
  \<open>xml/Document\<close>, \<open>xml/Compiler\<close> and \<open>xml/DTD\<close>: documents that are parsed into the tree of
  \<open>XmlNode\<close>, validated, and written.

  libxml and the file system are the parameter \<open>libxml\<close> over a world \<open>'x\<close>; the document libxml
  builds is an \<open>xml_doc\<close> with its nodes as \<open>dom\<close>, of which the code reads the kind, the name, the
  attributes and the content.  A compiler writes the calls of \<open>XmlNode\<close>, which libxml renders as a
  text; that libxml runs out of memory while it writes is not modelled.  \<open>None\<close> as the result
  of an operation is undefined behaviour.
\<close>

section \<open>The library\<close>

text \<open>An attribute without content has no children.  \<open>OtherNode\<close> is a comment, an entity or the like.\<close>

datatype dom =
    Element string "(string \<times> string option) list" "dom list"
  | TextNode string
  | OtherNode

record xml_doc =
  xd_url :: "string option"
  xd_version :: string
  xd_encoding :: "string option"
  xd_name :: string
  xd_properties :: "(string \<times> string option) list"
  xd_nodes :: "dom list"

text \<open>What is written: the document's start, the calls of its root, and the end.\<close>

datatype document_call =
    StartDocument string "string option"
  | WriterCall writer_call
  | EndDocument

record ('x, 'd) libxml =
  lx_exists :: "string \<Rightarrow> 'x \<Rightarrow> bool"
  lx_readable :: "string \<Rightarrow> 'x \<Rightarrow> bool"
  lx_parse_file :: "string \<Rightarrow> 'x \<Rightarrow> xml_doc option"
  lx_parse_memory :: "string \<Rightarrow> xml_doc option"
  lx_parse_dtd :: "string \<Rightarrow> 'x \<Rightarrow> 'd option"
  lx_validate :: "xml_doc \<Rightarrow> 'd \<Rightarrow> bool \<times> string list"
  lx_mkstemp :: "'x \<Rightarrow> 'x \<times> string option"
  lx_write_file :: "string \<Rightarrow> string \<Rightarrow> 'x \<Rightarrow> 'x"
  lx_remove :: "string \<Rightarrow> 'x \<Rightarrow> 'x"
  lx_latin1 :: "string \<Rightarrow> string"
  lx_encoder :: "string \<Rightarrow> (string \<Rightarrow> string option) option"
  lx_render :: "document_call list \<Rightarrow> string"

section \<open>Extracting the tree\<close>

definition set_text :: "(string \<Rightarrow> string) \<Rightarrow> string \<Rightarrow> xml_node \<Rightarrow> xml_node" where
  "set_text latin1 s n = XmlNode (node_name n) (node_attributes n) (Some (latin1 s)) (node_children n)"

text \<open>A name that is there already ends the extraction.\<close>

fun extract_attributes :: "(string \<times> string option) list \<Rightarrow> xml_node \<Rightarrow> xml_node \<times> unit outcome" where
  "extract_attributes [] n = (n, Inr ())"
| "extract_attributes ((name, content) # ps) n =
     (case add_attribute (name, case content of None \<Rightarrow> '''' | Some v \<Rightarrow> v) n of
        Inl e \<Rightarrow> (n, Inl e)
      | Inr m \<Rightarrow> extract_attributes ps m)"

fun extract_nodes :: "(string \<Rightarrow> string) \<Rightarrow> dom list \<Rightarrow> xml_node \<Rightarrow> xml_node \<times> unit outcome" where
  "extract_nodes latin1 [] n = (n, Inr ())"
| "extract_nodes latin1 (Element name ps cs # ds) n =
     (case extract_nodes latin1 cs (new_node name) of
        (m, Inl e) \<Rightarrow> (add_child m n, Inl e)
      | (m, Inr u) \<Rightarrow>
          (case extract_attributes ps m of
             (m1, Inl e) \<Rightarrow> (add_child m1 n, Inl e)
           | (m1, Inr v) \<Rightarrow> extract_nodes latin1 ds (add_child m1 n)))"
| "extract_nodes latin1 (TextNode s # ds) n = extract_nodes latin1 ds (set_text latin1 s n)"
| "extract_nodes latin1 (OtherNode # ds) n = extract_nodes latin1 ds n"

section \<open>Documents\<close>

text \<open>
  The nodes of \<open>do_root\<close> point into the document they were extracted from; \<open>do_dangling\<close> says that
  it has been freed since.
\<close>

record xml_document =
  do_handler :: "xml_doc option"
  do_root :: "xml_node option"
  do_dangling :: bool

definition WithoutName :: string where "WithoutName = ''no-name''"

definition document_new :: xml_document where
  "document_new = \<lparr>do_handler = None, do_root = None, do_dangling = False\<rparr>"

definition document_name :: "xml_document \<Rightarrow> string" where
  "document_name d =
     (case do_handler d of
        None \<Rightarrow> WithoutName
      | Some x \<Rightarrow> (case xd_url x of None \<Rightarrow> WithoutName | Some url \<Rightarrow> url))"

definition document_release :: "xml_document \<Rightarrow> xml_document" where
  "document_release d =
     (case do_handler d of
        None \<Rightarrow> d
      | Some x \<Rightarrow> d\<lparr>do_handler := None, do_dangling := (do_root d \<noteq> None)\<rparr>)"

definition extract_root :: "(string \<Rightarrow> string) \<Rightarrow> xml_doc \<Rightarrow> xml_document \<Rightarrow> xml_document \<times> unit outcome" where
  "extract_root latin1 x d =
     (case extract_nodes latin1 (xd_nodes x) (new_node (xd_name x)) of
        (n, Inl e) \<Rightarrow> (d\<lparr>do_root := Some n, do_dangling := False\<rparr>, Inl e)
      | (n, Inr u) \<Rightarrow>
          (case extract_attributes (xd_properties x) n of
             (n1, r) \<Rightarrow> (d\<lparr>do_root := Some n1, do_dangling := False\<rparr>, r)))"

definition parseFile :: "('x, 'd) libxml \<Rightarrow> string \<Rightarrow> 'x \<Rightarrow> xml_document \<Rightarrow> xml_document \<times> unit outcome" where
  "parseFile lx file w d =
     (if \<not> lx_exists lx file w
      then (d, Inl (RuntimeException (''File '' @ quote @ file @ quote @ '' does not exist'')))
      else case lx_parse_file lx file w of
             None \<Rightarrow> (d\<lparr>do_handler := None\<rparr>, Inl (RuntimeException
                        (''Some errors were found while parsing filename '' @ quote @ file @ quote)))
           | Some x \<Rightarrow> (d\<lparr>do_handler := Some x\<rparr>, Inr ()))"

text \<open>The text of the exception dumps the buffer, which a long buffer does not survive.\<close>

definition parseMemory :: "('x, 'd) libxml \<Rightarrow> string \<Rightarrow> xml_document \<Rightarrow> (xml_document \<times> unit outcome) option" where
  "parseMemory lx buffer d =
     (case lx_parse_memory lx buffer of
        None \<Rightarrow>
          map_option (\<lambda>dump. (d\<lparr>do_handler := None\<rparr>, Inl (RuntimeException
              (''Some errors were found while parsing memory: '' @ dump))))
            (as_string_datablock 16 buffer)
      | Some x \<Rightarrow> Some (d\<lparr>do_handler := Some x\<rparr>, Inr ()))"

section \<open>Validating\<close>

definition dtd_initialize :: "('x, 'd) libxml \<Rightarrow> string \<Rightarrow> 'x \<Rightarrow> 'd option \<Rightarrow> 'd option \<times> unit outcome" where
  "dtd_initialize lx filename w dtd =
     (if \<not> lx_readable lx filename w then (dtd, Inl (RuntimeException (''Could not open to read '' @ filename)))
      else case lx_parse_dtd lx filename w of
             None \<Rightarrow> (dtd, Inl (RuntimeException (filename @ '' does not contains a valid DTD'')))
           | Some x \<Rightarrow> (Some x, Inr ()))"

text \<open>A buffer goes through a temporary file, which is removed in any case.\<close>

definition dtd_initialize_buffer ::
    "('x, 'd) libxml \<Rightarrow> string \<Rightarrow> 'x \<Rightarrow> 'd option \<Rightarrow> 'x \<times> 'd option \<times> unit outcome" where
  "dtd_initialize_buffer lx buffer w dtd =
     (case lx_mkstemp lx w of
        (w1, None) \<Rightarrow> (w1, dtd, Inl (RuntimeException ''Can not use temporary file /tmp/coffee_dtd.XXXXXX''))
      | (w1, Some filename) \<Rightarrow>
          (let w2 = lx_write_file lx filename buffer w1
           in case dtd_initialize lx filename w2 dtd of (dtd1, r) \<Rightarrow> (lx_remove lx filename w2, dtd1, r)))"

text \<open>The messages of the validation are printed into 1024 bytes.\<close>

definition dtd_validate :: "('x, 'd) libxml \<Rightarrow> xml_document \<Rightarrow> 'd option \<Rightarrow> unit outcome option" where
  "dtd_validate lx d dtd =
     (case (dtd, do_handler d) of
        (None, h) \<Rightarrow> Some (Inl (RuntimeException ''Method xml::DTD::initialize was not called''))
      | (Some t, None) \<Rightarrow> None
      | (Some t, Some x) \<Rightarrow>
          (case lx_validate lx x t of
             (valid, messages) \<Rightarrow>
               if \<exists>m \<in> set messages. 1024 \<le> length m then None
               else if \<not> valid
               then Some (Inl (RuntimeException (''Document '' @ document_name d @ '' does not match with DTD '')))
               else Some (Inr ())))"

text \<open>The four overloads of \<open>parse\<close>.\<close>

datatype xml_source = SourceFile string | SourceMemory string

definition read_source ::
    "('x, 'd) libxml \<Rightarrow> xml_source \<Rightarrow> 'x \<Rightarrow> xml_document \<Rightarrow> (xml_document \<times> unit outcome) option" where
  "read_source lx src w d =
     (case src of SourceFile file \<Rightarrow> Some (parseFile lx file w d) | SourceMemory buffer \<Rightarrow> parseMemory lx buffer d)"

definition extract_current :: "('x, 'd) libxml \<Rightarrow> xml_document \<Rightarrow> (xml_document \<times> unit outcome) option" where
  "extract_current lx d = map_option (\<lambda>x. extract_root (lx_latin1 lx) x d) (do_handler d)"

definition parse_document ::
    "('x, 'd) libxml \<Rightarrow> xml_source \<Rightarrow> 'x \<Rightarrow> xml_document \<Rightarrow> (xml_document \<times> unit outcome) option" where
  "parse_document lx src w d =
     (case read_source lx src w (document_release d) of
        None \<Rightarrow> None
      | Some (d1, Inl e) \<Rightarrow> Some (d1, Inl e)
      | Some (d1, Inr u) \<Rightarrow> extract_current lx d1)"

definition parse_validated ::
    "('x, 'd) libxml \<Rightarrow> xml_source \<Rightarrow> 'd option \<Rightarrow> 'x \<Rightarrow> xml_document \<Rightarrow> (xml_document \<times> unit outcome) option" where
  "parse_validated lx src dtd w d =
     (case read_source lx src w (document_release d) of
        None \<Rightarrow> None
      | Some (d1, Inl e) \<Rightarrow> Some (d1, Inl e)
      | Some (d1, Inr u) \<Rightarrow>
          (case dtd_validate lx d1 dtd of
             None \<Rightarrow> None
           | Some (Inl e) \<Rightarrow> Some (d1, Inl e)
           | Some (Inr v) \<Rightarrow> extract_current lx d1))"

text \<open>The line written to the trace for an error of libxml: its message without the first line feed.\<close>

definition logError :: "string \<Rightarrow> string option \<Rightarrow> cint \<Rightarrow> string" where
  "logError msg file line =
     remove1 LF msg
     @ (case file of None \<Rightarrow> '''' | Some f \<Rightarrow> '' in file='' @ quote @ f @ quote @ '' Line='' @ as_string_int line)"

section \<open>The compiler\<close>

definition isascii :: "char \<Rightarrow> bool" where "isascii c = (of_char c < (128 :: nat))"

text \<open>A text with other than ASCII characters is converted to the encoding of the document.\<close>

definition encode_text :: "('x, 'd) libxml \<Rightarrow> string option \<Rightarrow> string \<Rightarrow> string outcome" where
  "encode_text lx encoding s =
     (case encoding of
        None \<Rightarrow> Inr s
      | Some enc \<Rightarrow>
          if list_all isascii s then Inr s
          else case lx_encoder lx enc of
                 None \<Rightarrow> Inl (RuntimeException (''Encoding '' @ quote @ enc @ quote @ '' was not found''))
               | Some input \<Rightarrow>
                   (case input s of
                      None \<Rightarrow> Inl (RuntimeException (''Can not encoding '' @ quote @ s @ ''applying '' @ quote @ enc @ quote))
                    | Some t \<Rightarrow> Inr (c_str t)))"

fun compile_attributes :: "('x, 'd) libxml \<Rightarrow> string option \<Rightarrow> attribute list \<Rightarrow> writer_call list outcome" where
  "compile_attributes lx encoding [] = Inr []"
| "compile_attributes lx encoding (a # as) =
     (case encode_text lx encoding (c_str (attribute_value (lx_latin1 lx) a)) of
        Inl e \<Rightarrow> Inl e
      | Inr v \<Rightarrow>
          (case compile_attributes lx encoding as of
             Inl e \<Rightarrow> Inl e | Inr ws \<Rightarrow> Inr (WriteAttribute (c_str (fst a)) v # ws)))"

fun compile_node :: "('x, 'd) libxml \<Rightarrow> string option \<Rightarrow> xml_node \<Rightarrow> writer_call list outcome"
  and compile_nodes :: "('x, 'd) libxml \<Rightarrow> string option \<Rightarrow> xml_node list \<Rightarrow> writer_call list outcome" where
  "compile_node lx encoding (XmlNode name as t cs) =
     (case t of
        Some text_of \<Rightarrow>
          (case encode_text lx encoding (c_str text_of) of
             Inl e \<Rightarrow> Inl e | Inr s \<Rightarrow> Inr [WriteElement name s])
      | None \<Rightarrow>
          (case compile_attributes lx encoding as of
             Inl e \<Rightarrow> Inl e
           | Inr was \<Rightarrow>
               (case compile_nodes lx encoding cs of
                  Inl e \<Rightarrow> Inl e | Inr wcs \<Rightarrow> Inr (StartElement name # was @ wcs @ [EndElement]))))"
| "compile_nodes lx encoding [] = Inr []"
| "compile_nodes lx encoding (c # cs) =
     (case compile_node lx encoding c of
        Inl e \<Rightarrow> Inl e
      | Inr ws \<Rightarrow> (case compile_nodes lx encoding cs of Inl e \<Rightarrow> Inl e | Inr vs \<Rightarrow> Inr (ws @ vs)))"

text \<open>A compiler keeps the encoding of the last document it was applied to.\<close>

record xml_compiler =
  cm_encoding :: "string option"

definition compiler_new :: xml_compiler where "compiler_new = \<lparr>cm_encoding = None\<rparr>"

definition document_calls :: "xml_doc \<Rightarrow> writer_call list \<Rightarrow> document_call list" where
  "document_calls x ws = StartDocument (xd_version x) (xd_encoding x) # map WriterCall ws @ [EndDocument]"

definition compile_document :: "('x, 'd) libxml \<Rightarrow> string option \<Rightarrow> xml_doc \<Rightarrow> xml_node option \<Rightarrow> document_call list outcome" where
  "compile_document lx encoding x root =
     (case root of
        None \<Rightarrow> Inr (document_calls x [])
      | Some n \<Rightarrow>
          (case compile_node lx encoding n of Inl e \<Rightarrow> Inl e | Inr ws \<Rightarrow> Inr (document_calls x ws)))"

definition apply_document ::
    "('x, 'd) libxml \<Rightarrow> xml_document \<Rightarrow> xml_compiler \<Rightarrow> (xml_compiler \<times> string outcome) option" where
  "apply_document lx d c =
     (case do_handler d of
        None \<Rightarrow> None
      | Some x \<Rightarrow>
          (let c1 = c\<lparr>cm_encoding := xd_encoding x\<rparr>
           in if do_root d \<noteq> None \<and> do_dangling d then None
              else case compile_document lx (cm_encoding c1) x (do_root d) of
                     Inl e \<Rightarrow> Some (c1, Inl e)
                   | Inr calls \<Rightarrow> Some (c1, Inr (c_str (lx_render lx calls)))))"

definition apply_node :: "('x, 'd) libxml \<Rightarrow> xml_node \<Rightarrow> xml_compiler \<Rightarrow> xml_compiler \<times> string outcome" where
  "apply_node lx n c =
     (case compile_node lx (cm_encoding c) n of
        Inl e \<Rightarrow> (c, Inl e)
      | Inr ws \<Rightarrow> (c, Inr (c_str (lx_render lx (map WriterCall ws)))))"

section \<open>The document of a tree\<close>

text \<open>Plain trees: ASCII throughout, the attributes in order, the texts in leaves of their own and not empty.\<close>

definition clean :: "string \<Rightarrow> bool" where
  "clean s \<longleftrightarrow> list_all isascii s \<and> NUL \<notin> set s"

fun plain :: "xml_node \<Rightarrow> bool" where
  "plain (XmlNode name as t cs) =
     (clean name \<and> list_all (\<lambda>a. clean (fst a) \<and> clean (snd a)) as \<and> sorted_attributes as \<and>
      (case t of None \<Rightarrow> True | Some s \<Rightarrow> s \<noteq> '''' \<and> clean s \<and> as = [] \<and> cs = []) \<and> list_all plain cs)"

text \<open>What the parser makes of the written tree; an empty attribute has no content.\<close>

fun dom_of :: "xml_node \<Rightarrow> dom" where
  "dom_of (XmlNode name as t cs) =
     (case t of
        Some s \<Rightarrow> Element name [] [TextNode s]
      | None \<Rightarrow> Element name (map (\<lambda>a. (fst a, if snd a = '''' then None else Some (snd a))) as) (map dom_of cs))"

lemma insort_last:
  "\<forall>b \<in> set as. bytes_cmp (fst b) (fst a) < 0 \<Longrightarrow> insort_attribute a as = as @ [a]"
proof (induction as)
  case Nil
  then show ?case by simp
next
  case (Cons b as)
  then have "\<not> bytes_cmp (fst a) (fst b) < 0"
    using bytes_cmp_antisym [of "fst b" "fst a"] by auto
  with Cons show ?case by simp
qed

lemma extract_sorted:
  "sorted_attributes (as @ bs) \<Longrightarrow>
   extract_attributes (map (\<lambda>a. (fst a, if snd a = '''' then None else Some (snd a))) bs) (XmlNode name as t cs) =
     (XmlNode name (as @ bs) t cs, Inr ())"
proof (induction bs arbitrary: as)
  case Nil
  then show ?case by simp
next
  case (Cons b bs)
  have before: "\<forall>a \<in> set as. bytes_cmp (fst a) (fst b) < 0"
    using Cons.prems by (simp add: sorted_attributes_def sorted_wrt_append)
  then have "fst b \<notin> fst ` set as" using bytes_cmp_0 [of "fst b" "fst b"] by force
  with insort_last [OF before] have "add_attribute (fst b, case if snd b = '''' then None else Some (snd b) of
      None \<Rightarrow> '''' | Some v \<Rightarrow> v) (XmlNode name as t cs) = Inr (XmlNode name (as @ [b]) t cs)"
    by (cases b) (auto simp: add_attribute_def)
  with Cons.IH [of "as @ [b]"] Cons.prems show ?case by simp
qed

lemma extract_plain:
  assumes latin1: "\<And>s. list_all isascii s \<Longrightarrow> latin1 s = s"
  shows "list_all plain ns \<Longrightarrow>
    extract_nodes latin1 (map dom_of ns) (XmlNode name as t cs) = (XmlNode name as t (cs @ ns), Inr ())"
proof (induction ns arbitrary: name as t cs rule: read_fuel.induct)
  case 1
  then show ?case by simp
next
  case (2 nm bs u ds ns)
  have p: "clean nm" "sorted_attributes bs" "list_all plain ds" "list_all plain ns" using "2.prems" by simp_all
  have new: "new_node nm = XmlNode nm [] None []" using p(1) by (simp add: new_node_def clean_def)
  show ?case
  proof (cases u)
    case None
    with "2.IH"(1) [OF p(3)] "2.IH"(2) [OF p(4)] extract_sorted [of "[]" bs] p(2) show ?thesis by (simp add: new)
  next
    case (Some s)
    then have s: "list_all isascii s" "bs = []" "ds = []" using "2.prems" by (simp_all add: clean_def)
    with "2.IH"(2) [OF p(4)] Some show ?thesis by (simp add: new set_text_def latin1)
  qed
qed

lemma encode_clean [simp]: "clean s \<Longrightarrow> encode_text lx encoding s = Inr s"
  by (simp add: encode_text_def clean_def split: option.split)

lemma compile_plain:
  assumes latin1: "\<And>s. list_all isascii s \<Longrightarrow> lx_latin1 lx s = s"
  shows "list_all plain ns \<Longrightarrow> compile_nodes lx encoding ns = Inr (compile_all (\<lambda>s. s) (\<lambda>s. s) ns)"
proof (induction ns rule: read_fuel.induct)
  case 1
  then show ?case by simp
next
  case (2 name as t cs ns)
  have as: "compile_attributes lx encoding bs = Inr (map (\<lambda>a. WriteAttribute (fst a) (snd a)) bs)"
    if "list_all (\<lambda>a. clean (fst a) \<and> clean (snd a)) bs" for bs
    using that by (induction bs) (auto simp: attribute_value_def latin1 clean_def encode_text_def split: option.split)
  show ?case
  proof (cases t)
    case None
    with 2 as [of as] show ?thesis by (simp add: attribute_value_def)
  next
    case (Some s)
    then have "clean s" "c_str s = s" using "2.prems" by (simp_all add: clean_def)
    with Some 2 show ?thesis by simp
  qed
qed

lemma compile_node_plain:
  assumes "\<And>s. list_all isascii s \<Longrightarrow> lx_latin1 lx s = s" "plain n"
  shows "compile_node lx encoding n = Inr (compile (\<lambda>s. s) (\<lambda>s. s) n)"
proof -
  have "compile_nodes lx encoding [n] = Inr (compile_all (\<lambda>s. s) (\<lambda>s. s) [n])"
    by (rule compile_plain) (simp_all add: assms)
  then show ?thesis by (auto split: sum.splits)
qed

lemma extract_root_plain:
  assumes latin1: "\<And>s. list_all isascii s \<Longrightarrow> latin1 s = s" and plain: "plain n"
    and y: "Element (xd_name y) (xd_properties y) (xd_nodes y) = dom_of n"
  shows "extract_root latin1 y d = (d\<lparr>do_root := Some n, do_dangling := False\<rparr>, Inr ())"
proof -
  obtain name as t cs where n: "n = XmlNode name as t cs" by (cases n)
  have new: "new_node name = XmlNode name [] None []" using plain by (simp add: n new_node_def clean_def)
  have p: "sorted_attributes as" "list_all plain cs" using plain by (simp_all add: n)
  show ?thesis
  proof (cases t)
    case None
    then have z: "xd_name y = name" "xd_nodes y = map dom_of cs"
      "xd_properties y = map (\<lambda>a. (fst a, if snd a = '''' then None else Some (snd a))) as"
      using y by (simp_all add: n)
    show ?thesis
      unfolding extract_root_def z new
      using extract_plain [OF latin1 p(2), of name "[]" None "[]"] extract_sorted [of "[]" as name None cs] p(1)
      by (simp add: n None)
  next
    case (Some s)
    then have "xd_name y = name" "xd_nodes y = [TextNode s]" "xd_properties y = []" "as = []" "cs = []" "list_all isascii s"
      using y plain by (simp_all add: n clean_def)
    then show ?thesis by (simp add: extract_root_def new set_text_def latin1 n Some)
  qed
qed


section \<open>A text between the children\<close>

fun is_element :: "dom \<Rightarrow> bool" where
  "is_element (Element name ps cs) = True"
| "is_element d = False"

lemma extract_text:
  "extract_nodes latin1 ds n = (m, Inr ()) \<Longrightarrow>
   (node_text n \<noteq> None \<or> (\<exists>s. TextNode s \<in> set ds) \<longrightarrow> node_text m \<noteq> None) \<and>
   length (node_children m) = length (node_children n) + length (filter is_element ds)"
proof (induction ds arbitrary: n)
  case Nil
  then show ?case by simp
next
  case (Cons d ds)
  have add: "node_text (add_child k n) = node_text n \<and> length (node_children (add_child k n)) = Suc (length (node_children n))"
    for k by (cases n) simp
  show ?case
  proof (cases d)
    case (Element name ps cs)
    with Cons.prems obtain k where k: "extract_nodes latin1 ds (add_child k n) = (m, Inr ())"
      by (auto split: prod.splits sum.splits)
    with Cons.IH [OF k] add [of k] show ?thesis by (auto simp: Element)
  next
    case (TextNode s)
    with Cons.prems Cons.IH [of "set_text latin1 s n"] show ?thesis by (simp add: set_text_def)
  next
    case OtherNode
    with Cons.prems Cons.IH [of n] show ?thesis by simp
  qed
qed

lemma extract_attributes_keeps:
  "extract_attributes ps n = (m, r) \<Longrightarrow>
   node_name m = node_name n \<and> node_text m = node_text n \<and> node_children m = node_children n"
proof (induction ps arbitrary: n)
  case Nil
  then show ?case by simp
next
  case (Cons p ps)
  then show ?case by (cases p) (auto simp: add_attribute_def split: if_splits)
qed

text \<open>
  An element that has a text beside its children, be it the white space of an indented
  document, is written without its children and attributes: the parser takes the text for the
  content of the element, and the compiler writes an element with content as that content only.
\<close>

theorem indented_document_loses_children:
  assumes doc: "do_handler d = Some x" and parsed: "extract_current lx d = Some (d1, Inr ())"
    and text_node: "TextNode s \<in> set (xd_nodes x)"
    and encodes: "\<And>t. \<exists>v. encode_text lx (xd_encoding x) t = Inr v"
  shows "\<exists>n v. do_root d1 = Some n \<and> length (node_children n) = length (filter is_element (xd_nodes x)) \<and>
    compile_node lx (xd_encoding x) n = Inr [WriteElement (node_name n) v]"
proof -
  from doc parsed obtain m n where
    m: "extract_nodes (lx_latin1 lx) (xd_nodes x) (new_node (xd_name x)) = (m, Inr ())" and
    n: "extract_attributes (xd_properties x) m = (n, Inr ())" "do_root d1 = Some n"
    by (auto simp: extract_current_def extract_root_def split: prod.splits sum.splits)
  from extract_text [OF m] text_node extract_attributes_keeps [OF n(1)]
  have k: "node_text n \<noteq> None" "length (node_children n) = length (filter is_element (xd_nodes x))"
    by (auto simp: new_node_def)
  then obtain t where t: "node_text n = Some t" by blast
  from encodes [of "c_str t"] obtain v where "encode_text lx (xd_encoding x) (c_str t) = Inr v" by blast
  with t have "compile_node lx (xd_encoding x) n = Inr [WriteElement (node_name n) v]" by (cases n) simp
  with n(2) k(2) show ?thesis by blast
qed

text \<open>
  A document that was parsed and is then parsed again with a document type it does not match keeps the
  tree of the first document, whose nodes were freed: compiling it is undefined.
\<close>

lemma failed_validation_dangles:
  assumes "do_handler d = Some x" "do_root d = Some n"
    and "read_source lx src w (document_release d) = Some (d1, Inr ())" "do_handler d1 = Some y"
    and "lx_validate lx y t = (False, [])"
  shows "\<exists>d2 e. parse_validated lx src (Some t) w d = Some (d2, Inl e) \<and> apply_document lx d2 c = None"
proof -
  have "do_root d1 = Some n \<and> do_dangling d1"
    using assms(1-3)
    by (auto simp: read_source_def parseFile_def parseMemory_def document_release_def
        split: xml_source.splits if_splits option.splits)
  then show ?thesis
    using assms(3-5) by (simp add: parse_validated_def dtd_validate_def apply_document_def)
qed

section \<open>A library to evaluate with\<close>

text \<open>It knows two documents, one of which is indented.\<close>

definition sample_tree :: xml_node where
  "sample_tree = XmlNode ''a'' [(''k'', ''v'')] None [XmlNode ''b'' [] (Some ''t'') []]"

definition sample_doc :: xml_doc where
  "sample_doc = \<lparr>xd_url = None, xd_version = ''1.0'', xd_encoding = Some ''ISO-8859-1'', xd_name = ''a'',
     xd_properties = [(''k'', Some ''v'')], xd_nodes = [Element ''b'' [] [TextNode ''t'']]\<rparr>"

definition indented_doc :: xml_doc where
  "indented_doc = sample_doc\<lparr>xd_encoding := None,
     xd_nodes := [TextNode ''  '', Element ''b'' [] [TextNode ''t''], TextNode '' '']\<rparr>"

definition sample_libxml :: "(unit, unit) libxml" where
  "sample_libxml =
     \<lparr>lx_exists = (\<lambda>f w. False), lx_readable = (\<lambda>f w. False), lx_parse_file = (\<lambda>f w. None),
      lx_parse_memory = (\<lambda>b. if b = ''<a k=v><b>t</b></a>'' then Some sample_doc else None),
      lx_parse_dtd = (\<lambda>f w. None), lx_validate = (\<lambda>x t. (True, [])), lx_mkstemp = (\<lambda>w. (w, None)),
      lx_write_file = (\<lambda>f b w. w), lx_remove = (\<lambda>f w. w), lx_latin1 = (\<lambda>s. s), lx_encoder = (\<lambda>e. None),
      lx_render = (\<lambda>cs. if cs = document_calls sample_doc
          [StartElement ''a'', WriteAttribute ''k'' ''v'', WriteElement ''b'' ''t'', EndElement]
        then ''<a k=v><b>t</b></a>'' else '''')\<rparr>"


theorem indented_document_loses_children_witness:
  "\<exists>d1 n. extract_current sample_libxml \<lparr>do_handler = Some indented_doc, do_root = None, do_dangling = False\<rparr> =
      Some (d1, Inr ()) \<and> do_root d1 = Some n \<and> length (node_children n) = 1 \<and>
    compile_node sample_libxml None n = Inr [WriteElement ''a'' '' '']"
proof -
  let ?d = "\<lparr>do_handler = Some indented_doc, do_root = None, do_dangling = False\<rparr>"
  let ?n = "XmlNode ''a'' [(''k'', ''v'')] (Some '' '') [XmlNode ''b'' [] (Some ''t'') []]"
  let ?d1 = "?d\<lparr>do_root := Some ?n\<rparr>"
  have parsed: "extract_current sample_libxml ?d = Some (?d1, Inr ())"
    by (simp add: extract_current_def extract_root_def indented_doc_def sample_doc_def new_node_def c_str_def
        set_text_def sample_libxml_def add_attribute_def)
  have "\<exists>n v. do_root ?d1 = Some n \<and> length (node_children n) = length (filter is_element (xd_nodes indented_doc)) \<and>
      compile_node sample_libxml (xd_encoding indented_doc) n = Inr [WriteElement (node_name n) v]"
    by (rule indented_document_loses_children [OF _ parsed, of indented_doc "''  ''"])
      (simp_all add: indented_doc_def encode_text_def sample_doc_def)
  then have "length (node_children ?n) = 1 \<and> (\<exists>v. compile_node sample_libxml None ?n = Inr [WriteElement ''a'' v])"
    by (simp add: indented_doc_def sample_doc_def)
  moreover have "compile_node sample_libxml None ?n = Inr [WriteElement ''a'' '' '']"
    by (simp add: encode_text_def c_str_def)
  ultimately show ?thesis using parsed by auto
qed

end
