(* ===== verification/Customers.thy ===== *)
theory Customers
  imports Persist
begin

text \<open>
  The accessors of \<open>test/persistence\<close>: customers, with an integer key and a name, which are saved,
  loaded and erased by the storages of \<open>Persist\<close> in the database of \<open>DbmsWork\<close>.  Here the parts
  meet: the objects and the values bound to the statements are in one heap, the world of
  the connection.
\<close>

section \<open>The database and its statements\<close>

definition PreloadRegisterCounter :: nat where "PreloadRegisterCounter = 100"

definition mock_add :: "mock_record \<Rightarrow> mock_container \<Rightarrow> mock_container" where
  "mock_add r m = m(m_id r := Some r)"

definition fillup :: "nat \<Rightarrow> mock_container" where
  "fillup n =
     fold (\<lambda>ii. mock_add \<lparr>m_id = of_nat ii, m_name = ''the name '' @ as_string_int (of_nat ii)\<rparr>) [0..<n] (\<lambda>i. None)"

text \<open>The constructors of the two statements bind an integer and a string, at two fresh references.\<close>

definition bind_customer :: "nat \<Rightarrow> heap \<Rightarrow> heap" where
  "bind_customer ref h = h(ref := integer_new ''ID'' False, Suc ref := string_new ''name'' 64 False)"

definition MyReadStatement :: "nat \<Rightarrow> string \<Rightarrow> string \<Rightarrow> action_on_error \<Rightarrow> statement" where
  "MyReadStatement ref name expression action =
     (statement_new name expression action)\<lparr>st_inputs := [ref], st_outputs := [Suc ref]\<rparr>"

definition MyWriteStatement :: "nat \<Rightarrow> string \<Rightarrow> string \<Rightarrow> action_on_error \<Rightarrow> statement" where
  "MyWriteStatement ref name expression action =
     (statement_new name expression action)\<lparr>st_inputs := [ref, Suc ref]\<rparr>"

definition my_allocateStatement :: "nat \<Rightarrow> string \<Rightarrow> string \<Rightarrow> action_on_error \<Rightarrow> statement allocation" where
  "my_allocateStatement ref name expression action =
     (if expression = ''read'' \<or> expression = ''READ''
      then Allocated (MyReadStatement ref name expression action)
      else if expression = ''write'' \<or> expression = ''delete''
      then Allocated (MyWriteStatement ref name expression action)
      else BadCast)"

section \<open>Customers\<close>

abbreviation world_of :: "'d guard \<Rightarrow> 'd" where
  "world_of g \<equiv> c_world (g_connection g)"

definition with_world :: "'d \<Rightarrow> 'd guard \<Rightarrow> 'd guard" where
  "with_world w g = g\<lparr>g_connection := (g_connection g)\<lparr>c_world := w\<rparr>\<rparr>"

definition customer_getId :: "env \<Rightarrow> heap \<Rightarrow> object \<Rightarrow> cint outcome" where
  "customer_getId env h ob = getInteger env h ''id'' (o_primaryKey ob)"

definition customer_getName :: "env \<Rightarrow> heap \<Rightarrow> object \<Rightarrow> string outcome" where
  "customer_getName env h ob = getString env h ''name'' (o_members ob)"

definition customer_setId :: "env \<Rightarrow> cint \<Rightarrow> object \<Rightarrow> heap \<Rightarrow> heap \<times> unit outcome" where
  "customer_setId env i ob = setInteger env ''id'' i (o_primaryKey ob)"

definition customer_setName :: "env \<Rightarrow> string \<Rightarrow> object \<Rightarrow> heap \<Rightarrow> heap \<times> unit outcome" where
  "customer_setName env s ob = setString env ''name'' s (o_members ob)"

text \<open>\<open>coffee_datatype_downcast (T, getInputData (pos))->setValue (v)\<close>, and \<open>getValue\<close> of an output.\<close>

definition put_input ::
    "env \<Rightarrow> datatype_id list \<Rightarrow> (data \<Rightarrow> data outcome) \<Rightarrow> nat \<Rightarrow> statement \<Rightarrow> mock_world \<Rightarrow> mock_world \<times> unit outcome" where
  "put_input env types f pos st w =
     (case getInputData st (of_nat pos) of
        Some (Inr ref) \<Rightarrow>
          (case downcast env types (mw_heap w ref) of
             Inl e \<Rightarrow> (w, Inl e)
           | Inr d \<Rightarrow> (case f d of Inl e \<Rightarrow> (w, Inl e)
                       | Inr d1 \<Rightarrow> (w\<lparr>mw_heap := (mw_heap w)(ref := d1)\<rparr>, Inr ())))
      | Some (Inl e) \<Rightarrow> (w, Inl e)
      | None \<Rightarrow> (w, Inl (RuntimeException ''undefined'')))"

definition output_value :: "env \<Rightarrow> datatype_id list \<Rightarrow> nat \<Rightarrow> statement \<Rightarrow> mock_world \<Rightarrow> content outcome" where
  "output_value env types pos st w =
     (case getOutputData st (of_nat pos) of
        Some (Inr ref) \<Rightarrow>
          (case downcast env types (mw_heap w ref) of
             Inl e \<Rightarrow> Inl e
           | Inr d \<Rightarrow> (case exceptionWhenIsNull d of Inl e \<Rightarrow> Inl e | Inr u \<Rightarrow> Inr (d_content d)))
      | Some (Inl e) \<Rightarrow> Inl e
      | None \<Rightarrow> Inl (RuntimeException ''undefined''))"

definition put_id :: "env \<Rightarrow> cint \<Rightarrow> statement \<Rightarrow> mock_world \<Rightarrow> mock_world \<times> unit outcome" where
  "put_id env i = put_input env [TypeInteger] (\<lambda>d. Inr (put_value (IntegerValue i) d)) 0"

definition put_name :: "env \<Rightarrow> string \<Rightarrow> statement \<Rightarrow> mock_world \<Rightarrow> mock_world \<times> unit outcome" where
  "put_name env s = put_input env [TypeString] (string_set env (Some s)) 1"

section \<open>The accessors\<close>

text \<open>\<open>MockCustomerRecorder::apply\<close>; \<open>us\<close> is the time the statement takes.\<close>

definition recorder_apply ::
    "env \<Rightarrow> mock_world driver \<Rightarrow> clong \<Rightarrow> object \<Rightarrow> mock_world guard \<Rightarrow> statement
     \<Rightarrow> (mock_world, result_code outcome) guarded" where
  "recorder_apply env drv us ob g st =
     (case customer_getId env (mw_heap (world_of g)) ob of
        Inl e \<Rightarrow> Some (g, st, Inl e)
      | Inr i \<Rightarrow>
          if i = IdToThrowDbException then Some (g, st, Inr (mock_result LockCode))
          else
            (case put_id env i st (world_of g) of
               (w, Inl e) \<Rightarrow> Some (with_world w g, st, Inl e)
             | (w, Inr u) \<Rightarrow>
                 (case customer_getName env (mw_heap w) ob of
                    Inl e \<Rightarrow> Some (with_world w g, st, Inl e)
                  | Inr name \<Rightarrow>
                      (case put_name env name st w of
                         (w1, Inl e) \<Rightarrow> Some (with_world w1 g, st, Inl e)
                       | (w1, Inr u1) \<Rightarrow> guard_execute drv us st (with_world w1 g)))))"

text \<open>What \<open>MockCustomerLoader::apply\<close> does with a row, into the object.\<close>

definition loader_fill :: "env \<Rightarrow> cint \<Rightarrow> object \<Rightarrow> statement \<Rightarrow> mock_world \<Rightarrow> mock_world \<times> unit outcome" where
  "loader_fill env i ob st w =
     (case customer_setId env i ob (mw_heap w) of
        (h, Inl e) \<Rightarrow> (w\<lparr>mw_heap := h\<rparr>, Inl e)
      | (h, Inr u) \<Rightarrow>
          (case output_value env [TypeString] 0 st (w\<lparr>mw_heap := h\<rparr>) of
             Inl e \<Rightarrow> (w\<lparr>mw_heap := h\<rparr>, Inl e)
           | Inr c \<Rightarrow> (case customer_setName env (string_of c) ob h of (h1, r) \<Rightarrow> (w\<lparr>mw_heap := h1\<rparr>, r))))"

definition loader_apply ::
    "env \<Rightarrow> mock_world driver \<Rightarrow> clong \<Rightarrow> object \<Rightarrow> mock_world guard \<Rightarrow> statement
     \<Rightarrow> (mock_world, result_code outcome) guarded" where
  "loader_apply env drv us ob g st =
     (case customer_getId env (mw_heap (world_of g)) ob of
        Inl e \<Rightarrow> Some (g, st, Inl e)
      | Inr i \<Rightarrow>
          (case put_id env i st (world_of g) of
             (w, Inl e) \<Rightarrow> Some (with_world w g, st, Inl e)
           | (w, Inr u) \<Rightarrow>
               (case guard_execute drv us st (with_world w g) of
                  None \<Rightarrow> None
                | Some (g1, st1, Inl e) \<Rightarrow> Some (g1, st1, Inl e)
                | Some (g1, st1, Inr rc) \<Rightarrow>
                    (case successful rc of
                       Inl e \<Rightarrow> Some (g1, st1, Inl e)
                     | Inr False \<Rightarrow> Some (g1, st1, Inr rc)
                     | Inr True \<Rightarrow>
                         (case statement_fetch drv st1 (world_of g1) of
                            (w1, Inl e) \<Rightarrow> Some (with_world w1 g1, st1, Inl e)
                          | (w1, Inr False) \<Rightarrow> Some (with_world w1 g1, st1, Inr rc)
                          | (w1, Inr True) \<Rightarrow>
                              (case loader_fill env i ob st1 w1 of
                                 (w2, Inl e) \<Rightarrow> Some (with_world w2 g1, st1, Inl e)
                               | (w2, Inr u2) \<Rightarrow> Some (with_world w2 g1, st1, Inr rc)))))))"

definition loader_hasToRefresh ::
    "env \<Rightarrow> object \<Rightarrow> mock_world guard \<Rightarrow> statement \<Rightarrow> (mock_world, bool outcome) guarded" where
  "loader_hasToRefresh env ob g st =
     Some (g, st, map_outcome (\<lambda>i. sint i mod 2 = 0) (customer_getId env (mw_heap (world_of g)) ob))"

definition eraser_apply ::
    "env \<Rightarrow> mock_world driver \<Rightarrow> clong \<Rightarrow> data_set \<Rightarrow> mock_world guard \<Rightarrow> statement
     \<Rightarrow> (mock_world, result_code outcome) guarded" where
  "eraser_apply env drv us key g st =
     (case getInteger env (mw_heap (world_of g)) ''id'' key of
        Inl e \<Rightarrow> Some (g, st, Inl e)
      | Inr i \<Rightarrow>
          if i = IdToThrowDbException then Some (g, st, Inr (mock_result LostConnectionCode))
          else
            (case put_id env i st (world_of g) of
               (w, Inl e) \<Rightarrow> Some (with_world w g, st, Inl e)
             | (w, Inr u) \<Rightarrow> guard_execute drv us st (with_world w g)))"

text \<open>
  \<open>createObject\<close> in the heap of the connection, from the reference \<open>fresh\<close>.  The accessors: the
  storage finds an object by the identifier that the key has in the call.
\<close>

definition create_customer ::
    "(members \<Rightarrow> members) \<Rightarrow> persistent_class \<Rightarrow> data_set \<Rightarrow> nat \<Rightarrow> mock_world \<Rightarrow> mock_world \<times> object outcome" where
  "create_customer order cls key fresh w =
     (case createObject order cls key \<lparr>mem_heap = mw_heap w, mem_next = fresh\<rparr> of
        None \<Rightarrow> (w, Inl (RuntimeException ''undefined''))
      | Some (m, r) \<Rightarrow> (w\<lparr>mw_heap := mem_heap m\<rparr>, r))"

definition MockCustomerLoader ::
    "env \<Rightarrow> mock_world driver \<Rightarrow> clong \<Rightarrow> (members \<Rightarrow> members) \<Rightarrow> persistent_class \<Rightarrow> data_set \<Rightarrow> cint \<Rightarrow> nat \<Rightarrow> statement
     \<Rightarrow> (mock_world, cint, object) loader" where
  "MockCustomerLoader env drv us order cls key i fresh st =
     \<lparr>ld_name = ''MockCustomerLoader'', ld_statement = st, ld_key = i,
      ld_create = create_customer order cls key fresh, ld_apply = loader_apply env drv us,
      ld_hasToRefresh = loader_hasToRefresh env\<rparr>"

definition MockCustomerRecorder ::
    "env \<Rightarrow> mock_world driver \<Rightarrow> clong \<Rightarrow> object \<Rightarrow> cint \<Rightarrow> statement \<Rightarrow> (mock_world, cint) accessor" where
  "MockCustomerRecorder env drv us ob i st =
     \<lparr>ac_name = ''MockCustomerRecorder'', ac_statement = st, ac_key = i, ac_autoCommit = False,
      ac_apply = recorder_apply env drv us ob\<rparr>"

definition MockCustomerEraser ::
    "env \<Rightarrow> mock_world driver \<Rightarrow> clong \<Rightarrow> data_set \<Rightarrow> cint \<Rightarrow> statement \<Rightarrow> (mock_world, cint) accessor" where
  "MockCustomerEraser env drv us key i st =
     \<lparr>ac_name = ''MockCustomerEraser'', ac_statement = st, ac_key = i, ac_autoCommit = False,
      ac_apply = eraser_apply env drv us key\<rparr>"

section \<open>The connection\<close>

text \<open>A connection that can be taken, and the same one while a guard holds it.\<close>

definition free_connection :: "mock_world connection \<Rightarrow> bool" where
  "free_connection c \<longleftrightarrow> mw_isOpen (c_world c) \<and> \<not> c_mutex c \<and> c_lockingCounter c = 0 \<and>
     c_maxCommitPending c = 0 \<and> mw_operations (c_world c) = []"

definition held :: "mock_world connection \<Rightarrow> mock_world connection" where
  "held c = c\<lparr>c_mutex := True, c_lockingCounter := 1, c_accesingCounter := c_accesingCounter c + 1,
     c_commitPending := 0, c_rollbackPending := False\<rparr>"

definition committed :: "mock_world \<Rightarrow> mock_world" where
  "committed w = w\<lparr>mw_commitCounter := mw_commitCounter w + 1,
     mw_container := fold mock_perform (mw_operations w) (mw_container w), mw_operations := []\<rparr>"

definition holding :: "mock_world connection \<Rightarrow> bool" where
  "holding c \<longleftrightarrow> mw_isOpen (c_world c) \<and> c_mutex c \<and> c_lockingCounter c = 1 \<and> c_maxCommitPending c = 0 \<and>
     \<not> c_rollbackPending c"

lemma holding_held: "free_connection c \<Longrightarrow> holding (held c)"
  by (simp add: free_connection_def holding_def held_def)

lemma holding_world: "holding c \<Longrightarrow> mw_isOpen w \<Longrightarrow> holding (c\<lparr>c_world := w\<rparr>)"
  by (simp add: holding_def)

lemma mock_guard_new:
  "free_connection c \<Longrightarrow>
   guard_new (mock_driver env name desc) c = Some (held c, Inr \<lparr>g_connection = held c, g_countLinkedStatement = 0\<rparr>)"
  by (simp add: free_connection_def guard_new_def connection_lock_def isAvailable_def acquire_def begin_work_def
      mock_driver_def held_def)

lemma mock_unlock:
  "holding c \<Longrightarrow> connection_unlock (mock_driver env name desc) c =
     Some (if 0 <s c_commitPending c
           then c\<lparr>c_mutex := False, c_lockingCounter := 0, c_commitPending := 0, c_world := committed (c_world c)\<rparr>
           else c\<lparr>c_mutex := False, c_lockingCounter := 0\<rparr>)"
  by (cases c) (simp add: holding_def connection_unlock_def finish_work_def connection_commit_def isAvailable_def
      mock_driver_def mock_commit_def committed_def)

lemma mock_with_connection:
  assumes "free_connection c"
    and "body \<lparr>g_connection = held c, g_countLinkedStatement = 0\<rparr> = Some (g, a)" "holding (g_connection g)"
  shows "with_connection (mock_driver env name desc) c thrown body =
    map_option (\<lambda>c1. (c1, a)) (connection_unlock (mock_driver env name desc) (g_connection g))"
  using assms by (simp add: with_connection_def mock_guard_new guard_delete_def)

lemma mock_with_statement:
  assumes "mw_isOpen (world_of g)" "\<not> st_locked st"
    and "body (g\<lparr>g_countLinkedStatement := g_countLinkedStatement g + 1\<rparr>) (st\<lparr>st_locked := True\<rparr>) = Some (g1, st1, a)"
  shows "with_statement (mock_driver env name desc) st g thrown body =
    Some (g1\<lparr>g_countLinkedStatement := g_countLinkedStatement g1 - 1\<rparr>, st1\<lparr>st_locked := False\<rparr>, a)"
  using assms
  by (simp add: with_statement_def guard_statement_def isAvailable_def guard_statement_delete_def)

section \<open>Statements that are executed\<close>

definition executed :: "clong \<Rightarrow> statement \<Rightarrow> statement" where
  "executed us st = registerElapsedTime us (st\<lparr>st_prepared := True\<rparr>)"

lemma prepared_again: "st_prepared st \<Longrightarrow> st\<lparr>st_prepared := True\<rparr> = st"
  by (cases st) simp

lemma mock_ensure_prepared:
  "ensure_prepared (mock_driver env name desc) st c = (c, st\<lparr>st_prepared := True\<rparr>, Inr ())"
  by (cases c) (auto simp: ensure_prepared_def prepared_again mock_driver_def statement_prepare_def)

lemma mock_connection_execute:
  assumes c: "holding c" and x: "mock_execute env name (st\<lparr>st_prepared := True\<rparr>) (c_world c) = (w, Inr (mock_result code))"
    and code: "code = SuccessfulCode \<or> code = NotFoundCode \<and> \<not> requiresCommit st"
  shows "connection_execute (mock_driver env name desc) us st c =
    Some (if requiresCommit st then c\<lparr>c_world := w, c_commitPending := c_commitPending c + 1\<rparr> else c\<lparr>c_world := w\<rparr>,
      executed us st, Inr (mock_result code))"
proof -
  have r: "requiresCommit (executed us st) = requiresCommit st"
    by (simp add: executed_def requiresCommit_def registerElapsedTime_def)
  show ?thesis
    using c x code r
    by (auto simp: holding_def connection_execute_def mock_ensure_prepared handle_result_def note_result_def
        reachMaxCommitPending_def executed_def)
qed

section \<open>Values\<close>

definition holds_int :: "heap \<Rightarrow> nat \<Rightarrow> cint \<Rightarrow> bool" where
  "holds_int h ref i \<longleftrightarrow> d_content (h ref) = IntegerValue i \<and> \<not> d_isNull (h ref)"

definition holds_text :: "heap \<Rightarrow> nat \<Rightarrow> string \<Rightarrow> bool" where
  "holds_text h ref s \<longleftrightarrow> d_content (h ref) = StringValue s \<and> \<not> d_isNull (h ref)"

definition key_at :: "data_set \<Rightarrow> nat \<Rightarrow> bool" where
  "key_at key k \<longleftrightarrow> map_of (set_datas key) ''id'' = Some k"

definition name_at :: "object \<Rightarrow> nat \<Rightarrow> bool" where
  "name_at ob v \<longleftrightarrow> map_of (set_datas (o_members ob)) ''name'' = Some v"

text \<open>A text fits a value when \<open>setValue\<close> takes it as it is.\<close>

definition fits :: "string \<Rightarrow> data \<Rightarrow> bool" where
  "fits s d \<longleftrightarrow> getType d = TypeString \<and> NUL \<notin> set s \<and> length s \<le> d_maxSize d"

lemma c_str_id_nul: "NUL \<notin> set s \<Longrightarrow> c_str s = s"
  by (simp add: c_str_def takeWhile_eq_all_conv) metis

lemma string_set_fits: "fits s d \<Longrightarrow> string_set env (Some s) d = Inr (put_value (StringValue s) d)"
  by (simp add: fits_def string_set_def c_str_id_nul)

lemma read_int: "key_at key k \<Longrightarrow> holds_int h k i \<Longrightarrow> getInteger env h ''id'' key = Inr i"
  by (simp add: key_at_def holds_int_def getInteger_def member_value_def set_member_def set_find_def downcast_def
      exceptionWhenIsNull_def)

lemma read_name: "name_at ob v \<Longrightarrow> holds_text h v s \<Longrightarrow> customer_getName env h ob = Inr s"
  by (simp add: name_at_def holds_text_def customer_getName_def getString_def member_value_def set_member_def
      set_find_def downcast_def exceptionWhenIsNull_def)

lemma write_id:
  "key_at (o_primaryKey ob) k \<Longrightarrow> getType (h k) = TypeInteger \<Longrightarrow>
   customer_setId env i ob h = (h(k := put_value (IntegerValue i) (h k)), Inr ())"
  by (simp add: key_at_def customer_setId_def setInteger_def write_member_def set_member_def set_find_def downcast_def)

lemma write_name:
  "name_at ob v \<Longrightarrow> fits s (h v) \<Longrightarrow>
   customer_setName env s ob h = (h(v := put_value (StringValue s) (h v)), Inr ())"
  by (simp add: name_at_def customer_setName_def setString_def write_member_def set_member_def set_find_def
      downcast_def string_set_fits) (simp add: fits_def)

lemma put_id_ok:
  "st_inputs st = a # bs \<Longrightarrow> getType (mw_heap w a) = TypeInteger \<Longrightarrow>
   put_id env i st w = (w\<lparr>mw_heap := (mw_heap w)(a := put_value (IntegerValue i) (mw_heap w a))\<rparr>, Inr ())"
  by (simp add: put_id_def put_input_def getInputData_def binder_at_def downcast_def)

lemma put_name_ok:
  "st_inputs st = [a, b] \<Longrightarrow> fits s (mw_heap w b) \<Longrightarrow>
   put_name env s st w = (w\<lparr>mw_heap := (mw_heap w)(b := put_value (StringValue s) (mw_heap w b))\<rparr>, Inr ())"
  by (simp add: put_name_def put_input_def getInputData_def binder_at_def downcast_def string_set_fits)
    (simp add: fits_def)

lemma input_id:
  "st_inputs st = a # bs \<Longrightarrow> holds_int (mw_heap w) a i \<Longrightarrow>
   input_value env [TypeInteger] 0 st w = Inr (IntegerValue i)"
  by (simp add: input_value_def getInputData_def binder_at_def downcast_def holds_int_def exceptionWhenIsNull_def)

lemma input_name:
  "st_inputs st = [a, b] \<Longrightarrow> holds_text (mw_heap w) b s \<Longrightarrow>
   input_value env [TypeString] 1 st w = Inr (StringValue s)"
  by (simp add: input_value_def getInputData_def binder_at_def downcast_def holds_text_def exceptionWhenIsNull_def)

lemma output_name:
  "st_outputs st = [y] \<Longrightarrow> holds_text (mw_heap w) y s \<Longrightarrow>
   output_value env [TypeString] 0 st w = Inr (StringValue s)"
  by (simp add: output_value_def getOutputData_def binder_at_def downcast_def holds_text_def exceptionWhenIsNull_def)

lemma holds_put [simp]:
  "holds_int (h(r := put_value (IntegerValue i) d)) r i"
  "holds_text (h(r := put_value (StringValue s) d)) r s"
  by (simp_all add: holds_int_def holds_text_def put_value_def)

text \<open>Overwriting an integer with the same integer, or a text where an integer is, disturbs no value.\<close>

lemma holds_kept:
  "holds_int h k i \<Longrightarrow> holds_int (h(r := put_value (IntegerValue i) d)) k i"
  "holds_int h k i \<Longrightarrow> getType (h r) = TypeString \<Longrightarrow> holds_int (h(r := x)) k i"
  "holds_text h v s \<Longrightarrow> holds_text (h(r := put_value (StringValue s) d)) v s"
  "holds_text h v s \<Longrightarrow> getType (h r) = TypeInteger \<Longrightarrow> holds_text (h(r := x)) v s"
  by (auto simp: holds_int_def holds_text_def put_value_def)

section \<open>What the statements do\<close>

lemma executed_write:
  assumes "st_expression st = ''write''" "st_inputs st = [a, b]" "holds_int (mw_heap w) a i" "i \<noteq> 0"
    "holds_text (mw_heap w) b s"
  shows "mock_execute env name (st\<lparr>st_prepared := p\<rparr>) w =
    (addOperation Write \<lparr>m_id = i, m_name = s\<rparr> w, Inr (mock_result SuccessfulCode))"
  using assms input_id [of st a "[b]" w i env] input_name [of st a b w s env]
  by (simp add: mock_execute_def is_read_def write_execute_def Let_def IdToThrowDbException_def)

lemma executed_delete:
  assumes "st_expression st = ''delete''" "st_inputs st = a # bs" "holds_int (mw_heap w) a i" "i \<noteq> 0"
  shows "mock_execute env name (st\<lparr>st_prepared := p\<rparr>) w =
    (addOperation Delete \<lparr>m_id = i, m_name = ''''\<rparr> w, Inr (mock_result SuccessfulCode))"
  using assms input_id [of st a bs w i env]
  by (simp add: mock_execute_def is_read_def write_execute_def Let_def IdToThrowDbException_def)

lemma executed_read:
  assumes "is_read st" "st_inputs st = a # bs" "holds_int (mw_heap w) a i" "mw_isOpen w"
  shows "mock_execute env name (st\<lparr>st_prepared := p\<rparr>) w =
    (w\<lparr>mw_selection := (mw_selection w)(st_name st := mw_container w i)\<rparr>,
     Inr (mock_result (if mw_container w i = None then NotFoundCode else SuccessfulCode)))"
proof -
  let ?w = "w\<lparr>mw_selection := (mw_selection w)(st_name st := None)\<rparr>"
  have "input_value env [TypeInteger] 0 st ?w = Inr (IntegerValue i)"
    using assms input_id [of st a bs ?w i env] by simp
  with assms show ?thesis
    by (auto simp: mock_execute_def is_read_def read_execute_def Let_def getContainer_def split: option.splits)
qed

lemma fetched_read:
  assumes "is_read st" "st_outputs st = [y]" "mw_selection w (st_name st) = Some r" "fits (m_name r) (mw_heap w y)"
  shows "statement_fetch (mock_driver env name desc) st w =
    (w\<lparr>mw_selection := (mw_selection w)(st_name st := None),
       mw_heap := (mw_heap w)(y := put_value (StringValue (m_name r)) (mw_heap w y))\<rparr>, Inr True)"
proof -
  have "drv_fetch (mock_driver env name desc) st w = read_fetch env st w"
    using assms by (simp add: mock_driver_def mock_fetch_def)
  moreover have "read_fetch env st w = (w\<lparr>mw_selection := (mw_selection w)(st_name st := None),
       mw_heap := (mw_heap w)(y := put_value (StringValue (m_name r)) (mw_heap w y))\<rparr>, Inr True)"
    using assms string_set_fits [OF assms(4)]
    by (simp add: read_fetch_def Let_def getOutputData_def binder_at_def downcast_def fits_def)
  ultimately show ?thesis by (simp add: statement_fetch_def mock_driver_def)
qed

section \<open>Saving, loading and erasing a customer\<close>

text \<open>A customer with its identifier and name, and a statement as the database allocates it.\<close>

definition customer_is :: "heap \<Rightarrow> object \<Rightarrow> cint \<Rightarrow> string \<Rightarrow> bool" where
  "customer_is h ob i s \<longleftrightarrow>
     (\<exists>k v. key_at (o_primaryKey ob) k \<and> holds_int h k i \<and> name_at ob v \<and> holds_text h v s)"

definition writes :: "string \<Rightarrow> heap \<Rightarrow> statement \<Rightarrow> bool" where
  "writes expression h st \<longleftrightarrow>
     st_expression st = expression \<and> \<not> st_locked st \<and> st_outputs st = [] \<and>
     (\<exists>a b. st_inputs st = [a, b] \<and> getType (h a) = TypeInteger \<and> getType (h b) = TypeString \<and> d_maxSize (h b) = 64)"

definition reads :: "nat \<Rightarrow> heap \<Rightarrow> statement \<Rightarrow> bool" where
  "reads n h st \<longleftrightarrow>
     is_read st \<and> \<not> st_locked st \<and> \<not> st_requiresCommit st \<and>
     (\<exists>x y. st_inputs st = [x] \<and> st_outputs st = [y] \<and> x < n \<and> y < n \<and>
        getType (h x) = TypeInteger \<and> getType (h y) = TypeString \<and> d_maxSize (h y) = 64)"

definition short_name :: "string \<Rightarrow> bool" where
  "short_name s \<longleftrightarrow> NUL \<notin> set s \<and> length s \<le> 64"

lemma customer_values: "customer_is h ob i s \<Longrightarrow> customer_getId env h ob = Inr i \<and> customer_getName env h ob = Inr s"
  by (auto simp: customer_is_def customer_getId_def read_int read_name)

lemma recorder_apply_ok:
  assumes g: "holding (g_connection g)" and ob: "customer_is (mw_heap (world_of g)) ob i s" and i: "i \<noteq> 0"
    and st: "writes ''write'' (mw_heap (world_of g)) st0" "st = st0\<lparr>st_locked := True\<rparr>" and s: "short_name s"
  shows "\<exists>h. recorder_apply env (mock_driver env name desc) us ob g st =
      Some (g\<lparr>g_connection := (g_connection g)\<lparr>c_commitPending := c_commitPending (g_connection g) + 1,
          c_world := addOperation Write \<lparr>m_id = i, m_name = s\<rparr> (world_of g\<lparr>mw_heap := h\<rparr>)\<rparr>\<rparr>,
        executed us st, Inr (mock_result SuccessfulCode)) \<and>
    (\<forall>ref. ref \<notin> set (st_inputs st) \<longrightarrow> h ref = mw_heap (world_of g) ref) \<and>
    (\<forall>ref. same_schema (mw_heap (world_of g) ref) (h ref)) \<and> customer_is h ob i s"
proof -
  let ?h = "mw_heap (world_of g)"
  obtain k v where k: "key_at (o_primaryKey ob) k" "holds_int ?h k i" and v: "name_at ob v" "holds_text ?h v s"
    using ob by (auto simp: customer_is_def)
  obtain a b where st': "st_inputs st = [a, b]" "st_expression st = ''write''" "st_outputs st = []"
      "getType (?h a) = TypeInteger" "getType (?h b) = TypeString" "d_maxSize (?h b) = 64"
    using st by (auto simp: writes_def)
  let ?h1 = "?h(a := put_value (IntegerValue i) (?h a))"
  let ?h2 = "?h1(b := put_value (StringValue s) (?h b))"
  have ab: "a \<noteq> b" using st' by auto
  have kept: "holds_int ?h1 k i" "holds_text ?h1 v s" "holds_int ?h2 a i" "holds_int ?h2 k i" "holds_text ?h2 v s"
      "holds_text ?h2 b s"
    using k v st' ab by (simp_all add: holds_kept)
  have fit: "fits s (?h b)" using st' s by (simp add: fits_def short_name_def)
  let ?w = "world_of g\<lparr>mw_heap := ?h2\<rparr>"
  have ap: "recorder_apply env (mock_driver env name desc) us ob g st =
      guard_execute (mock_driver env name desc) us st (with_world ?w g)"
    using k v i st' fit ab kept put_id_ok [OF st'(1), of "world_of g"] put_name_ok [OF st'(1), of s "world_of g\<lparr>mw_heap := ?h1\<rparr>"]
    by (simp add: recorder_apply_def customer_getId_def read_int read_name IdToThrowDbException_def)
  have hold: "holding ((g_connection g)\<lparr>c_world := ?w\<rparr>)" using g by (simp add: holding_def)
  have "mock_execute env name (st\<lparr>st_prepared := True\<rparr>) ?w =
      (addOperation Write \<lparr>m_id = i, m_name = s\<rparr> ?w, Inr (mock_result SuccessfulCode))"
    by (rule executed_write [OF st'(2,1)]) (use kept i in auto)
  with mock_connection_execute [OF hold, of env name st _ SuccessfulCode desc us]
  have "recorder_apply env (mock_driver env name desc) us ob g st =
      Some (g\<lparr>g_connection := (g_connection g)\<lparr>c_commitPending := c_commitPending (g_connection g) + 1,
          c_world := addOperation Write \<lparr>m_id = i, m_name = s\<rparr> ?w\<rparr>\<rparr>,
        executed us st, Inr (mock_result SuccessfulCode))"
    using st' by (simp add: ap guard_execute_def with_world_def requiresCommit_def)
  moreover have "\<forall>ref. same_schema (?h ref) (?h2 ref)"
    using st' by (auto simp: same_schema_def put_value_def)
  moreover have "customer_is ?h2 ob i s" using k(1) v(1) kept by (auto simp: customer_is_def)
  ultimately show ?thesis using st'(1) by (intro exI [of _ ?h2]) auto
qed

lemma open_committed [simp]:
  "mw_isOpen (committed w) = mw_isOpen w" "mw_operations (committed w) = []" "mw_heap (committed w) = mw_heap w"
  by (simp_all add: committed_def)

text \<open>An accessor whose statement succeeds and leaves the world \<open>w\<close>: the unit of work commits it.\<close>

lemma accessor_commits:
  assumes c: "free_connection c" and st: "\<not> st_locked (ac_statement acc)" and w: "mw_isOpen w"
    and ap: "ac_apply acc \<lparr>g_connection = held c, g_countLinkedStatement = 1\<rparr> ((ac_statement acc)\<lparr>st_locked := True\<rparr>) =
      Some (\<lparr>g_connection = (held c)\<lparr>c_commitPending := 1, c_world := w\<rparr>, g_countLinkedStatement = 1\<rparr>, st1,
        Inr (mock_result SuccessfulCode))"
  shows "\<exists>g1 c1. run_accessor (mock_driver env name desc) acc \<lparr>g_connection = held c, g_countLinkedStatement = 0\<rparr> =
      Some (g1, st1\<lparr>st_locked := False\<rparr>, Inr ()) \<and> holding (g_connection g1) \<and>
    connection_unlock (mock_driver env name desc) (g_connection g1) = Some c1 \<and>
    free_connection c1 \<and> c_world c1 = committed w"
proof -
  let ?c = "(held c)\<lparr>c_commitPending := 1, c_world := w\<rparr>"
  let ?c1 = "if ac_autoCommit acc then ?c\<lparr>c_world := committed w, c_commitPending := 0\<rparr> else ?c"
  have held: "holding ?c" using c w by (simp add: free_connection_def holding_def held_def)
  have commit: "connection_commit (mock_driver env name desc) ?c = (?c\<lparr>c_world := committed w, c_commitPending := 0\<rparr>, Inr ())"
    using w by (simp add: connection_commit_def isAvailable_def mock_driver_def mock_commit_def committed_def held_def)
  have "run_accessor (mock_driver env name desc) acc \<lparr>g_connection = held c, g_countLinkedStatement = 0\<rparr> =
      Some (\<lparr>g_connection = ?c1, g_countLinkedStatement = 0\<rparr>, st1\<lparr>st_locked := False\<rparr>, Inr ())"
    unfolding run_accessor_def
    by (subst mock_with_statement [where ?g1.0 = "\<lparr>g_connection = ?c1, g_countLinkedStatement = 1\<rparr>" and ?st1.0 = st1 and a = "Inr ()"])
      (use c st ap commit in \<open>simp_all add: free_connection_def held_def check_result_def guard_commit_def\<close>)
  moreover have h1: "holding ?c1" using held by (simp add: holding_def)
  moreover have "\<exists>c2. connection_unlock (mock_driver env name desc) ?c1 = Some c2 \<and> free_connection c2 \<and> c_world c2 = committed w"
    using mock_unlock [OF h1, of env name desc] c w by (simp add: free_connection_def held_def word_sless_alt)
  ultimately show ?thesis
    by (intro exI [of _ "\<lparr>g_connection = ?c1, g_countLinkedStatement = 0\<rparr>"]) (simp only: guard.simps simp_thms ex_simps)
qed

text \<open>Saving commits the record and touches only the values bound to the statement.\<close>

lemma save_commits:
  fixes env :: env and name desc :: string
  assumes c: "free_connection c" and ob: "customer_is (mw_heap (c_world c)) ob i s" and i: "i \<noteq> 0"
    and st: "writes ''write'' (mw_heap (c_world c)) st" and s: "short_name s"
  defines "drv \<equiv> mock_driver env name desc"
  shows "\<exists>c1 st1. storage_save drv ((MockCustomerRecorder env drv us ob i st)\<lparr>ac_autoCommit := auto\<rparr>) c = Some (c1, st1, Inr ()) \<and>
    free_connection c1 \<and> mw_container (c_world c1) = (mw_container (c_world c))(i \<mapsto> \<lparr>m_id = i, m_name = s\<rparr>) \<and>
    (\<forall>ref. ref \<notin> set (st_inputs st) \<longrightarrow> mw_heap (c_world c1) ref = mw_heap (c_world c) ref) \<and>
    (\<forall>ref. same_schema (mw_heap (c_world c) ref) (mw_heap (c_world c1) ref)) \<and>
    customer_is (mw_heap (c_world c1)) ob i s"
proof -
  let ?acc = "(MockCustomerRecorder env drv us ob i st)\<lparr>ac_autoCommit := auto\<rparr>"
  let ?g = "\<lparr>g_connection = held c, g_countLinkedStatement = 1\<rparr>"
  have w: "world_of ?g = c_world c" by (simp add: held_def)
  have hold: "holding (g_connection ?g)" using holding_held [OF c] by simp
  have "\<exists>h. recorder_apply env drv us ob ?g (st\<lparr>st_locked := True\<rparr>) =
      Some (?g\<lparr>g_connection := (held c)\<lparr>c_commitPending := c_commitPending (held c) + 1,
          c_world := addOperation Write \<lparr>m_id = i, m_name = s\<rparr> (c_world c\<lparr>mw_heap := h\<rparr>)\<rparr>\<rparr>,
        executed us (st\<lparr>st_locked := True\<rparr>), Inr (mock_result SuccessfulCode)) \<and>
      (\<forall>ref. ref \<notin> set (st_inputs st) \<longrightarrow> h ref = mw_heap (c_world c) ref) \<and>
      (\<forall>ref. same_schema (mw_heap (c_world c) ref) (h ref)) \<and> customer_is h ob i s"
    using recorder_apply_ok [OF hold, of ob i s st "st\<lparr>st_locked := True\<rparr>" env name desc us] ob i st s
    by (simp add: drv_def w [simplified])
  then obtain h where ap: "recorder_apply env drv us ob ?g (st\<lparr>st_locked := True\<rparr>) =
      Some (\<lparr>g_connection = (held c)\<lparr>c_commitPending := 1,
          c_world := addOperation Write \<lparr>m_id = i, m_name = s\<rparr> (c_world c\<lparr>mw_heap := h\<rparr>)\<rparr>, g_countLinkedStatement = 1\<rparr>,
        executed us (st\<lparr>st_locked := True\<rparr>), Inr (mock_result SuccessfulCode))"
    and h: "\<forall>ref. ref \<notin> set (st_inputs st) \<longrightarrow> h ref = mw_heap (c_world c) ref"
      "\<forall>ref. same_schema (mw_heap (c_world c) ref) (h ref)" "customer_is h ob i s"
    by (auto simp: held_def)
  let ?w = "addOperation Write \<lparr>m_id = i, m_name = s\<rparr> (c_world c\<lparr>mw_heap := h\<rparr>)"
  have "\<exists>g1 c1. run_accessor drv ?acc \<lparr>g_connection = held c, g_countLinkedStatement = 0\<rparr> =
      Some (g1, (executed us (st\<lparr>st_locked := True\<rparr>))\<lparr>st_locked := False\<rparr>, Inr ()) \<and> holding (g_connection g1) \<and>
    connection_unlock drv (g_connection g1) = Some c1 \<and> free_connection c1 \<and> c_world c1 = committed ?w"
    unfolding drv_def
    by (rule accessor_commits [OF c])
      (use ap st c in \<open>simp_all add: MockCustomerRecorder_def writes_def addOperation_def free_connection_def drv_def\<close>)
  then obtain g1 c1 where r: "run_accessor drv ?acc \<lparr>g_connection = held c, g_countLinkedStatement = 0\<rparr> =
      Some (g1, (executed us (st\<lparr>st_locked := True\<rparr>))\<lparr>st_locked := False\<rparr>, Inr ())" "holding (g_connection g1)"
      "connection_unlock drv (g_connection g1) = Some c1" "free_connection c1" "c_world c1 = committed ?w" by blast
  have "storage_save drv ?acc c = Some (c1, (executed us (st\<lparr>st_locked := True\<rparr>))\<lparr>st_locked := False\<rparr>, Inr ())"
    using mock_with_connection [OF c, of "storage_save_guard drv ?acc"] r
    by (simp add: storage_save_def storage_save_guard_def drv_def)
  with r h c show ?thesis
    by (auto simp: committed_def addOperation_def free_connection_def)
qed

text \<open>Reading a record into an object, or finding none.\<close>

lemma loader_executes:
  assumes c: "holding (g_connection g)" and st: "reads n (mw_heap (world_of g)) st0" "st = st0\<lparr>st_locked := True\<rparr>"
    and k: "key_at (o_primaryKey ob) k" "holds_int (mw_heap (world_of g)) k i"
  shows "\<exists>x y h. st_inputs st = [x] \<and> st_outputs st = [y] \<and> h = (mw_heap (world_of g))(x := put_value (IntegerValue i) (mw_heap (world_of g) x)) \<and>
    customer_getId env (mw_heap (world_of g)) ob = Inr i \<and>
    put_id env i st (world_of g) = (world_of g\<lparr>mw_heap := h\<rparr>, Inr ()) \<and>
    guard_execute (mock_driver env name desc) us st (with_world (world_of g\<lparr>mw_heap := h\<rparr>) g) =
      Some (with_world (world_of g\<lparr>mw_heap := h,
          mw_selection := (mw_selection (world_of g))(st_name st := mw_container (world_of g) i)\<rparr>) g,
        executed us st, Inr (mock_result (if mw_container (world_of g) i = None then NotFoundCode else SuccessfulCode)))"
proof -
  let ?h = "mw_heap (world_of g)"
  obtain x y where st': "st_inputs st = [x]" "st_outputs st = [y]" "is_read st" "\<not> requiresCommit st"
      "getType (?h x) = TypeInteger"
    using st by (auto simp: reads_def is_read_def requiresCommit_def)
  let ?h1 = "?h(x := put_value (IntegerValue i) (?h x))"
  let ?w = "world_of g\<lparr>mw_heap := ?h1\<rparr>"
  have hold: "holding ((g_connection g)\<lparr>c_world := ?w\<rparr>)" using c by (simp add: holding_def)
  have "mock_execute env name (st\<lparr>st_prepared := True\<rparr>) ?w =
      (?w\<lparr>mw_selection := (mw_selection ?w)(st_name st := mw_container ?w i)\<rparr>,
       Inr (mock_result (if mw_container ?w i = None then NotFoundCode else SuccessfulCode)))"
    by (rule executed_read [OF st'(3,1)]) (use c in \<open>simp_all add: holding_def\<close>)
  with mock_connection_execute [OF hold, of env name st _ "if mw_container ?w i = None then NotFoundCode else SuccessfulCode" desc us]
  have "guard_execute (mock_driver env name desc) us st (with_world ?w g) =
      Some (with_world (?w\<lparr>mw_selection := (mw_selection (world_of g))(st_name st := mw_container (world_of g) i)\<rparr>) g,
        executed us st, Inr (mock_result (if mw_container (world_of g) i = None then NotFoundCode else SuccessfulCode)))"
    using st'(4) by (simp add: guard_execute_def with_world_def)
  then show ?thesis
    using st' k put_id_ok [OF st'(1), of "world_of g" env i]
    by (intro exI [of _ x] exI [of _ y] exI [of _ ?h1]) (simp add: customer_getId_def read_int)
qed

lemma loader_apply_ok:
  assumes c: "holding (g_connection g)" and st: "reads n (mw_heap (world_of g)) st0" "st = st0\<lparr>st_locked := True\<rparr>"
    and k: "key_at (o_primaryKey ob) k" "holds_int (mw_heap (world_of g)) k i"
    and v: "name_at ob v" "getType (mw_heap (world_of g) v) = TypeString" "d_maxSize (mw_heap (world_of g) v) = 64"
    and r: "mw_container (world_of g) i = Some r" "short_name (m_name r)"
  shows "\<exists>h sel. loader_apply env (mock_driver env name desc) us ob g st =
      Some (with_world (world_of g\<lparr>mw_selection := sel, mw_heap := h\<rparr>) g, executed us st, Inr (mock_result SuccessfulCode)) \<and>
    customer_is h ob i (m_name r)"
proof -
  let ?h = "mw_heap (world_of g)"
  obtain x y where xy: "st_inputs st = [x]" "st_outputs st = [y]" and
    ex: "customer_getId env ?h ob = Inr i"
      "put_id env i st (world_of g) = (world_of g\<lparr>mw_heap := ?h(x := put_value (IntegerValue i) (?h x))\<rparr>, Inr ())"
      "guard_execute (mock_driver env name desc) us st (with_world (world_of g\<lparr>mw_heap := ?h(x := put_value (IntegerValue i) (?h x))\<rparr>) g) =
      Some (with_world (world_of g\<lparr>mw_heap := ?h(x := put_value (IntegerValue i) (?h x)),
          mw_selection := (mw_selection (world_of g))(st_name st := Some r)\<rparr>) g,
        executed us st, Inr (mock_result SuccessfulCode))"
    using loader_executes [OF c st k, of env name desc us] r(1) by auto
  have ty: "getType (?h x) = TypeInteger" "getType (?h y) = TypeString" "d_maxSize (?h y) = 64" "is_read st"
    using st xy by (auto simp: reads_def is_read_def)
  let ?h1 = "?h(x := put_value (IntegerValue i) (?h x))"
  let ?h2 = "?h1(y := put_value (StringValue (m_name r)) (?h1 y))"
  let ?h3 = "?h2(k := put_value (IntegerValue i) (?h2 k))"
  let ?h4 = "?h3(v := put_value (StringValue (m_name r)) (?h3 v))"
  let ?w1 = "world_of g\<lparr>mw_heap := ?h1, mw_selection := (mw_selection (world_of g))(st_name st := Some r)\<rparr>"
  let ?w2 = "?w1\<lparr>mw_heap := ?h2, mw_selection := (mw_selection ?w1)(st_name st := None)\<rparr>"
  have kty: "getType (?h k) = TypeInteger" using k(2) by (simp add: holds_int_def)
  have ne: "x \<noteq> y" "x \<noteq> v" "k \<noteq> y" "k \<noteq> v" using ty kty v(2) by auto
  have fits: "fits (m_name r) (?h1 y)" "fits (m_name r) (?h3 v)"
    using ty v r(2) ne by (auto simp: fits_def short_name_def put_value_def)
  have kept: "holds_int ?h1 k i" "holds_int ?h2 k i" "holds_text ?h2 y (m_name r)" "holds_text ?h3 y (m_name r)"
      "holds_int ?h4 k i" "holds_text ?h4 v (m_name r)"
    using k ty ne by (auto simp: holds_int_def holds_text_def put_value_def)
  have fe: "statement_fetch (mock_driver env name desc) (executed us st) ?w1 = (?w2, Inr True)"
    using fetched_read [of "executed us st" y ?w1 r env name desc] ty xy fits
    by (simp add: executed_def registerElapsedTime_def is_read_def)
  have "loader_fill env i ob (executed us st) ?w2 = (?w2\<lparr>mw_heap := ?h4\<rparr>, Inr ())"
    using write_id [OF k(1), of ?h2 env i] write_name [of ob v "m_name r" ?h3 env] v(1) fits(2) kept(2,4)
      output_name [of "executed us st" y "?w2\<lparr>mw_heap := ?h3\<rparr>" "m_name r" env] xy
    by (simp add: loader_fill_def holds_int_def executed_def registerElapsedTime_def)
  with ex fe have "loader_apply env (mock_driver env name desc) us ob g st =
      Some (with_world (?w2\<lparr>mw_heap := ?h4\<rparr>) g, executed us st, Inr (mock_result SuccessfulCode))"
    by (simp add: loader_apply_def with_world_def)
  moreover have "customer_is ?h4 ob i (m_name r)" unfolding customer_is_def using k(1) v(1) kept(5,6) by blast
  ultimately show ?thesis
    by (intro exI [of _ ?h4] exI [of _ "mw_selection ?w2"]) simp
qed

lemma loader_apply_not_found:
  assumes c: "holding (g_connection g)" and st: "reads n (mw_heap (world_of g)) st0" "st = st0\<lparr>st_locked := True\<rparr>"
    and k: "key_at (o_primaryKey ob) k" "holds_int (mw_heap (world_of g)) k i"
    and r: "mw_container (world_of g) i = None"
  shows "\<exists>h sel. loader_apply env (mock_driver env name desc) us ob g st =
      Some (with_world (world_of g\<lparr>mw_heap := h, mw_selection := sel\<rparr>) g, executed us st, Inr (mock_result NotFoundCode))"
proof -
  let ?h = "mw_heap (world_of g)"
  obtain x where
    ex: "customer_getId env ?h ob = Inr i"
      "put_id env i st (world_of g) = (world_of g\<lparr>mw_heap := ?h(x := put_value (IntegerValue i) (?h x))\<rparr>, Inr ())"
      "guard_execute (mock_driver env name desc) us st (with_world (world_of g\<lparr>mw_heap := ?h(x := put_value (IntegerValue i) (?h x))\<rparr>) g) =
      Some (with_world (world_of g\<lparr>mw_heap := ?h(x := put_value (IntegerValue i) (?h x)),
          mw_selection := (mw_selection (world_of g))(st_name st := None)\<rparr>) g,
        executed us st, Inr (mock_result NotFoundCode))"
    using loader_executes [OF c st k, of env name desc us] r by auto
  show ?thesis
    by (intro exI [of _ "?h(x := put_value (IntegerValue i) (?h x))"] exI [of _ "(mw_selection (world_of g))(st_name st := None)"])
      (simp add: loader_apply_def ex)
qed

text \<open>A class of customers in a memory, and a key that fits it.\<close>

definition customer_class :: "memory \<Rightarrow> persistent_class \<Rightarrow> bool" where
  "customer_class m cls \<longleftrightarrow>
     set_in_memory m (cl_members cls) \<and>
     (\<exists>ref. (''name'', ref) \<in> set (set_datas (cl_members cls)) \<and>
        getType (mem_heap m ref) = TypeString \<and> d_maxSize (mem_heap m ref) = 64)"

definition customer_key :: "memory \<Rightarrow> persistent_class \<Rightarrow> data_set \<Rightarrow> cint \<Rightarrow> bool" where
  "customer_key m cls key i \<longleftrightarrow>
     key_matches (mem_heap m) (cl_primaryKey cls) key \<and>
     (\<exists>k. key_at key k \<and> k < mem_next m \<and> holds_int (mem_heap m) k i)"

lemma create_customer_ok:
  assumes cls: "customer_class \<lparr>mem_heap = mw_heap w, mem_next = n\<rparr> cls"
    and key: "customer_key \<lparr>mem_heap = mw_heap w, mem_next = n\<rparr> cls key i"
    and st: "reads n (mw_heap w) st" and order: "\<And>xs. mset (order xs) = mset xs"
  shows "\<exists>h ob k v. create_customer order cls key n w = (w\<lparr>mw_heap := h\<rparr>, Inr ob) \<and> o_primaryKey ob = key \<and>
    reads n h st \<and> key_at key k \<and> holds_int h k i \<and>
    name_at ob v \<and> getType (h v) = TypeString \<and> d_maxSize (h v) = 64"
proof -
  let ?m = "\<lparr>mem_heap = mw_heap w, mem_next = n\<rparr>"
  have mem: "set_in_memory ?m (cl_members cls)" using cls by (simp add: customer_class_def)
  have matches: "key_matches (mem_heap ?m) (cl_primaryKey cls) key" using key by (simp add: customer_key_def)
  from createObject_copies [OF mem matches order] obtain m1 ob where
    ob: "createObject order cls key ?m = Some (m1, Inr ob)" "o_primaryKey ob = key"
      "\<forall>ref < n. mem_heap m1 ref = mw_heap w ref" and
    all: "\<forall>(name, ref) \<in> set (set_datas (cl_members cls)). \<exists>ref1. map_of (set_datas (o_members ob)) name = Some ref1 \<and>
       n \<le> ref1 \<and> mem_heap m1 ref1 = mw_heap w ref" by auto
  from cls all obtain v where v: "name_at ob v" "getType (mem_heap m1 v) = TypeString" "d_maxSize (mem_heap m1 v) = 64"
    by (fastforce simp: customer_class_def name_at_def)
  from key ob(3) obtain k where k: "key_at key k" "holds_int (mem_heap m1) k i"
    by (auto simp: customer_key_def holds_int_def)
  from st ob(3) have "reads n (mem_heap m1) st" by (auto simp: reads_def)
  with ob v k show ?thesis by (auto simp: create_customer_def)
qed

lemma load_misses:
  assumes ok: "storage_ok s" and miss: "map_of (objects s) (ld_key l) = None"
  shows "storage_load drv l c s =
    with_connection drv c (\<lambda>e. (ld_statement l, s, Inl e))
      (\<lambda>g. with_statement drv (ld_statement l) g (\<lambda>e. (s, Inl e)) (load_fault l s))"
proof -
  have "map_of (quick_access (sto_cache s)) (ld_key l) = None"
    using inv_quick_recency [of "sto_cache s"] ok miss by (simp add: storage_ok_def)
  then show ?thesis by (simp add: storage_load_def cache_find_def Let_def)
qed

lemma unlock_reading:
  assumes "free_connection c" "mw_isOpen w" "mw_operations w = []"
  shows "\<exists>c1. connection_unlock (mock_driver env name desc) ((held c)\<lparr>c_world := w\<rparr>) = Some c1 \<and> free_connection c1 \<and> c_world c1 = w"
proof -
  have "holding ((held c)\<lparr>c_world := w\<rparr>)" using assms by (simp add: free_connection_def holding_def held_def)
  from mock_unlock [OF this, of env name desc] assms show ?thesis by (simp add: free_connection_def held_def)
qed

lemma load_returns:
  assumes c: "free_connection c" and ok: "storage_ok s" and miss: "map_of (objects s) (ld_key l) = None"
    and st: "\<not> st_locked (ld_statement l)" and w: "mw_isOpen w" "mw_operations w = []"
    and fault: "load_fault l s \<lparr>g_connection = held c, g_countLinkedStatement = 1\<rparr> ((ld_statement l)\<lparr>st_locked := True\<rparr>) =
      Some (\<lparr>g_connection = (held c)\<lparr>c_world := w\<rparr>, g_countLinkedStatement = 1\<rparr>, st1, s1, r)"
  shows "\<exists>c1. storage_load (mock_driver env name desc) l c s = Some (c1, st1\<lparr>st_locked := False\<rparr>, s1, r) \<and>
    free_connection c1 \<and> c_world c1 = w"
proof -
  obtain c1 where c1: "connection_unlock (mock_driver env name desc) ((held c)\<lparr>c_world := w\<rparr>) = Some c1"
      "free_connection c1" "c_world c1 = w"
    using unlock_reading [OF c w, of env name desc] by blast
  have "mw_isOpen (c_world (held c))" using c by (simp add: free_connection_def held_def)
  with fault st have "with_statement (mock_driver env name desc) (ld_statement l)
      \<lparr>g_connection = held c, g_countLinkedStatement = 0\<rparr> (\<lambda>e. (s, Inl e)) (load_fault l s) =
      Some (\<lparr>g_connection = (held c)\<lparr>c_world := w\<rparr>, g_countLinkedStatement = 0\<rparr>, st1\<lparr>st_locked := False\<rparr>, s1, r)"
    by (simp add: with_statement_def guard_statement_def isAvailable_def guard_statement_delete_def)
  with c1 show ?thesis
    using load_misses [OF ok miss]
    by (simp add: with_connection_def mock_guard_new [OF c] guard_delete_def)
qed

lemma load_finds:
  fixes env :: env and name desc :: string
  assumes c: "free_connection c" and ok: "storage_ok s" and miss: "map_of (objects s) i = None"
    and cls: "customer_class \<lparr>mem_heap = mw_heap (c_world c), mem_next = n\<rparr> cls"
    and key: "customer_key \<lparr>mem_heap = mw_heap (c_world c), mem_next = n\<rparr> cls key i"
    and st: "reads n (mw_heap (c_world c)) st" and order: "\<And>xs. mset (order xs) = mset xs"
    and r: "mw_container (c_world c) i = Some r" "short_name (m_name r)"
  defines "drv \<equiv> mock_driver env name desc"
  shows "\<exists>c1 st1 s1 ob. storage_load drv (MockCustomerLoader env drv us order cls key i n st) c s = Some (c1, st1, s1, Inr ob) \<and>
    free_connection c1 \<and> mw_container (c_world c1) = mw_container (c_world c) \<and>
    customer_is (mw_heap (c_world c1)) ob i (m_name r) \<and> o_primaryKey ob = key"
proof -
  let ?l = "MockCustomerLoader env drv us order cls key i n st"
  let ?g = "\<lparr>g_connection = held c, g_countLinkedStatement = 1\<rparr>"
  let ?s = "s\<lparr>sto_fault := sto_fault s + 1\<rparr>"
  have w: "c_world (held c) = c_world c" by (simp add: held_def)
  obtain h ob k v where cr: "create_customer order cls key n (c_world c) = (c_world c\<lparr>mw_heap := h\<rparr>, Inr ob)"
      "o_primaryKey ob = key" "reads n h st" "key_at key k" "holds_int h k i"
      "name_at ob v" "getType (h v) = TypeString" "d_maxSize (h v) = 64"
    using create_customer_ok [OF cls key st order] by blast
  let ?g1 = "?g\<lparr>g_connection := (held c)\<lparr>c_world := c_world c\<lparr>mw_heap := h\<rparr>\<rparr>\<rparr>"
  have "holding (g_connection ?g1)" using c by (simp add: free_connection_def holding_def held_def)
  from loader_apply_ok [OF this _ refl, of n st ob k i v r env name desc us] cr r obtain h2 sel where
    ap: "loader_apply env drv us ob ?g1 (st\<lparr>st_locked := True\<rparr>) =
      Some (with_world (c_world c\<lparr>mw_selection := sel, mw_heap := h2\<rparr>) ?g1, executed us (st\<lparr>st_locked := True\<rparr>),
        Inr (mock_result SuccessfulCode))" and cust: "customer_is h2 ob i (m_name r)"
    by (auto simp: drv_def)
  let ?w = "c_world c\<lparr>mw_selection := sel, mw_heap := h2\<rparr>"
  obtain c' where c': "cache_set i ob (sto_cache s) = Some c'"
    by (rule cache_set_refines [of "sto_cache s" i ob]) (use ok in \<open>simp_all add: storage_ok_def capacity_def\<close>)
  have fault: "load_fault ?l s ?g (st\<lparr>st_locked := True\<rparr>) =
      Some (\<lparr>g_connection = (held c)\<lparr>c_world := ?w\<rparr>, g_countLinkedStatement = 1\<rparr>, executed us (st\<lparr>st_locked := True\<rparr>),
        ?s\<lparr>sto_cache := c'\<rparr>, Inr ob)"
    using cr(1) ap c' w by (simp add: load_fault_def MockCustomerLoader_def Let_def check_result_def with_world_def)
  have "\<exists>c1. storage_load drv ?l c s = Some (c1, (executed us (st\<lparr>st_locked := True\<rparr>))\<lparr>st_locked := False\<rparr>,
      ?s\<lparr>sto_cache := c'\<rparr>, Inr ob) \<and> free_connection c1 \<and> c_world c1 = ?w"
    unfolding drv_def
    by (rule load_returns [OF c ok])
      (use c st miss fault in \<open>simp_all add: free_connection_def reads_def MockCustomerLoader_def drv_def\<close>)
  with cust cr(2) show ?thesis by fastforce
qed

lemma load_not_found:
  fixes env :: env and name desc :: string
  assumes c: "free_connection c" and ok: "storage_ok s" and miss: "map_of (objects s) i = None"
    and cls: "customer_class \<lparr>mem_heap = mw_heap (c_world c), mem_next = n\<rparr> cls"
    and key: "customer_key \<lparr>mem_heap = mw_heap (c_world c), mem_next = n\<rparr> cls key i"
    and st: "reads n (mw_heap (c_world c)) st" and order: "\<And>xs. mset (order xs) = mset xs"
    and r: "mw_container (c_world c) i = None"
  defines "drv \<equiv> mock_driver env name desc"
  shows "\<exists>c1 st1. storage_load drv (MockCustomerLoader env drv us order cls key i n st) c s =
      Some (c1, st1, s\<lparr>sto_fault := sto_fault s + 1\<rparr>, Inl (named_exception ''MockCustomerLoader'' (mock_result NotFoundCode))) \<and>
    free_connection c1"
proof -
  let ?l = "MockCustomerLoader env drv us order cls key i n st"
  let ?g = "\<lparr>g_connection = held c, g_countLinkedStatement = 1\<rparr>"
  have w: "c_world (held c) = c_world c" by (simp add: held_def)
  obtain h ob k where cr: "create_customer order cls key n (c_world c) = (c_world c\<lparr>mw_heap := h\<rparr>, Inr ob)"
      "o_primaryKey ob = key" "reads n h st" "key_at key k" "holds_int h k i"
    using create_customer_ok [OF cls key st order] by blast
  let ?g1 = "?g\<lparr>g_connection := (held c)\<lparr>c_world := c_world c\<lparr>mw_heap := h\<rparr>\<rparr>\<rparr>"
  have "holding (g_connection ?g1)" using c by (simp add: free_connection_def holding_def held_def)
  from loader_apply_not_found [OF this _ refl, of n st ob k i env name desc us] cr r obtain h2 sel where
    ap: "loader_apply env drv us ob ?g1 (st\<lparr>st_locked := True\<rparr>) =
      Some (with_world (c_world c\<lparr>mw_heap := h2, mw_selection := sel\<rparr>) ?g1, executed us (st\<lparr>st_locked := True\<rparr>),
        Inr (mock_result NotFoundCode))"
    by (auto simp: drv_def)
  let ?w = "c_world c\<lparr>mw_heap := h2, mw_selection := sel\<rparr>"
  have fault: "load_fault ?l s ?g (st\<lparr>st_locked := True\<rparr>) =
      Some (\<lparr>g_connection = (held c)\<lparr>c_world := ?w\<rparr>, g_countLinkedStatement = 1\<rparr>, executed us (st\<lparr>st_locked := True\<rparr>),
        s\<lparr>sto_fault := sto_fault s + 1\<rparr>, Inl (named_exception ''MockCustomerLoader'' (mock_result NotFoundCode)))"
    using cr(1) ap w by (simp add: load_fault_def MockCustomerLoader_def Let_def check_result_def with_world_def)
  have "\<exists>c1. storage_load drv ?l c s = Some (c1, (executed us (st\<lparr>st_locked := True\<rparr>))\<lparr>st_locked := False\<rparr>,
      s\<lparr>sto_fault := sto_fault s + 1\<rparr>, Inl (named_exception ''MockCustomerLoader'' (mock_result NotFoundCode))) \<and>
      free_connection c1 \<and> c_world c1 = ?w"
    unfolding drv_def
    by (rule load_returns [OF c ok])
      (use c st miss fault in \<open>simp_all add: free_connection_def reads_def MockCustomerLoader_def drv_def\<close>)
  then show ?thesis by fastforce
qed

text \<open>Erasing: the record goes when the unit of work commits.\<close>

lemma erase_commits:
  fixes env :: env and name desc :: string
  assumes c: "free_connection c" and k: "key_at key k" "holds_int (mw_heap (c_world c)) k i" and i: "i \<noteq> 0"
    and st: "writes ''delete'' (mw_heap (c_world c)) st" and ok: "storage_ok s"
  defines "drv \<equiv> mock_driver env name desc"
  shows "\<exists>c1 st1 s1. storage_erase drv ((MockCustomerEraser env drv us key i st)\<lparr>ac_autoCommit := auto\<rparr>) c s =
      Some (c1, st1, s1, Inr ()) \<and>
    free_connection c1 \<and> mw_container (c_world c1) = (mw_container (c_world c))(i := None) \<and>
    storage_ok s1 \<and> map_of (objects s1) i = None \<and>
    (\<forall>ref. ref \<notin> set (st_inputs st) \<longrightarrow> mw_heap (c_world c1) ref = mw_heap (c_world c) ref) \<and>
    (\<forall>ref. same_schema (mw_heap (c_world c) ref) (mw_heap (c_world c1) ref))"
proof -
  let ?acc = "(MockCustomerEraser env drv us key i st)\<lparr>ac_autoCommit := auto\<rparr>"
  let ?g = "\<lparr>g_connection = held c, g_countLinkedStatement = 1\<rparr>"
  let ?st = "st\<lparr>st_locked := True\<rparr>"
  let ?h = "mw_heap (c_world c)"
  have w: "c_world (held c) = c_world c" by (simp add: held_def)
  obtain a b where st': "st_inputs ?st = [a, b]" "st_expression ?st = ''delete''" "requiresCommit ?st" "getType (?h a) = TypeInteger"
    using st by (auto simp: writes_def requiresCommit_def)
  let ?w = "c_world c\<lparr>mw_heap := ?h(a := put_value (IntegerValue i) (?h a))\<rparr>"
  let ?w1 = "addOperation Delete \<lparr>m_id = i, m_name = ''''\<rparr> ?w"
  have hold: "holding ((held c)\<lparr>c_world := ?w\<rparr>)" using c by (simp add: free_connection_def holding_def held_def)
  have "mock_execute env name (?st\<lparr>st_prepared := True\<rparr>) ?w = (?w1, Inr (mock_result SuccessfulCode))"
    by (rule executed_delete [OF st'(2,1)]) (use i in auto)
  with mock_connection_execute [OF hold, of env name ?st ?w1 SuccessfulCode desc us] st'
  have ap: "eraser_apply env drv us key ?g ?st =
      Some (\<lparr>g_connection = (held c)\<lparr>c_commitPending := 1, c_world := ?w1\<rparr>, g_countLinkedStatement = 1\<rparr>,
        executed us ?st, Inr (mock_result SuccessfulCode))"
    using read_int [OF k, of env] put_id_ok [OF st'(1), of "c_world c" env i] i
    by (simp add: eraser_apply_def w IdToThrowDbException_def drv_def guard_execute_def with_world_def) (simp add: held_def)
  have "\<exists>g1 c1. run_accessor drv ?acc \<lparr>g_connection = held c, g_countLinkedStatement = 0\<rparr> =
      Some (g1, (executed us ?st)\<lparr>st_locked := False\<rparr>, Inr ()) \<and> holding (g_connection g1) \<and>
    connection_unlock drv (g_connection g1) = Some c1 \<and> free_connection c1 \<and> c_world c1 = committed ?w1"
    unfolding drv_def
    by (rule accessor_commits [OF c])
      (use ap st c in \<open>simp_all add: MockCustomerEraser_def writes_def addOperation_def free_connection_def drv_def\<close>)
  then obtain g1 c1 where r: "run_accessor drv ?acc \<lparr>g_connection = held c, g_countLinkedStatement = 0\<rparr> =
      Some (g1, (executed us ?st)\<lparr>st_locked := False\<rparr>, Inr ())" "holding (g_connection g1)"
      "connection_unlock drv (g_connection g1) = Some c1" "free_connection c1" "c_world c1 = committed ?w1" by blast
  obtain s1 where s1: "storage_erase_guard drv ?acc s \<lparr>g_connection = held c, g_countLinkedStatement = 0\<rparr> =
      Some (g1, (executed us ?st)\<lparr>st_locked := False\<rparr>, s1, Inr ())"
    by (simp add: storage_erase_guard_def case_prod_beta r(1))
  from erase_effect [OF ok s1] have e: "storage_ok s1" "map_of (objects s1) i = None"
    by (simp_all add: MockCustomerEraser_def map_of_eq_None_iff image_iff)
  have "storage_erase drv ?acc c s = Some (c1, (executed us ?st)\<lparr>st_locked := False\<rparr>, s1, Inr ())"
    using mock_with_connection [OF c, of "storage_erase_guard drv ?acc s"] s1 r(2,3)
    by (simp add: storage_erase_def drv_def)
  moreover have "\<forall>ref. same_schema (?h ref) ((?h(a := put_value (IntegerValue i) (?h a))) ref)"
    using st' by (auto simp: same_schema_def put_value_def)
  ultimately show ?thesis using r e c st'(1)
    by (auto simp: committed_def addOperation_def free_connection_def)
qed

section \<open>What the storage promises to its clients\<close>

text \<open>Values that keep their name, type and size keep the class and the key.\<close>

lemma schema_kept:
  assumes same: "\<forall>ref. same_schema (h ref) (h1 ref)" and out: "\<forall>ref. ref \<notin> A \<longrightarrow> h1 ref = h ref"
  shows "reads n h st \<Longrightarrow> reads n h1 st"
    and "customer_class \<lparr>mem_heap = h, mem_next = n\<rparr> cls \<Longrightarrow> A \<inter> snd ` set (set_datas (cl_members cls)) = {} \<Longrightarrow>
      customer_class \<lparr>mem_heap = h1, mem_next = n\<rparr> cls"
    and "customer_key \<lparr>mem_heap = h, mem_next = n\<rparr> cls key i \<Longrightarrow> A \<inter> snd ` set (set_datas key) = {} \<Longrightarrow>
      customer_key \<lparr>mem_heap = h1, mem_next = n\<rparr> cls key i"
proof -
  have ty: "getType (h1 ref) = getType (h ref)" "d_maxSize (h1 ref) = d_maxSize (h ref)" for ref
    using same by (simp_all add: same_schema_def)
  show "reads n h st \<Longrightarrow> reads n h1 st" by (auto simp: reads_def ty)
  assume cls: "customer_class \<lparr>mem_heap = h, mem_next = n\<rparr> cls" "A \<inter> snd ` set (set_datas (cl_members cls)) = {}"
  have "h1 (snd p) = h (snd p)" if "p \<in> set (set_datas (cl_members cls))" for p using that cls(2) out by auto
  with cls(1) show "customer_class \<lparr>mem_heap = h1, mem_next = n\<rparr> cls"
    by (auto simp: customer_class_def set_in_memory_def ty)
next
  assume key: "customer_key \<lparr>mem_heap = h, mem_next = n\<rparr> cls key i" "A \<inter> snd ` set (set_datas key) = {}"
  have ty: "getType (h1 ref) = getType (h ref)" for ref using same by (simp add: same_schema_def)
  have "h1 k = h k" if "key_at key k" for k
    using that key(2) out by (force simp: key_at_def dest: map_of_SomeD)
  with key(1) show "customer_key \<lparr>mem_heap = h1, mem_next = n\<rparr> cls key i"
    by (auto simp: customer_key_def key_matches_def holds_int_def ty split: option.splits)
qed


text \<open>
  C32: A customer that is erased is gone, from the database and from the storage: the next load
  of its key throws that it was not found, and leaves nothing in the storage.
\<close>

theorem erased_customer_is_gone:
  fixes env :: env and name desc :: string
  assumes c: "free_connection c" and i: "i \<noteq> 0"
    and est: "writes ''delete'' (mw_heap (c_world c)) est" and rst: "reads n (mw_heap (c_world c)) rst"
    and cls: "customer_class \<lparr>mem_heap = mw_heap (c_world c), mem_next = n\<rparr> cls"
    and key: "customer_key \<lparr>mem_heap = mw_heap (c_world c), mem_next = n\<rparr> cls key i"
    and apart: "set (st_inputs est) \<inter> (snd ` set (set_datas (cl_members cls)) \<union> snd ` set (set_datas key)) = {}"
    and sto: "storage_ok sto" and order: "\<And>xs. mset (order xs) = mset xs"
  defines "drv \<equiv> mock_driver env name desc"
  shows "\<exists>c1 st1 sto1 c2 st2 sto2.
    storage_erase drv ((MockCustomerEraser env drv us key i est)\<lparr>ac_autoCommit := auto\<rparr>) c sto = Some (c1, st1, sto1, Inr ()) \<and>
    storage_load drv (MockCustomerLoader env drv us order cls key i n rst) c1 sto1 =
      Some (c2, st2, sto2, Inl (named_exception ''MockCustomerLoader'' (mock_result NotFoundCode))) \<and>
    map_of (objects sto2) i = None \<and> free_connection c2"
proof -
  from key obtain k where k: "key_at key k" "holds_int (mw_heap (c_world c)) k i" by (auto simp: customer_key_def)
  obtain c1 st1 sto1 where erase:
    "storage_erase drv ((MockCustomerEraser env drv us key i est)\<lparr>ac_autoCommit := auto\<rparr>) c sto = Some (c1, st1, sto1, Inr ())"
    "free_connection c1" "mw_container (c_world c1) = (mw_container (c_world c))(i := None)"
    "storage_ok sto1" "map_of (objects sto1) i = None"
    "\<forall>ref. ref \<notin> set (st_inputs est) \<longrightarrow> mw_heap (c_world c1) ref = mw_heap (c_world c) ref"
    "\<forall>ref. same_schema (mw_heap (c_world c) ref) (mw_heap (c_world c1) ref)"
    using erase_commits [OF c k i est sto, of env name desc auto us] unfolding drv_def by blast
  note kept = schema_kept [OF erase(7,6)]
  have apart1: "set (st_inputs est) \<inter> snd ` set (set_datas (cl_members cls)) = {}"
    and apart2: "set (st_inputs est) \<inter> snd ` set (set_datas key) = {}"
    using apart by auto
  obtain c2 st2 where load:
    "storage_load drv (MockCustomerLoader env drv us order cls key i n rst) c1 sto1 =
      Some (c2, st2, sto1\<lparr>sto_fault := sto_fault sto1 + 1\<rparr>, Inl (named_exception ''MockCustomerLoader'' (mock_result NotFoundCode)))"
    "free_connection c2"
    using load_not_found [OF erase(2,4,5) kept(2) [OF cls apart1] kept(3) [OF key apart2] kept(1) [OF rst] order, of env name desc us]
      erase(3) unfolding drv_def by auto
  have "map_of (objects (sto1\<lparr>sto_fault := sto_fault sto1 + 1\<rparr>)) i = None" using erase(5) by simp
  with erase(1) load show ?thesis by blast
qed

text \<open>
  C38: The object that a load makes does not have a key of its own but that of the loader.  A
  client that puts the next identifier into the key, to load the next object as the tests do,
  changes the identifier of the object it has already got: it has the new identifier and
  the old name.
\<close>

theorem loaded_customer_follows_key:
  fixes env :: env and name desc :: string
  assumes c: "free_connection c" and sto: "storage_ok sto" "map_of (objects sto) i = None"
    and cls: "customer_class \<lparr>mem_heap = mw_heap (c_world c), mem_next = n\<rparr> cls"
    and key: "customer_key \<lparr>mem_heap = mw_heap (c_world c), mem_next = n\<rparr> cls key i"
    and rst: "reads n (mw_heap (c_world c)) rst" and order: "\<And>xs. mset (order xs) = mset xs"
    and r: "mw_container (c_world c) i = Some r" "short_name (m_name r)"
  defines "drv \<equiv> mock_driver env name desc"
  shows "\<exists>c1 st1 sto1 ob h. storage_load drv (MockCustomerLoader env drv us order cls key i n rst) c sto =
      Some (c1, st1, sto1, Inr ob) \<and>
    customer_getId env (mw_heap (c_world c1)) ob = Inr i \<and>
    setInteger env ''id'' j key (mw_heap (c_world c1)) = (h, Inr ()) \<and>
    customer_getId env h ob = Inr j \<and> customer_getName env h ob = Inr (m_name r)"
proof -
  obtain c1 st1 sto1 ob where load:
    "storage_load drv (MockCustomerLoader env drv us order cls key i n rst) c sto = Some (c1, st1, sto1, Inr ob)"
    "customer_is (mw_heap (c_world c1)) ob i (m_name r)" "o_primaryKey ob = key"
    using load_finds [OF c sto cls key rst order r, of env name desc us] unfolding drv_def by blast
  let ?h = "mw_heap (c_world c1)"
  from load(2,3) obtain k v where k: "key_at key k" "holds_int ?h k i" and v: "name_at ob v" "holds_text ?h v (m_name r)"
    by (auto simp: customer_is_def)
  let ?h1 = "?h(k := put_value (IntegerValue j) (?h k))"
  have "getType (?h k) = TypeInteger" using k(2) by (simp add: holds_int_def)
  then have "setInteger env ''id'' j key ?h = (?h1, Inr ())" "holds_text ?h1 v (m_name r)"
    using write_id [of ob k ?h env j] k(1) load(3) holds_kept(4) [OF v(2)] by (simp_all add: customer_setId_def)
  moreover have "customer_getId env ?h1 ob = Inr j"
    using read_int [OF k(1), of ?h1 j env] load(3) by (simp add: customer_getId_def)
  ultimately show ?thesis using load customer_values [OF load(2), of env] read_name [OF v(1)] by blast
qed

section \<open>The shop of the tests\<close>

text \<open>The database with its hundred customers, and the class, the key, the object and the statements of the tests.\<close>

lemma fillup_Suc:
  "fillup (Suc n) = mock_add \<lparr>m_id = of_nat n, m_name = ''the name '' @ as_string_int (of_nat n)\<rparr> (fillup n)"
  by (simp add: fillup_def)

lemma fillup_lookup:
  "i < n \<Longrightarrow> n \<le> 2 ^ 32 \<Longrightarrow>
   fillup n (of_nat i) = Some \<lparr>m_id = of_nat i, m_name = ''the name '' @ as_string_int (of_nat i)\<rparr>"
proof (induction n)
  case 0
  then show ?case by simp
next
  case (Suc n)
  show ?case
  proof (cases "i = n")
    case True
    then show ?thesis by (simp add: fillup_Suc mock_add_def)
  next
    case False
    have "(of_nat i :: cint) \<noteq> of_nat n"
    proof
      assume "(of_nat i :: cint) = of_nat n"
      then have "unat (of_nat i :: cint) = unat (of_nat n :: cint)" by simp
      with Suc.prems False show False by (simp add: unat_of_nat)
    qed
    with Suc False show ?thesis by (simp add: fillup_Suc mock_add_def)
  qed
qed

definition shop_heap :: "cint \<Rightarrow> heap" where
  "shop_heap i = bind_customer 8 (bind_customer 6 (bind_customer 4
     (\<lambda>ref. if ref = 0 then integer_new ''id'' False
            else if ref = 2 then put_value (IntegerValue i) (integer_new ''id'' False)
            else if ref = 3 then put_value (StringValue ''5555 name'') (string_new ''name'' 64 False)
            else string_new ''name'' 64 False)))"

definition shop :: "cint \<Rightarrow> mock_world connection" where
  "shop i = connection_new ''db'' ''cnx'' ''user'' ''pwd''
     ((mock_world_new (fillup PreloadRegisterCounter) (shop_heap i))\<lparr>mw_isOpen := True\<rparr>)"

definition shop_key :: data_set where "shop_key = \<lparr>set_datas = [(''id'', 2)], set_stale = 0\<rparr>"

definition shop_object :: object where
  "shop_object = \<lparr>o_class = sample_class, o_primaryKey = shop_key, o_members = \<lparr>set_datas = [(''name'', 3)], set_stale = 0\<rparr>\<rparr>"

definition shop_reader :: statement where "shop_reader = MyReadStatement 4 ''read_only'' ''read'' Rollback"
definition shop_writer :: statement where "shop_writer = MyWriteStatement 6 ''writer'' ''write'' Rollback"
definition shop_eraser :: statement where "shop_eraser = MyWriteStatement 8 ''eraser'' ''delete'' Rollback"

lemmas shop_defs = shop_def shop_heap_def bind_customer_def shop_key_def shop_object_def shop_reader_def shop_writer_def
  shop_eraser_def MyReadStatement_def MyWriteStatement_def statement_new_def connection_new_def mock_world_new_def
  integer_new_def string_new_def data_new_def put_value_def sample_class_def

lemma shop_free: "free_connection (shop i)"
  by (simp add: free_connection_def shop_def connection_new_def mock_world_new_def)

lemma shop_class: "customer_class \<lparr>mem_heap = mw_heap (c_world (shop i)), mem_next = 10\<rparr> sample_class"
  by (simp add: customer_class_def set_in_memory_def distinct_keys_def clone_def c_str_def shop_defs)

lemma shop_has_key: "customer_key \<lparr>mem_heap = mw_heap (c_world (shop i)), mem_next = 10\<rparr> sample_class shop_key i"
  by (simp add: customer_key_def key_matches_def set_size_def key_at_def holds_int_def shop_defs)

lemma shop_reads: "reads 10 (mw_heap (c_world (shop i))) shop_reader"
  by (simp add: reads_def is_read_def shop_defs)

lemma shop_writes:
  "writes ''write'' (mw_heap (c_world (shop i))) shop_writer" "writes ''delete'' (mw_heap (c_world (shop i))) shop_eraser"
  by (simp_all add: writes_def shop_defs)

lemma shop_customer: "customer_is (mw_heap (c_world (shop i))) shop_object i ''5555 name''"
  by (simp add: customer_is_def key_at_def name_at_def holds_int_def holds_text_def shop_defs)

lemma short_5555: "short_name ''5555 name''"
  by (simp add: short_name_def)

lemma shop_apart:
  "set (st_inputs shop_writer) \<inter> (snd ` set (set_datas (cl_members sample_class)) \<union> snd ` set (set_datas shop_key)) = {}"
  "set (st_inputs shop_eraser) \<inter> (snd ` set (set_datas (cl_members sample_class)) \<union> snd ` set (set_datas shop_key)) = {}"
  by (simp_all add: shop_defs)

lemma shop_storage: "map_of (objects (storage_new ''s'' 2)) i = None"
  by (simp add: storage_new_def cache_new_def recency_def)

abbreviation shop_driver :: "mock_world driver" where
  "shop_driver \<equiv> mock_driver sample_env ''cnx'' ''cnx''"


theorem erased_customer_is_gone_witness:
  "\<exists>c1 st1 sto1 c2 st2 sto2.
    storage_erase shop_driver (MockCustomerEraser sample_env shop_driver 1 shop_key 6 shop_eraser) (shop 6) (storage_new ''s'' 2) =
      Some (c1, st1, sto1, Inr ()) \<and>
    storage_load shop_driver (MockCustomerLoader sample_env shop_driver 1 rev sample_class shop_key 6 10 shop_reader) c1 sto1 =
      Some (c2, st2, sto2, Inl (named_exception ''MockCustomerLoader'' (mock_result NotFoundCode)))"
proof -
  have "(MockCustomerEraser sample_env shop_driver 1 shop_key 6 shop_eraser)\<lparr>ac_autoCommit := False\<rparr> =
      MockCustomerEraser sample_env shop_driver 1 shop_key 6 shop_eraser"
    by (simp add: MockCustomerEraser_def)
  with erased_customer_is_gone [OF shop_free _ shop_writes(2) shop_reads shop_class shop_has_key shop_apart(2)
      sample_storage_ok, where i = 6 and order = rev and env = sample_env and name = "''cnx''" and desc = "''cnx''" and us = 1 and auto = False]
  show ?thesis by auto
qed

theorem loaded_customer_follows_key_witness:
  "\<exists>c1 st1 sto1 ob h. storage_load shop_driver
      (MockCustomerLoader sample_env shop_driver 1 rev sample_class shop_key 6 10 shop_reader) (shop 6) (storage_new ''s'' 2) =
      Some (c1, st1, sto1, Inr ob) \<and>
    setInteger sample_env ''id'' 7 shop_key (mw_heap (c_world c1)) = (h, Inr ()) \<and>
    customer_getId sample_env h ob = Inr 7 \<and> customer_getName sample_env h ob = Inr ''the name 6''"
proof -
  have six: "as_string_int 6 = ''6''" by code_simp
  have r: "mw_container (c_world (shop 6)) 6 = Some \<lparr>m_id = 6, m_name = ''the name 6''\<rparr>"
    using fillup_lookup [of 6 100] by (simp add: shop_def connection_new_def mock_world_new_def PreloadRegisterCounter_def six)
  have short: "short_name (m_name \<lparr>m_id = 6, m_name = ''the name 6''\<rparr>)" by (simp add: short_name_def)
  from loaded_customer_follows_key [OF shop_free sample_storage_ok shop_storage shop_class shop_has_key shop_reads _ r short,
      where order = rev and env = sample_env and name = "''cnx''" and desc = "''cnx''" and us = 1 and j = 7]
  show ?thesis by auto
qed

end
