(* ===== verification/TimeThreads.thy ===== *)
theory TimeThreads
  imports TimeWheel
begin

text \<open>
  The threads of the time service: \<open>produce\<close> counts ticks, \<open>consume\<close> waits for them on a
  condition variable and turns the wheel of \<open>TimeWheel\<close>, and the thread that initializes and
  stops the service creates and joins both.

  A step is what a thread does between two points where another one may interfere: what it does
  while it holds the mutex of the service, or one access to the status outside.  An execution is a list of
  actions; an action that is not possible in a state, or that blocks there, has no result.  A
  condition variable may wake a thread for no reason, which is an action of its own.  The
  accesses of \<open>do_stop\<close> to the lists are not under the mutex, a data race: they are steps of
  their own here, the best that can happen.
\<close>

section \<open>The threads\<close>

datatype main_pc =
    M_Idle | M_Locked | M_Producer | M_Consumer | M_Initialized | M_Running
  | M_Clear | M_Notify | M_JoinProducer | M_JoinConsumer | M_Stopped

datatype producer_pc = P_None | P_Signal | P_Check | P_Sleep | P_Push | P_Done

datatype consumer_pc = C_None | C_Lock | C_Check | C_Wait | C_Waiting | C_Woken | C_Drain | C_Done

text \<open>\<open>th_processed\<close> is the history of the ticks taken out of the list.\<close>

record threads =
  th_time :: time_service
  th_mutex :: bool
  th_ticks :: "int list"
  th_counter :: int
  th_processed :: "int list"
  th_main :: main_pc
  th_producer :: producer_pc
  th_consumer :: consumer_pc

definition threads_new :: "time_service \<Rightarrow> threads" where
  "threads_new t =
     \<lparr>th_time = t, th_mutex = False, th_ticks = [], th_counter = 0, th_processed = [],
      th_main = M_Idle, th_producer = P_None, th_consumer = C_None\<rparr>"

definition with_flags :: "cint \<Rightarrow> time_service \<Rightarrow> time_service" where
  "with_flags f t = t\<lparr>t_service := (t_service t)\<lparr>s_flags := f\<rparr>\<rparr>"

abbreviation clock_runs :: "threads \<Rightarrow> bool" where
  "clock_runs s \<equiv> isRunning (s_flags (t_service (th_time s)))"

text \<open>A notification wakes the consumer when it is waiting, and is lost otherwise.\<close>

definition notified :: "consumer_pc \<Rightarrow> consumer_pc" where
  "notified c = (if c = C_Waiting then C_Woken else c)"

section \<open>Initializing and stopping\<close>

text \<open>
  \<open>Service::initialize\<close> around \<open>do_initialize\<close>: the status, the lock, the two threads, the end of
  the scope of the lock, the status again.
\<close>

definition main_lock :: "threads \<Rightarrow> threads option" where
  "main_lock s =
     (if th_main s = M_Idle \<and> \<not> th_mutex s \<and> time_do_initialize (th_time s) = Inr ()
      then Some (s\<lparr>th_main := M_Locked, th_mutex := True, th_time := with_flags Starting (th_time s)\<rparr>)
      else None)"

definition create_producer :: "threads \<Rightarrow> threads option" where
  "create_producer s =
     (if th_main s = M_Locked then Some (s\<lparr>th_main := M_Producer, th_producer := P_Signal\<rparr>) else None)"

definition create_consumer :: "threads \<Rightarrow> threads option" where
  "create_consumer s =
     (if th_main s = M_Producer then Some (s\<lparr>th_main := M_Consumer, th_consumer := C_Lock\<rparr>) else None)"

definition main_release :: "threads \<Rightarrow> threads option" where
  "main_release s =
     (if th_main s = M_Consumer then Some (s\<lparr>th_main := M_Initialized, th_mutex := False\<rparr>) else None)"

definition status_running :: "threads \<Rightarrow> threads option" where
  "status_running s =
     (if th_main s = M_Initialized
      then Some (s\<lparr>th_main := M_Running, th_time := with_flags Running (th_time s)\<rparr>) else None)"

text \<open>\<open>do_stop\<close>: the status, the two lists, the notification, the two joins.\<close>

definition stop_status :: "threads \<Rightarrow> threads option" where
  "stop_status s =
     (if th_main s = M_Running
      then Some (s\<lparr>th_main := M_Clear, th_time := with_flags Stopped (th_time s)\<rparr>) else None)"

definition stop_clear :: "threads \<Rightarrow> threads option" where
  "stop_clear s =
     (if th_main s = M_Clear
      then Some (s\<lparr>th_main := M_Notify, th_ticks := [], th_time := (th_time s)\<lparr>t_events := []\<rparr>\<rparr>) else None)"

definition stop_notify :: "threads \<Rightarrow> threads option" where
  "stop_notify s =
     (if th_main s = M_Notify
      then Some (s\<lparr>th_main := M_JoinProducer, th_consumer := notified (th_consumer s)\<rparr>) else None)"

definition join_producer :: "threads \<Rightarrow> threads option" where
  "join_producer s =
     (if th_main s = M_JoinProducer \<and> th_producer s = P_Done then Some (s\<lparr>th_main := M_JoinConsumer\<rparr>) else None)"

definition join_consumer :: "threads \<Rightarrow> threads option" where
  "join_consumer s =
     (if th_main s = M_JoinConsumer \<and> th_consumer s = C_Done then Some (s\<lparr>th_main := M_Stopped\<rparr>) else None)"

section \<open>The producer\<close>

definition producer_signal :: "threads \<Rightarrow> threads option" where
  "producer_signal s =
     (if th_producer s = P_Signal
      then Some (s\<lparr>th_producer := P_Check,
        th_time := (th_time s)\<lparr>t_service := notifyEffectiveRunning (t_service (th_time s))\<rparr>\<rparr>) else None)"

definition producer_check :: "threads \<Rightarrow> threads option" where
  "producer_check s =
     (if th_producer s = P_Check
      then Some (s\<lparr>th_producer := (if clock_runs s then P_Sleep else P_Done)\<rparr>) else None)"

definition producer_sleep :: "threads \<Rightarrow> threads option" where
  "producer_sleep s = (if th_producer s = P_Sleep then Some (s\<lparr>th_producer := P_Push\<rparr>) else None)"

text \<open>The counter is an \<open>int\<close>; going beyond is undefined.\<close>

definition producer_push :: "threads \<Rightarrow> threads option" where
  "producer_push s =
     (if th_producer s = P_Push \<and> \<not> th_mutex s \<and> th_counter s + 1 < 2 ^ 31
      then Some (s\<lparr>th_producer := P_Check, th_counter := th_counter s + 1,
        th_ticks := th_ticks s @ [th_counter s + 1], th_consumer := notified (th_consumer s)\<rparr>) else None)"

section \<open>The consumer\<close>

definition consumer_lock :: "threads \<Rightarrow> threads option" where
  "consumer_lock s =
     (if th_consumer s = C_Lock \<and> \<not> th_mutex s then Some (s\<lparr>th_consumer := C_Check, th_mutex := True\<rparr>) else None)"

definition consumer_check :: "threads \<Rightarrow> threads option" where
  "consumer_check s =
     (if th_consumer s = C_Check
      then Some (if clock_runs s then s\<lparr>th_consumer := C_Wait\<rparr> else s\<lparr>th_consumer := C_Done, th_mutex := False\<rparr>) else None)"

definition consumer_wait :: "threads \<Rightarrow> threads option" where
  "consumer_wait s =
     (if th_consumer s = C_Wait then Some (s\<lparr>th_consumer := C_Waiting, th_mutex := False\<rparr>) else None)"

definition consumer_spurious :: "threads \<Rightarrow> threads option" where
  "consumer_spurious s = (if th_consumer s = C_Waiting then Some (s\<lparr>th_consumer := C_Woken\<rparr>) else None)"

definition consumer_relock :: "threads \<Rightarrow> threads option" where
  "consumer_relock s =
     (if th_consumer s = C_Woken \<and> \<not> th_mutex s then Some (s\<lparr>th_consumer := C_Drain, th_mutex := True\<rparr>) else None)"

definition consumer_tick :: "int \<Rightarrow> (cint \<Rightarrow> int) \<Rightarrow> threads \<Rightarrow> threads option" where
  "consumer_tick now clock s =
     (if th_consumer s = C_Drain \<and> th_ticks s \<noteq> []
      then Some (s\<lparr>th_ticks := tl (th_ticks s), th_processed := th_processed s @ [hd (th_ticks s)],
        th_time := snd (tick now clock (th_time s))\<rparr>) else None)"

definition consumer_drained :: "threads \<Rightarrow> threads option" where
  "consumer_drained s =
     (if th_consumer s = C_Drain \<and> th_ticks s = [] then Some (s\<lparr>th_consumer := C_Check\<rparr>) else None)"

section \<open>Executions\<close>

datatype action =
    MainLock | CreateProducer | CreateConsumer | MainRelease | StatusRunning
  | StopStatus | StopClear | StopNotify | JoinProducer | JoinConsumer
  | ProducerSignal | ProducerCheck | ProducerSleep | ProducerPush
  | ConsumerLock | ConsumerCheck | ConsumerWait | ConsumerSpurious | ConsumerRelock
  | ConsumerTick int "cint \<Rightarrow> int" | ConsumerDrained
  | ClientActivate int "time_event option" | ClientCancel "time_event option"

definition client_activate :: "int \<Rightarrow> time_event option \<Rightarrow> threads \<Rightarrow> threads option" where
  "client_activate now event s =
     (if th_mutex s then None
      else case time_activate now event (th_time s) of Inl e \<Rightarrow> None | Inr t \<Rightarrow> Some (s\<lparr>th_time := t\<rparr>))"

definition client_cancel :: "time_event option \<Rightarrow> threads \<Rightarrow> threads option" where
  "client_cancel event s =
     (if th_mutex s then None
      else case time_cancel event (th_time s) of None \<Rightarrow> None | Some (t, found) \<Rightarrow> Some (s\<lparr>th_time := t\<rparr>))"

fun thread_step :: "action \<Rightarrow> threads \<Rightarrow> threads option" where
  "thread_step MainLock = main_lock"
| "thread_step CreateProducer = create_producer"
| "thread_step CreateConsumer = create_consumer"
| "thread_step MainRelease = main_release"
| "thread_step StatusRunning = status_running"
| "thread_step StopStatus = stop_status"
| "thread_step StopClear = stop_clear"
| "thread_step StopNotify = stop_notify"
| "thread_step JoinProducer = join_producer"
| "thread_step JoinConsumer = join_consumer"
| "thread_step ProducerSignal = producer_signal"
| "thread_step ProducerCheck = producer_check"
| "thread_step ProducerSleep = producer_sleep"
| "thread_step ProducerPush = producer_push"
| "thread_step ConsumerLock = consumer_lock"
| "thread_step ConsumerCheck = consumer_check"
| "thread_step ConsumerWait = consumer_wait"
| "thread_step ConsumerSpurious = consumer_spurious"
| "thread_step ConsumerRelock = consumer_relock"
| "thread_step (ConsumerTick now clock) = consumer_tick now clock"
| "thread_step ConsumerDrained = consumer_drained"
| "thread_step (ClientActivate now event) = client_activate now event"
| "thread_step (ClientCancel event) = client_cancel event"

fun run_threads :: "action list \<Rightarrow> threads \<Rightarrow> threads option" where
  "run_threads [] s = Some s"
| "run_threads (a # as) s = (case thread_step a s of None \<Rightarrow> None | Some s1 \<Rightarrow> run_threads as s1)"

inductive clock_reaches :: "time_service \<Rightarrow> threads \<Rightarrow> bool" for t where
  clock_start: "clock_reaches t (threads_new t)"
| clock_step: "clock_reaches t s \<Longrightarrow> thread_step a s = Some s1 \<Longrightarrow> clock_reaches t s1"

lemma run_reaches: "clock_reaches t s \<Longrightarrow> run_threads as s = Some s1 \<Longrightarrow> clock_reaches t s1"
  by (induction as arbitrary: s) (auto split: option.splits intro: clock_step)

lemma run_append: "run_threads as s = Some s1 \<Longrightarrow> run_threads bs s1 = Some s2 \<Longrightarrow> run_threads (as @ bs) s = Some s2"
  by (induction as arbitrary: s) (auto split: option.splits)

lemmas main_defs = main_lock_def create_producer_def create_consumer_def main_release_def status_running_def
  stop_status_def stop_clear_def stop_notify_def join_producer_def join_consumer_def
lemmas producer_defs = producer_signal_def producer_check_def producer_sleep_def producer_push_def
lemmas consumer_defs = consumer_lock_def consumer_check_def consumer_wait_def consumer_spurious_def
  consumer_relock_def consumer_tick_def consumer_drained_def
lemmas client_defs = client_activate_def client_cancel_def
lemmas thread_defs = main_defs producer_defs consumer_defs client_defs

section \<open>What the wheel does not touch\<close>

lemma store_service [simp]: "t_service (store now e t) = t_service t"
  by (simp add: store_def Let_def)

lemma fire_events_service: "t_service (snd (fire_events now clock es t)) = t_service t"
  by (induction es arbitrary: t) (auto simp: Let_def case_prod_beta)

lemma tick_service [simp]: "t_service (snd (tick now clock t)) = t_service t"
  by (simp add: tick_def Let_def case_prod_beta fire_events_service)

lemma activate_service: "time_activate now event t = Inr u \<Longrightarrow> t_service u = t_service t"
  by (auto simp: time_activate_def split: if_splits option.splits)

lemma cancel_service: "time_cancel event t = Some (u, found) \<Longrightarrow> t_service u = t_service t"
  by (auto simp: time_cancel_def split: option.splits place.splits)

section \<open>The invariant\<close>

definition main_holds :: "threads \<Rightarrow> bool" where
  "main_holds s \<longleftrightarrow> th_main s \<in> {M_Locked, M_Producer, M_Consumer}"

definition consumer_holds :: "threads \<Rightarrow> bool" where
  "consumer_holds s \<longleftrightarrow> th_consumer s \<in> {C_Check, C_Wait, C_Drain}"

definition not_cleared :: "threads \<Rightarrow> bool" where
  "not_cleared s \<longleftrightarrow> th_main s \<notin> {M_Notify, M_JoinProducer, M_JoinConsumer, M_Stopped}"

text \<open>The mutex, the threads that exist, and the status.\<close>

definition mutex_inv :: "threads \<Rightarrow> bool" where
  "mutex_inv s \<longleftrightarrow>
     (th_mutex s = (main_holds s \<or> consumer_holds s)) \<and> \<not> (main_holds s \<and> consumer_holds s) \<and>
     (th_producer s = P_None \<longleftrightarrow> th_main s \<in> {M_Idle, M_Locked}) \<and>
     (th_consumer s = C_None \<longleftrightarrow> th_main s \<in> {M_Idle, M_Locked, M_Producer}) \<and>
     (th_main s = M_Running \<longrightarrow> s_flags (t_service (th_time s)) = Running)"

text \<open>
  The ticks: those handled and those waiting are the ones counted, in order, until a stop drops
  some; a consumer that has handled one does not wait while there are more.
\<close>

definition ordered :: "int list \<Rightarrow> int list \<Rightarrow> int \<Rightarrow> bool \<Rightarrow> bool" where
  "ordered ps ts n all \<longleftrightarrow>
     0 \<le> n \<and> sorted_wrt (<) (ps @ ts) \<and> set (ps @ ts) \<subseteq> {1..n} \<and> (all \<longrightarrow> ps @ ts = [1..n])"

definition ticks_inv :: "threads \<Rightarrow> bool" where
  "ticks_inv s \<longleftrightarrow>
     ordered (th_processed s) (th_ticks s) (th_counter s) (not_cleared s) \<and>
     (th_consumer s \<in> {C_None, C_Lock} \<longrightarrow> th_processed s = []) \<and>
     (th_consumer s \<in> {C_Check, C_Wait, C_Waiting} \<and> th_processed s \<noteq> [] \<longrightarrow> th_ticks s = [])"

lemma upto_Suc: "0 \<le> n \<Longrightarrow> [1..n + 1] = [1..n] @ [n + 1 :: int]"
  using upto_rec2 [of 1 "n + 1"] by simp

lemma ordered_push: "ordered ps ts n all \<Longrightarrow> ordered ps (ts @ [n + 1]) (n + 1) all"
  using upto_Suc [of n] by (fastforce simp: ordered_def sorted_wrt_append)

lemma ordered_take: "ordered ps ts n all \<Longrightarrow> ts \<noteq> [] \<Longrightarrow> ordered (ps @ [hd ts]) (tl ts) n all"
  by (cases ts) (simp_all add: ordered_def)

lemma ordered_clear: "ordered ps ts n all \<Longrightarrow> ordered ps [] n False"
  by (auto simp: ordered_def sorted_wrt_append)

text \<open>The other steps do not concern the wheel.\<close>

definition client :: "action \<Rightarrow> bool" where
  "client a \<longleftrightarrow> (\<exists>now event. a = ClientActivate now event) \<or> (\<exists>event. a = ClientCancel event)"

lemma client_simps [simp]: "client (ClientActivate now event)" "client (ClientCancel event)"
  by (simp_all add: client_def)

lemma client_steps:
  assumes x: "thread_step a s = Some s1" and c: "client a"
  shows "\<exists>t. s1 = s\<lparr>th_time := t\<rparr> \<and> t_service t = t_service (th_time s)"
proof (cases a)
  case (ClientActivate now event)
  with x obtain t where "time_activate now event (th_time s) = Inr t" "s1 = s\<lparr>th_time := t\<rparr>"
    by (auto simp: client_defs split: if_splits sum.splits)
  then show ?thesis by (intro exI [of _ t]) (simp add: activate_service)
next
  case (ClientCancel event)
  with x obtain t found where "time_cancel event (th_time s) = Some (t, found)" "s1 = s\<lparr>th_time := t\<rparr>"
    by (auto simp: client_defs split: if_splits option.splits)
  then show ?thesis by (intro exI [of _ t]) (simp add: cancel_service)
qed (use c in \<open>simp_all add: client_def\<close>)

lemma mutex_inv_time: "t_service t = t_service (th_time s) \<Longrightarrow> mutex_inv (s\<lparr>th_time := t\<rparr>) = mutex_inv s"
  by (simp add: mutex_inv_def main_holds_def consumer_holds_def)

lemma mutex_inv_step:
  assumes inv: "mutex_inv s" and x: "thread_step a s = Some s1"
  shows "mutex_inv s1"
proof (cases "client a")
  case True
  with client_steps [OF x] mutex_inv_time inv show ?thesis by auto
next
  case False
  then show ?thesis
    using inv x
    by (cases a) (clarsimp simp: main_defs producer_defs consumer_defs mutex_inv_def main_holds_def consumer_holds_def
        notified_def with_flags_def notifyEffectiveRunning_def split: if_splits)+
qed

lemma ticks_inv_step:
  assumes m: "mutex_inv s" and inv: "ticks_inv s" and x: "thread_step a s = Some s1"
  shows "ticks_inv s1"
proof (cases "client a")
  case True
  with client_steps [OF x] obtain u where "s1 = s\<lparr>th_time := u\<rparr>" by blast
  with inv show ?thesis by (simp add: ticks_inv_def not_cleared_def)
next
  case False
  have "\<not> th_mutex s \<Longrightarrow> th_consumer s \<notin> {C_Check, C_Wait}" using m by (simp add: mutex_inv_def consumer_holds_def)
  moreover have "th_main s = M_Producer \<Longrightarrow> th_consumer s = C_None" using m by (simp add: mutex_inv_def)
  ultimately show ?thesis
    using False inv x
    by (cases a) (clarsimp simp: main_defs producer_defs consumer_defs ticks_inv_def not_cleared_def notified_def
        ordered_push ordered_take ordered_clear split: if_splits)+
qed

lemma clock_inv: "clock_reaches t s \<Longrightarrow> mutex_inv s \<and> ticks_inv s"
proof (induction rule: clock_reaches.induct)
  case clock_start
  then show ?case
    by (simp add: mutex_inv_def ticks_inv_def ordered_def threads_new_def main_holds_def consumer_holds_def not_cleared_def)
next
  case (clock_step s a s1)
  then show ?case by (blast intro: mutex_inv_step ticks_inv_step)
qed

section \<open>What the invariant says\<close>

text \<open>
  C24: However the threads of the time service and its clients interleave, the ticks are handled
  one at a time and in the order in which they were counted.  Until the service is
  stopped none is lost or invented: those handled and those waiting are the first ones that
  were counted, and a consumer that has handled a tick does not wait while there are more.
\<close>

theorem ticks_handled_in_order:
  assumes "clock_reaches t s"
  shows "sorted_wrt (<) (th_processed s @ th_ticks s) \<and>
    (not_cleared s \<longrightarrow> th_processed s @ th_ticks s = [1..th_counter s]) \<and>
    (th_consumer s = C_Waiting \<and> th_processed s \<noteq> [] \<longrightarrow> th_ticks s = []) \<and>
    (th_consumer s = C_Drain \<longrightarrow> th_mutex s)"
  using clock_inv [OF assms] by (auto simp: ticks_inv_def ordered_def mutex_inv_def consumer_holds_def)

text \<open>The service is initialized and both threads enter their loops.\<close>

definition started_actions :: "action list" where
  "started_actions = [MainLock, CreateProducer, CreateConsumer, MainRelease, StatusRunning,
     ProducerSignal, ProducerCheck, ConsumerLock, ConsumerCheck, ConsumerWait]"

lemma small_initializes: "time_do_initialize (with_flags Stopped small_wheel) = Inr ()"
  by (simp add: time_do_initialize_def with_flags_def small_wheel_def)

theorem ticks_handled_in_order_witness:
  "\<exists>s. run_threads (started_actions @ [ProducerSleep, ProducerPush, ConsumerRelock, ConsumerTick 5 (\<lambda>i. 0), ConsumerDrained])
      (threads_new (with_flags Stopped small_wheel)) = Some s \<and> th_processed s = [1] \<and> th_consumer s = C_Check \<and>
    sorted_wrt (<) (th_processed s @ th_ticks s)"
proof -
  let ?s = "threads_new (with_flags Stopped small_wheel)"
  obtain s where s: "run_threads (started_actions @ [ProducerSleep, ProducerPush, ConsumerRelock, ConsumerTick 5 (\<lambda>i. 0),
      ConsumerDrained]) ?s = Some s" "th_processed s = [1]" "th_consumer s = C_Check"
    using small_initializes
    by (simp add: started_actions_def thread_defs threads_new_def notified_def with_flags_def notifyEffectiveRunning_def)
  from ticks_handled_in_order [OF run_reaches [OF clock_start s(1)]] s show ?thesis by blast
qed

section \<open>A clock that runs goes on\<close>

text \<open>Both threads are in their loops.\<close>

definition active :: "threads \<Rightarrow> bool" where
  "active s \<longleftrightarrow> clock_runs s \<and> (th_mutex s = consumer_holds s) \<and>
     th_producer s \<notin> {P_None, P_Done} \<and> th_consumer s \<notin> {C_None, C_Done} \<and> th_counter s + 1 < 2 ^ 31"

definition leads_to :: "threads \<Rightarrow> threads \<Rightarrow> bool" where
  "leads_to s s1 \<longleftrightarrow> (\<exists>as. ConsumerSpurious \<notin> set as \<and> run_threads as s = Some s1)"

lemma leads_to_trans: "leads_to s s1 \<Longrightarrow> leads_to s1 s2 \<Longrightarrow> leads_to s s2"
  unfolding leads_to_def using run_append by (metis Un_iff set_append)

lemma leads_to_step: "thread_step a s = Some s1 \<Longrightarrow> a \<noteq> ConsumerSpurious \<Longrightarrow> leads_to s s1"
  unfolding leads_to_def by (intro exI [of _ "[a]"]) simp

text \<open>The next tick is counted.\<close>

fun until_push :: "producer_pc \<Rightarrow> action list" where
  "until_push P_Signal = [ProducerSignal, ProducerCheck, ProducerSleep, ProducerPush]"
| "until_push P_Check = [ProducerCheck, ProducerSleep, ProducerPush]"
| "until_push P_Sleep = [ProducerSleep, ProducerPush]"
| "until_push P_Push = [ProducerPush]"
| "until_push p = []"

lemma leads_to_push:
  assumes "active s" "\<not> th_mutex s"
  shows "\<exists>s1. leads_to s s1 \<and> th_ticks s1 = th_ticks s @ [th_counter s + 1] \<and> th_processed s1 = th_processed s \<and>
    th_consumer s1 = notified (th_consumer s) \<and> \<not> th_mutex s1"
proof -
  have "\<exists>s1. run_threads (until_push (th_producer s)) s = Some s1 \<and> th_ticks s1 = th_ticks s @ [th_counter s + 1] \<and>
      th_processed s1 = th_processed s \<and> th_consumer s1 = notified (th_consumer s) \<and> \<not> th_mutex s1"
    using assms by (cases "th_producer s") (simp_all add: producer_defs active_def notifyEffectiveRunning_def)
  moreover have "ConsumerSpurious \<notin> set (until_push p)" for p by (cases p) simp_all
  ultimately show ?thesis unfolding leads_to_def by blast
qed

text \<open>A tick that waits is handled, by a consumer that is on its way to it.\<close>

lemma drain_handles:
  "th_consumer s = C_Drain \<Longrightarrow> th_ticks s \<noteq> [] \<Longrightarrow>
   \<exists>s1. leads_to s s1 \<and> th_processed s1 = th_processed s @ [hd (th_ticks s)]"
  by (intro exI conjI, rule leads_to_step [where a = "ConsumerTick 0 (\<lambda>i. 0)"]) (auto simp: consumer_defs)

lemma woken_handles:
  assumes "th_consumer s = C_Woken" "\<not> th_mutex s" "th_ticks s \<noteq> []"
  shows "\<exists>s1. leads_to s s1 \<and> th_processed s1 = th_processed s @ [hd (th_ticks s)]"
proof -
  let ?s = "s\<lparr>th_consumer := C_Drain, th_mutex := True\<rparr>"
  have "leads_to s ?s" using assms by (intro leads_to_step [where a = ConsumerRelock]) (simp_all add: consumer_defs)
  with drain_handles [of ?s] assms show ?thesis using leads_to_trans by fastforce
qed

lemma waiting_handles:
  assumes a: "active s" and w: "th_consumer s = C_Waiting"
  shows "\<exists>s1. leads_to s s1 \<and> th_processed s1 = th_processed s @ [hd (th_ticks s @ [th_counter s + 1])]"
proof -
  have "\<not> th_mutex s" using a w by (simp add: active_def consumer_holds_def)
  from leads_to_push [OF a this] w obtain s1 where s1: "leads_to s s1" "th_ticks s1 = th_ticks s @ [th_counter s + 1]"
    "th_processed s1 = th_processed s" "th_consumer s1 = C_Woken" "\<not> th_mutex s1" by (auto simp: notified_def)
  from woken_handles [OF s1(4,5)] s1(1-3) leads_to_trans show ?thesis by (metis snoc_eq_iff_butlast)
qed

text \<open>The steps that lead a consumer to its wait.\<close>

lemma check_handles:
  assumes a: "active s" and w: "th_consumer s \<in> {C_Check, C_Wait}"
  shows "\<exists>s1. leads_to s s1 \<and> th_processed s1 = th_processed s @ [hd (th_ticks s @ [th_counter s + 1])]"
proof -
  let ?s = "s\<lparr>th_consumer := C_Waiting, th_mutex := False\<rparr>"
  have "run_threads (if th_consumer s = C_Check then [ConsumerCheck, ConsumerWait] else [ConsumerWait]) s = Some ?s"
    using a w by (auto simp: consumer_defs active_def)
  then have "leads_to s ?s"
    unfolding leads_to_def
    by (intro exI [of _ "if th_consumer s = C_Check then [ConsumerCheck, ConsumerWait] else [ConsumerWait]"]) simp
  moreover have "active ?s" using a by (simp add: active_def consumer_holds_def)
  ultimately show ?thesis using waiting_handles [of ?s] leads_to_trans by fastforce
qed

lemma active_handles:
  assumes a: "active s"
  shows "\<exists>s1. leads_to s s1 \<and> th_processed s1 = th_processed s @ [hd (th_ticks s @ [th_counter s + 1])]"
proof -
  have by_check: ?thesis if "leads_to s (s\<lparr>th_consumer := C_Check, th_mutex := True\<rparr>)"
    using check_handles [of "s\<lparr>th_consumer := C_Check, th_mutex := True\<rparr>"] a leads_to_trans [OF that]
    by (fastforce simp: active_def consumer_holds_def)
  show ?thesis
  proof (cases "th_consumer s")
    case C_Lock
    then have "leads_to s (s\<lparr>th_consumer := C_Check, th_mutex := True\<rparr>)"
      using a by (intro leads_to_step [where a = ConsumerLock]) (simp_all add: consumer_defs active_def consumer_holds_def)
    then show ?thesis by (rule by_check)
  next
    case C_Woken
    then have free: "\<not> th_mutex s" using a by (simp add: active_def consumer_holds_def)
    show ?thesis
    proof (cases "th_ticks s")
      case Nil
      have "run_threads [ConsumerRelock, ConsumerDrained] s = Some (s\<lparr>th_consumer := C_Check, th_mutex := True\<rparr>)"
        using C_Woken free Nil by (simp add: consumer_defs)
      then show ?thesis by (intro by_check) (auto simp: leads_to_def intro!: exI [of _ "[ConsumerRelock, ConsumerDrained]"])
    next
      case (Cons k ks)
      with woken_handles [OF C_Woken free] show ?thesis by simp
    qed
  next
    case C_Drain
    show ?thesis
    proof (cases "th_ticks s")
      case Nil
      have "th_mutex s" using a C_Drain by (simp add: active_def consumer_holds_def)
      then have "leads_to s (s\<lparr>th_consumer := C_Check, th_mutex := True\<rparr>)"
        using C_Drain Nil by (intro leads_to_step [where a = ConsumerDrained]) (simp_all add: consumer_defs)
      then show ?thesis by (rule by_check)
    next
      case (Cons k ks)
      with drain_handles [OF C_Drain] show ?thesis by simp
    qed
  qed (use a check_handles [OF a] waiting_handles [OF a] in \<open>simp_all add: active_def\<close>)
qed



section \<open>A clock that starts dead\<close>

definition dead :: "threads \<Rightarrow> bool" where
  "dead s \<longleftrightarrow> th_main s \<notin> {M_Idle, M_Locked, M_Producer, M_Consumer} \<and> th_producer s = P_Done \<and>
     th_consumer s = C_Done \<and> th_processed s = []"

lemma dead_step:
  assumes "dead s" "thread_step a s = Some s1"
  shows "dead s1"
proof (cases "client a")
  case True
  with client_steps [OF assms(2)] obtain u where "s1 = s\<lparr>th_time := u\<rparr>" by blast
  with assms(1) show ?thesis by (simp add: dead_def)
next
  case False
  with assms show ?thesis
    by (cases a) (clarsimp simp: main_defs producer_defs consumer_defs dead_def notified_def split: if_splits)+
qed

lemma dead_run: "dead s \<Longrightarrow> run_threads as s = Some s1 \<Longrightarrow> dead s1"
  by (induction as arbitrary: s) (auto split: option.splits dest: dead_step)

text \<open>Both threads look at the status before it says that the service runs.\<close>

definition dead_actions :: "action list" where
  "dead_actions = [MainLock, CreateProducer, ProducerSignal, ProducerCheck, CreateConsumer, MainRelease,
     ConsumerLock, ConsumerCheck, StatusRunning]"

lemma new_service:
  "time_service_new maxTime resolution = Some t \<Longrightarrow> resolution < maxTime \<Longrightarrow>
   time_do_initialize t = Inr () \<and> s_running (t_service t) = 0"
  by (auto simp: time_service_new_def time_do_initialize_def service_new_def split: option.splits if_splits)

text \<open>
  C26: The service can start and be dead.  Its threads leave their loops when they find that it does not
  run, and the status says that it runs only after they have been created.  A schedule in which
  they are faster ends with a service that runs, for which a client that waits until it is
  effectively running is let through, and that accepts timers; but no execution from there on
  handles a tick.
\<close>

theorem clock_can_start_dead:
  assumes "time_service_new maxTime resolution = Some t" "resolution < maxTime"
  shows "\<exists>s. clock_reaches t s \<and> th_main s = M_Running \<and> clock_runs s \<and>
    waitEffectiveRunning (t_service (th_time s)) \<noteq> None \<and>
    (\<forall>e now. resolution \<le> ev_timeout e \<and> ev_timeout e \<le> maxTime \<and> ev_timeout e \<noteq> 0 \<longrightarrow>
      client_activate now (Some e) s \<noteq> None) \<and>
    (\<forall>as s1. run_threads as s = Some s1 \<longrightarrow> th_processed s1 = [])"
proof -
  note new = new_service [OF assms]
  have t: "t_maxTime t = maxTime" "t_resolution t = resolution" "t_events t = []"
    using assms(1) by (auto simp: time_service_new_def split: option.splits if_splits)
  let ?t = "with_flags Running (t\<lparr>t_service := notifyEffectiveRunning (t_service t)\<rparr>)"
  let ?s = "(threads_new t)\<lparr>th_time := ?t, th_main := M_Running, th_producer := P_Done, th_consumer := C_Done\<rparr>"
  have run: "run_threads dead_actions (threads_new t) = Some ?s"
    using new by (simp add: dead_actions_def thread_defs threads_new_def with_flags_def notifyEffectiveRunning_def)
  have "waitEffectiveRunning (t_service ?t) \<noteq> None"
    using new by (simp add: with_flags_def waitEffectiveRunning_def notifyEffectiveRunning_def sem_signal_def sem_wait_def)
  moreover have "client_activate now (Some e) ?s \<noteq> None"
    if "resolution \<le> ev_timeout e" "ev_timeout e \<le> maxTime" "ev_timeout e \<noteq> 0" for e now
    using that t by (simp add: client_activate_def time_activate_def threads_new_def with_flags_def)
  moreover have "dead ?s" by (simp add: dead_def threads_new_def)
  then have "th_processed s1 = []" if "run_threads as ?s = Some s1" for as s1
    using dead_run [OF _ that] by (simp add: dead_def)
  moreover have "clock_runs ?s" by (simp add: with_flags_def)
  ultimately show ?thesis
    by (intro exI [of _ ?s]) (simp add: run_reaches [OF clock_start run] del: not_None_eq)
qed

theorem clock_can_start_dead_witness:
  "\<exists>t s. time_service_new 1000 300 = Some t \<and> clock_reaches t s \<and> clock_runs s \<and>
    (\<forall>as s1. run_threads as s = Some s1 \<longrightarrow> th_processed s1 = [])"
proof -
  obtain t where t: "time_service_new 1000 300 = Some t"
    using quantum_loop_rounds_up [of 300 1000] by (simp add: time_service_new_def)
  from clock_can_start_dead [OF t] t show ?thesis by auto
qed

section \<open>A stop that hangs\<close>

text \<open>
  The consumer has looked at the status and is about to wait when the service is stopped; the
  producer has just counted a tick and finds that the service does not run.
\<close>

definition hang_actions :: "action list" where
  "hang_actions = [MainLock, CreateProducer, CreateConsumer, MainRelease, StatusRunning,
     ProducerSignal, ProducerCheck, ProducerSleep, ProducerPush, ConsumerLock, ConsumerCheck,
     StopStatus, StopClear, StopNotify, ConsumerWait, ProducerCheck, JoinProducer]"

text \<open>
  C27: Stopping the service can hang.  The status changes and the waiting threads are notified without the
  mutex, so the notification can fall between the test of the status in the consumer and its wait, and
  is lost.  When the producer ends as well, without another tick, the thread that stops the
  service waits for the consumer, the consumer waits for a notification, and nobody is left to
  give one: the only steps are a spurious wake-up and cancellations that find nothing.
\<close>

theorem stop_can_hang:
  assumes "time_service_new maxTime resolution = Some t" "resolution < maxTime"
  shows "\<exists>s. clock_reaches t s \<and> th_main s = M_JoinConsumer \<and> th_consumer s = C_Waiting \<and>
    (\<forall>a s1. thread_step a s = Some s1 \<longrightarrow> a = ConsumerSpurious \<or> (\<exists>e. a = ClientCancel e) \<and> s1 = s)"
proof -
  note new = new_service [OF assms]
  let ?t = "(with_flags Stopped (t\<lparr>t_service := notifyEffectiveRunning (t_service t)\<rparr>))\<lparr>t_events := []\<rparr>"
  let ?s = "(threads_new t)\<lparr>th_time := ?t, th_main := M_JoinConsumer, th_producer := P_Done, th_consumer := C_Waiting,
      th_counter := 1\<rparr>"
  have run: "run_threads hang_actions (threads_new t) = Some ?s"
    using new
    by (simp add: hang_actions_def thread_defs threads_new_def with_flags_def notifyEffectiveRunning_def notified_def)
  have "a = ConsumerSpurious \<or> (\<exists>e. a = ClientCancel e) \<and> s1 = ?s" if "thread_step a ?s = Some s1" for a s1
    using that
    by (cases a) (auto simp: thread_defs threads_new_def with_flags_def time_activate_def time_cancel_def
        split: option.splits)
  then show ?thesis
    by (intro exI [of _ ?s]) (simp add: run_reaches [OF clock_start run])
qed

theorem stop_can_hang_witness:
  "\<exists>t s. time_service_new 1000 300 = Some t \<and> clock_reaches t s \<and> th_main s = M_JoinConsumer \<and> th_consumer s = C_Waiting"
proof -
  obtain t where t: "time_service_new 1000 300 = Some t"
    using quantum_loop_rounds_up [of 300 1000] by (simp add: time_service_new_def)
  from stop_can_hang [OF t] t show ?thesis by auto
qed

section \<open>The length of a tick\<close>

text \<open>
  How long the producer sleeps, in microseconds: what a round took too long is taken off the next
  one.  A round is measured in nanoseconds, from the first reading of the clock to the second;
  \<open>duration_cast\<close> cuts the difference towards zero, and \<open>usleep\<close> takes an unsigned number of 32 bits.
\<close>

definition to_microseconds :: "int \<Rightarrow> int" where
  "to_microseconds d = (if 0 \<le> d then d div 1000 else - ((- d) div 1000))"

definition next_wait :: "int \<Rightarrow> int \<Rightarrow> int \<Rightarrow> int" where
  "next_wait resolution timeToWait lasted = timeToWait + to_microseconds (resolution * 1000 - lasted)"

definition usleep_argument :: "int \<Rightarrow> cuint" where
  "usleep_argument timeToWait = word_of_int timeToWait"

fun waits_after :: "int \<Rightarrow> int \<Rightarrow> int list \<Rightarrow> int" where
  "waits_after resolution timeToWait [] = timeToWait"
| "waits_after resolution timeToWait (lasted # ls) = waits_after resolution (next_wait resolution timeToWait lasted) ls"

text \<open>Every round lasts as long as it sleeps, and \<open>late\<close> microseconds more at most.\<close>

fun rounds_late :: "int \<Rightarrow> int \<Rightarrow> int \<Rightarrow> int list \<Rightarrow> bool" where
  "rounds_late late resolution timeToWait [] = True"
| "rounds_late late resolution timeToWait (lasted # ls) =
     (uint (usleep_argument timeToWait) * 1000 \<le> lasted \<and>
      lasted \<le> (uint (usleep_argument timeToWait) + late) * 1000 \<and>
      rounds_late late resolution (next_wait resolution timeToWait lasted) ls)"

lemma to_microseconds_bounds: "to_microseconds d * 1000 < d + 1000" "d - 1000 < to_microseconds d * 1000"
  by (auto simp: to_microseconds_def)

lemma to_microseconds_mono: "k * 1000 \<le> d \<Longrightarrow> k \<le> to_microseconds d" "d \<le> k * 1000 \<Longrightarrow> to_microseconds d \<le> k"
  by (auto simp: to_microseconds_def)

lemma usleep_exact: "0 \<le> w \<Longrightarrow> w < 2 ^ 32 \<Longrightarrow> uint (usleep_argument w) = w"
  by (simp add: usleep_argument_def uint_word_of_int)

lemma next_wait_range:
  assumes "w * 1000 \<le> l" "l \<le> (w + late) * 1000"
  shows "resolution - late \<le> next_wait resolution w l" "next_wait resolution w l \<le> resolution"
  using assms to_microseconds_mono [of "resolution - w - late" "resolution * 1000 - l"]
    to_microseconds_mono [of "resolution * 1000 - l" "resolution - w"]
  by (simp_all add: next_wait_def algebra_simps)

lemma waits_sum:
  assumes "resolution < 2 ^ 32" "late \<le> resolution"
  shows "resolution - late \<le> w \<Longrightarrow> w \<le> resolution \<Longrightarrow> rounds_late late resolution w ls \<Longrightarrow>
    resolution - late \<le> waits_after resolution w ls \<and> waits_after resolution w ls \<le> resolution \<and>
    \<bar>sum_list ls - (int (length ls) * resolution + w - waits_after resolution w ls) * 1000\<bar> \<le> int (length ls) * 1000"
proof (induction ls arbitrary: w)
  case Nil
  then show ?case by simp
next
  case (Cons l ls)
  let ?v = "next_wait resolution w l"
  have "uint (usleep_argument w) = w" using Cons.prems assms by (intro usleep_exact) simp_all
  then have l: "w * 1000 \<le> l" "l \<le> (w + late) * 1000" "rounds_late late resolution ?v ls" using Cons.prems by simp_all
  from Cons.IH [OF next_wait_range [OF l(1,2)] l(3)] have ih:
    "resolution - late \<le> waits_after resolution ?v ls" "waits_after resolution ?v ls \<le> resolution"
    "\<bar>sum_list ls - (int (length ls) * resolution + ?v - waits_after resolution ?v ls) * 1000\<bar> \<le> int (length ls) * 1000"
    by simp_all
  have "\<bar>l - (resolution + w - ?v) * 1000\<bar> \<le> 1000"
    using to_microseconds_bounds [of "resolution * 1000 - l"] by (simp add: next_wait_def algebra_simps)
  with ih show ?case by (simp add: algebra_simps)
qed



text \<open>
  A round that is late by more than a tick, as when the machine was suspended, makes the next time
  to wait negative, which \<open>usleep\<close> takes for a very long one: at least half an hour.
\<close>

lemma late_round_stops_clock:
  assumes "(w + resolution + 1) * 1000 \<le> lasted" "lasted \<le> (w + resolution + 2 ^ 31) * 1000"
    and "0 \<le> w"
  shows "2 ^ 31 \<le> uint (usleep_argument (next_wait resolution w lasted))"
proof -
  let ?v = "next_wait resolution w lasted"
  have v: "- (2 ^ 31) \<le> ?v" "?v < 0"
    using assms to_microseconds_mono(1) [of "- (w + 2 ^ 31)" "resolution * 1000 - lasted"]
      to_microseconds_mono(2) [of "resolution * 1000 - lasted" "- (w + 1)"]
    by (simp_all add: next_wait_def algebra_simps)
  have "?v mod 2 ^ 32 = (?v + 2 ^ 32) mod 2 ^ 32" by simp
  also have "\<dots> = ?v + 2 ^ 32" using v by (intro mod_pos_pos_trivial) simp_all
  finally have "uint (usleep_argument ?v) = ?v + 2 ^ 32" by (simp add: usleep_argument_def uint_word_of_int)
  with v(1) show ?thesis by simp
qed

end
