(* ===== verification/Modules.thy ===== *)
theory Modules
  imports Prelude
begin

text \<open>
  \<open>config\<close>: the release of the library, and the repository in which every part of it registers
  the tag of its version when it is first used, after the parts it is built on.

  The repository is an ordered set of pointers: what is kept and compared is the address of a
  tag.  \<open>addr\<close> is the address of the constant with a given text, which the linker chooses.
\<close>

section \<open>The repository\<close>

type_synonym addresses = "string \<Rightarrow> nat"

definition registerModule :: "addresses \<Rightarrow> string \<Rightarrow> string list \<Rightarrow> string list" where
  "registerModule addr tag ms = (if addr tag \<in> addr ` set ms then ms else insort_key addr tag ms)"

definition sccs_tag :: "string \<Rightarrow> string \<Rightarrow> string" where
  "sccs_tag module_name release = ''@COFFEE.'' @ module_name @ '' '' @ release"

definition release_tag :: "string \<Rightarrow> string" where
  "release_tag m = sccs_tag m ''release-19.01.29''"

section \<open>The activations\<close>

definition sccs_config :: "addresses \<Rightarrow> string list \<Rightarrow> string list" where
  "sccs_config addr ms = registerModule addr (release_tag ''config'') ms"

definition sccs_basis :: "addresses \<Rightarrow> string list \<Rightarrow> string list" where
  "sccs_basis addr ms = registerModule addr (release_tag ''basis'') (sccs_config addr ms)"

definition sccs_xml :: "addresses \<Rightarrow> string list \<Rightarrow> string list" where
  "sccs_xml addr ms = registerModule addr (release_tag ''xml'') (sccs_basis addr ms)"

definition sccs_logger :: "addresses \<Rightarrow> string list \<Rightarrow> string list" where
  "sccs_logger addr ms = registerModule addr (release_tag ''logger'') (sccs_basis addr ms)"

text \<open>What most parts begin with.\<close>

definition sccs_common :: "addresses \<Rightarrow> string list \<Rightarrow> string list" where
  "sccs_common addr ms = sccs_logger addr (sccs_xml addr (sccs_basis addr (sccs_config addr ms)))"

definition sccs_app :: "addresses \<Rightarrow> string list \<Rightarrow> string list" where
  "sccs_app addr ms = registerModule addr (release_tag ''app'') (sccs_common addr ms)"

definition sccs_balance :: "addresses \<Rightarrow> string list \<Rightarrow> string list" where
  "sccs_balance addr ms = registerModule addr (release_tag ''balance'') (sccs_common addr ms)"

definition sccs_time :: "addresses \<Rightarrow> string list \<Rightarrow> string list" where
  "sccs_time addr ms = registerModule addr (release_tag ''time'') (sccs_app addr (sccs_common addr ms))"

definition sccs_dbms :: "addresses \<Rightarrow> string list \<Rightarrow> string list" where
  "sccs_dbms addr ms =
     registerModule addr (release_tag ''dbms'') (sccs_time addr (sccs_app addr (sccs_common addr ms)))"

definition sccs_sqlite :: "addresses \<Rightarrow> string list \<Rightarrow> string list" where
  "sccs_sqlite addr ms =
     registerModule addr (release_tag ''dbms_sqlite'') (sccs_dbms addr (sccs_app addr (sccs_common addr ms)))"

definition sccs_ldap :: "addresses \<Rightarrow> string list \<Rightarrow> string list" where
  "sccs_ldap addr ms =
     registerModule addr (release_tag ''dbms_ldap'') (sccs_dbms addr (sccs_app addr (sccs_common addr ms)))"

definition sccs_networking :: "addresses \<Rightarrow> string list \<Rightarrow> string list" where
  "sccs_networking addr ms =
     registerModule addr (release_tag ''networking'') (sccs_time addr (sccs_app addr (sccs_common addr ms)))"

definition sccs_http :: "addresses \<Rightarrow> string list \<Rightarrow> string list" where
  "sccs_http addr ms =
     registerModule addr (release_tag ''http'') (sccs_networking addr (sccs_app addr (sccs_common addr ms)))"

section \<open>What a part registers\<close>

datatype part =
    PConfig | PBasis | PXml | PLogger | PApp | PBalance | PTime | PDbms | PSqlite | PLdap | PNetworking | PHttp

fun part_name :: "part \<Rightarrow> string" where
  "part_name PConfig = ''config''"
| "part_name PBasis = ''basis''"
| "part_name PXml = ''xml''"
| "part_name PLogger = ''logger''"
| "part_name PApp = ''app''"
| "part_name PBalance = ''balance''"
| "part_name PTime = ''time''"
| "part_name PDbms = ''dbms''"
| "part_name PSqlite = ''dbms_sqlite''"
| "part_name PLdap = ''dbms_ldap''"
| "part_name PNetworking = ''networking''"
| "part_name PHttp = ''http''"

fun sccs_activate :: "addresses \<Rightarrow> part \<Rightarrow> string list \<Rightarrow> string list" where
  "sccs_activate addr PConfig = sccs_config addr"
| "sccs_activate addr PBasis = sccs_basis addr"
| "sccs_activate addr PXml = sccs_xml addr"
| "sccs_activate addr PLogger = sccs_logger addr"
| "sccs_activate addr PApp = sccs_app addr"
| "sccs_activate addr PBalance = sccs_balance addr"
| "sccs_activate addr PTime = sccs_time addr"
| "sccs_activate addr PDbms = sccs_dbms addr"
| "sccs_activate addr PSqlite = sccs_sqlite addr"
| "sccs_activate addr PLdap = sccs_ldap addr"
| "sccs_activate addr PNetworking = sccs_networking addr"
| "sccs_activate addr PHttp = sccs_http addr"

text \<open>The layers of the library: what each part is built on directly.\<close>

fun built_on :: "part \<Rightarrow> part list" where
  "built_on PConfig = []"
| "built_on PBasis = [PConfig]"
| "built_on PXml = [PBasis]"
| "built_on PLogger = [PBasis]"
| "built_on PApp = [PXml, PLogger]"
| "built_on PBalance = [PXml, PLogger]"
| "built_on PTime = [PApp]"
| "built_on PDbms = [PTime]"
| "built_on PSqlite = [PDbms]"
| "built_on PLdap = [PDbms]"
| "built_on PNetworking = [PTime]"
| "built_on PHttp = [PNetworking]"

fun layer :: "part \<Rightarrow> nat" where
  "layer PConfig = 0"
| "layer PBasis = 1"
| "layer PXml = 2"
| "layer PLogger = 2"
| "layer PApp = 3"
| "layer PBalance = 3"
| "layer PTime = 4"
| "layer PDbms = 5"
| "layer PSqlite = 6"
| "layer PLdap = 6"
| "layer PNetworking = 5"
| "layer PHttp = 6"

function needs :: "part \<Rightarrow> part list" where
  "needs p = p # concat (map needs (built_on p))"
  by pat_completeness auto
termination
proof (relation "measure layer")
  fix p q
  assume "q \<in> set (built_on p)"
  then show "(q, p) \<in> measure layer" by (cases p) auto
qed simp

declare needs.simps [simp del]

lemma needs_simps [simp]:
  "set (needs PConfig) = {PConfig}"
  "set (needs PBasis) = {PConfig, PBasis}"
  "set (needs PXml) = {PConfig, PBasis, PXml}"
  "set (needs PLogger) = {PConfig, PBasis, PLogger}"
  "set (needs PApp) = {PConfig, PBasis, PXml, PLogger, PApp}"
  "set (needs PBalance) = {PConfig, PBasis, PXml, PLogger, PBalance}"
  "set (needs PTime) = {PConfig, PBasis, PXml, PLogger, PApp, PTime}"
  "set (needs PDbms) = {PConfig, PBasis, PXml, PLogger, PApp, PTime, PDbms}"
  "set (needs PSqlite) = {PConfig, PBasis, PXml, PLogger, PApp, PTime, PDbms, PSqlite}"
  "set (needs PLdap) = {PConfig, PBasis, PXml, PLogger, PApp, PTime, PDbms, PLdap}"
  "set (needs PNetworking) = {PConfig, PBasis, PXml, PLogger, PApp, PTime, PNetworking}"
  "set (needs PHttp) = {PConfig, PBasis, PXml, PLogger, PApp, PTime, PNetworking, PHttp}"
  by (auto simp: needs.simps)

definition part_tag :: "part \<Rightarrow> string" where
  "part_tag p = release_tag (part_name p)"

lemma part_name_inj: "part_name p = part_name q \<Longrightarrow> p = q"
  by (cases p; cases q) simp_all

lemma part_tag_inj [simp]: "part_tag p = part_tag q \<longleftrightarrow> p = q"
  using part_name_inj [of p q] by (auto simp: part_tag_def release_tag_def sccs_tag_def)

section \<open>The repository is complete\<close>

definition repository_ok :: "addresses \<Rightarrow> string list \<Rightarrow> bool" where
  "repository_ok addr ms \<longleftrightarrow> distinct ms \<and> sorted (map addr ms)"

lemma set_registerModule:
  "inj addr \<Longrightarrow> set (registerModule addr m ms) = insert m (set ms)"
  by (auto simp: registerModule_def set_insort_key inj_image_mem_iff)

lemma register_ok: "inj addr \<Longrightarrow> repository_ok addr ms \<Longrightarrow> repository_ok addr (registerModule addr m ms)"
  by (simp add: repository_ok_def registerModule_def distinct_insort sorted_insort_key inj_image_mem_iff)

lemma sccs_config_keeps:
  assumes "inj addr"
  shows "set (sccs_config addr ms) = set ms \<union> part_tag ` {PConfig}"
    "repository_ok addr ms \<Longrightarrow> repository_ok addr (sccs_config addr ms)"
  using assms by (simp_all add: sccs_config_def set_registerModule register_ok part_tag_def)

lemma sccs_basis_keeps:
  assumes "inj addr"
  shows "set (sccs_basis addr ms) = set ms \<union> part_tag ` {PConfig, PBasis}"
    "repository_ok addr ms \<Longrightarrow> repository_ok addr (sccs_basis addr ms)"
  using assms by (auto simp: sccs_basis_def sccs_config_keeps set_registerModule register_ok part_tag_def)

lemma sccs_xml_keeps:
  assumes "inj addr"
  shows "set (sccs_xml addr ms) = set ms \<union> part_tag ` {PConfig, PBasis, PXml}"
    "repository_ok addr ms \<Longrightarrow> repository_ok addr (sccs_xml addr ms)"
  using assms by (auto simp: sccs_xml_def sccs_basis_keeps set_registerModule register_ok part_tag_def)

lemma sccs_logger_keeps:
  assumes "inj addr"
  shows "set (sccs_logger addr ms) = set ms \<union> part_tag ` {PConfig, PBasis, PLogger}"
    "repository_ok addr ms \<Longrightarrow> repository_ok addr (sccs_logger addr ms)"
  using assms by (auto simp: sccs_logger_def sccs_basis_keeps set_registerModule register_ok part_tag_def)

lemma sccs_common_keeps:
  assumes "inj addr"
  shows "set (sccs_common addr ms) = set ms \<union> part_tag ` {PConfig, PBasis, PXml, PLogger}"
    "repository_ok addr ms \<Longrightarrow> repository_ok addr (sccs_common addr ms)"
  using assms by (auto simp: sccs_common_def sccs_config_keeps sccs_basis_keeps sccs_xml_keeps sccs_logger_keeps)

lemma sccs_app_keeps:
  assumes "inj addr"
  shows "set (sccs_app addr ms) = set ms \<union> part_tag ` set (needs PApp)"
    "repository_ok addr ms \<Longrightarrow> repository_ok addr (sccs_app addr ms)"
  using assms by (auto simp: sccs_app_def sccs_common_keeps set_registerModule register_ok part_tag_def)

lemma sccs_time_keeps:
  assumes "inj addr"
  shows "set (sccs_time addr ms) = set ms \<union> part_tag ` set (needs PTime)"
    "repository_ok addr ms \<Longrightarrow> repository_ok addr (sccs_time addr ms)"
  using assms
  by (auto simp: sccs_time_def sccs_common_keeps sccs_app_keeps set_registerModule register_ok part_tag_def)

lemma sccs_dbms_keeps:
  assumes "inj addr"
  shows "set (sccs_dbms addr ms) = set ms \<union> part_tag ` set (needs PDbms)"
    "repository_ok addr ms \<Longrightarrow> repository_ok addr (sccs_dbms addr ms)"
  using assms
  by (auto simp: sccs_dbms_def sccs_common_keeps sccs_app_keeps sccs_time_keeps set_registerModule register_ok part_tag_def)

lemma sccs_networking_keeps:
  assumes "inj addr"
  shows "set (sccs_networking addr ms) = set ms \<union> part_tag ` set (needs PNetworking)"
    "repository_ok addr ms \<Longrightarrow> repository_ok addr (sccs_networking addr ms)"
  using assms
  by (auto simp: sccs_networking_def sccs_common_keeps sccs_app_keeps sccs_time_keeps set_registerModule register_ok
      part_tag_def)

lemmas sccs_keeps = sccs_config_keeps sccs_basis_keeps sccs_xml_keeps sccs_logger_keeps sccs_common_keeps
  sccs_app_keeps sccs_time_keeps sccs_dbms_keeps sccs_networking_keeps

lemma activate_registers:
  assumes "inj addr"
  shows "set (sccs_activate addr p ms) = set ms \<union> part_tag ` set (needs p)"
  using assms
  by (cases p) (auto simp: sccs_balance_def sccs_sqlite_def sccs_ldap_def sccs_http_def sccs_keeps set_registerModule
      part_tag_def)

lemma activate_ok: "inj addr \<Longrightarrow> repository_ok addr ms \<Longrightarrow> repository_ok addr (sccs_activate addr p ms)"
  by (cases p) (simp_all add: sccs_balance_def sccs_sqlite_def sccs_ldap_def sccs_http_def sccs_keeps(2,4,6,8,10,12,14,16,18)
      register_ok)

fun activate_all :: "addresses \<Rightarrow> part list \<Rightarrow> string list \<Rightarrow> string list" where
  "activate_all addr [] ms = ms"
| "activate_all addr (p # ps) ms = activate_all addr ps (sccs_activate addr p ms)"

text \<open>
  Whatever parts are used, in whatever order, the repository has the tags of exactly these parts and of
  all they are built on, each once, in the order of their addresses.
\<close>

lemma repository_complete:
  assumes "inj addr"
  shows "set (activate_all addr ps []) = part_tag ` (\<Union>p \<in> set ps. set (needs p)) \<and>
    repository_ok addr (activate_all addr ps [])"
proof -
  have "set (activate_all addr ps ms) = set ms \<union> part_tag ` (\<Union>p \<in> set ps. set (needs p)) \<and>
      (repository_ok addr ms \<longrightarrow> repository_ok addr (activate_all addr ps ms))" for ms
    by (induction ps arbitrary: ms) (auto simp: activate_registers [OF assms] activate_ok [OF assms])
  from this [of "[]"] show ?thesis by (simp add: repository_ok_def)
qed

section \<open>The release\<close>

record utsname =
  u_sysname :: string
  u_release :: string
  u_machine :: string

text \<open>The version of the operating system is cut at its second dot.\<close>

definition main_release_of :: "string \<Rightarrow> string" where
  "main_release_of r =
     (case find_char r CHR ''.'' 0 of
        None \<Rightarrow> r
      | Some i \<Rightarrow> (case find_char r CHR ''.'' (i + 1) of None \<Rightarrow> r | Some j \<Rightarrow> take j r))"

text \<open>\<open>mt\<close> and \<open>debug\<close> are the symbols the library is compiled with.\<close>

definition getArchitecture :: "bool \<Rightarrow> bool \<Rightarrow> utsname \<Rightarrow> string" where
  "getArchitecture mt debug un =
     (if mt then ''/MT'' else ''/ST'') @ (if debug then ''/D'' else ''/O'') @ ''/'' @ c_str (u_sysname un) @ '' ''
     @ main_release_of (c_str (u_release un)) @ '' ('' @ c_str (u_machine un) @ '')''"

text \<open>\<open>None\<close> is a tag without a space, whose null pointer would be used.\<close>

definition getVersion :: "bool \<Rightarrow> bool \<Rightarrow> utsname \<Rightarrow> string option" where
  "getVersion mt debug un =
     (case find_char (release_tag ''config'') CHR '' '' 0 of
        None \<Rightarrow> None
      | Some i \<Rightarrow> Some (drop (i + 1) (release_tag ''config'') @ getArchitecture mt debug un))"

lemma main_release_cuts:
  assumes "CHR ''.'' \<notin> set a" "CHR ''.'' \<notin> set b"
  shows "main_release_of (a @ ''.'' @ b @ ''.'' @ c) = a @ ''.'' @ b" "main_release_of (a @ ''.'' @ b) = a @ ''.'' @ b"
    "main_release_of a = a"
proof -
  have i: "find_char (a @ ''.'' @ s) CHR ''.'' 0 = Some (length a)" for s
    using index_of_append [OF assms(1), of s] by (simp add: find_char_def)
  have "find_char (a @ ''.'' @ b @ ''.'' @ c) CHR ''.'' (length a + 1) = Some (length a + 1 + length b)"
    using index_of_append [OF assms(2), of c] by (simp add: find_char_def)
  with i [of "b @ ''.'' @ c"] show "main_release_of (a @ ''.'' @ b @ ''.'' @ c) = a @ ''.'' @ b"
    by (simp add: main_release_of_def)
  have "find_char (a @ ''.'' @ b) CHR ''.'' (length a + 1) = None"
    using assms(2) by (simp add: find_char_def index_of_None)
  with i [of b] show "main_release_of (a @ ''.'' @ b) = a @ ''.'' @ b" by (simp add: main_release_of_def)
  show "main_release_of a = a"
    using assms(1) by (simp add: main_release_of_def find_char_def) (simp add: index_of_None [symmetric])
qed

lemma version_of_release:
  "getVersion mt debug un = Some (''release-19.01.29'' @ getArchitecture mt debug un)"
  by (simp add: getVersion_def release_tag_def sccs_tag_def find_char_def)

end
