(* ===== verification/Signals.thy ===== *)
theory Signals
  imports AppCore Logging XmlDocument Modules
begin

text \<open>
  The signals of an application: its context written to a file on \<open>SIGUSR1\<close>, the level of the trace on
  \<open>SIGUSR2\<close>, the stop on \<open>SIGTERM\<close> and the children on \<open>SIGCHLD\<close>.  Here \<open>app\<close>, \<open>config\<close>,
  \<open>xml\<close> and \<open>logger\<close> meet.

  The state is the process: the application the static pointer refers to, with the members
  \<open>AppCore\<close> leaves out, the repository of modules, the logger, the file system it shares with
  the context, and the world of the services.  What the code does not determine is the
  \<open>environment\<close>: libxml on that file system, the virtual \<open>asXML\<close> and \<open>do_stop\<close> of the services, and
  the place in the sources a text comes from.
\<close>

section \<open>Lines of the trace\<close>

text \<open>The macros \<open>LOG_CRITICAL\<close> to \<open>LOG_LOCAL7\<close>, and \<open>Logger::write\<close> of an exception.\<close>

definition log_macro :: "level \<Rightarrow> string \<Rightarrow> throw_site \<Rightarrow> logger \<Rightarrow> log_world \<Rightarrow> (logger \<times> log_world) option" where
  "log_macro level text site g w =
     (if logger_wants level g
      then logger_write level text (from_method site) (from_file site) (from_line site) g w
      else Some (g, w))"

definition write_exception :: "exn \<Rightarrow> throw_site \<Rightarrow> logger \<Rightarrow> log_world \<Rightarrow> (logger \<times> log_world) option" where
  "write_exception e site g w =
     logger_write Error (what e) (from_method site) (from_file site) (from_line site) g w"

section \<open>The process\<close>

record app_info =
  ai_version :: string
  ai_title :: string
  ai_pid :: cint
  ai_output :: string

definition info_new :: "string \<Rightarrow> string \<Rightarrow> cint \<Rightarrow> bool \<Rightarrow> bool \<Rightarrow> utsname \<Rightarrow> app_info" where
  "info_new title version pid mt debug un =
     \<lparr>ai_version = c_str version @ getArchitecture mt debug un, ai_title = c_str title, ai_pid = pid,
      ai_output = ''/tmp/coffee.context.'' @ pad_left 5 CHR ''0'' (as_string_int pid) @ ''.xml''\<rparr>"

record 'w process =
  pr_this :: "application option"
  pr_info :: app_info
  pr_modules :: "string list"
  pr_logger :: logger
  pr_files :: log_world
  pr_world :: 'w
  pr_zombies :: nat
  pr_children :: nat
  pr_exit :: "cint option"

record ('w, 'd) environment =
  en_libxml :: "(log_world, 'd) libxml"
  en_tree :: "service \<Rightarrow> xml_node outcome"
  en_stop :: "service_key \<Rightarrow> 'w \<Rightarrow> 'w \<times> string option"
  en_site :: "string \<Rightarrow> throw_site"

definition with_trace :: "'w process \<Rightarrow> logger \<times> log_world \<Rightarrow> 'w process" where
  "with_trace p gw = p\<lparr>pr_logger := fst gw, pr_files := snd gw\<rparr>"

definition log_at :: "('w, 'd) environment \<Rightarrow> level \<Rightarrow> string \<Rightarrow> 'w process \<Rightarrow> 'w process option" where
  "log_at env level text p =
     map_option (with_trace p) (log_macro level text (en_site env text) (pr_logger p) (pr_files p))"

definition report :: "('w, 'd) environment \<Rightarrow> exn \<Rightarrow> 'w process \<Rightarrow> 'w process option" where
  "report env e p =
     map_option (with_trace p) (write_exception e (en_site env (message e)) (pr_logger p) (pr_files p))"

text \<open>
  The static pointer: the first application takes it, and gives it back when it is destroyed;
  applications are numbers here.
\<close>

definition this_constructed :: "nat \<Rightarrow> nat option \<Rightarrow> nat option" where
  "this_constructed i this = (if this = None then Some i else this)"

definition this_destroyed :: "nat \<Rightarrow> nat option \<Rightarrow> nat option" where
  "this_destroyed i this = (if this = Some i then None else this)"

section \<open>The context\<close>

definition context_tree :: "('w, 'd) environment \<Rightarrow> application \<Rightarrow> 'w process \<Rightarrow> xml_node outcome" where
  "context_tree env a p =
     (case application_as_xml (en_tree env) (ai_version (pr_info p)) (as_string_int (ai_pid (pr_info p)))
             (pr_modules p) a of
        Inl e \<Rightarrow> Inl e
      | Inr n \<Rightarrow> Inr (add_child n (new_node ''Context'')))"

definition context_text :: "('w, 'd) environment \<Rightarrow> application \<Rightarrow> 'w process \<Rightarrow> string outcome" where
  "context_text env a p =
     (case context_tree env a p of
        Inl e \<Rightarrow> Inl e
      | Inr root \<Rightarrow> snd (apply_node (en_libxml env) root compiler_new))"

text \<open>The stream is opened for writing, which empties the file, and writes from its start.\<close>

definition open_output :: "string \<Rightarrow> 'w process \<Rightarrow> 'w process" where
  "open_output file p = p\<lparr>pr_files := (pr_files p)\<lparr>files := (files (pr_files p))(file := Some [])\<rparr>\<rparr>"

definition write_output :: "string \<Rightarrow> string \<Rightarrow> 'w process \<Rightarrow> 'w process" where
  "write_output file text p =
     p\<lparr>pr_files := (pr_files p)\<lparr>files := (files (pr_files p))
        (file := Some (text @ drop (length text) (content file (pr_files p))))\<rparr>\<rparr>"

definition writeContext ::
    "('w, 'd) environment \<Rightarrow> string \<Rightarrow> application \<Rightarrow> 'w process \<Rightarrow> ('w process \<times> unit outcome) option" where
  "writeContext env file a p =
     (if refuses_open (pr_files p) file
      then Some (p, Inl (RuntimeException (''Can not open file'' @ quote @ file @ quote)))
      else case log_at env Notice (''File: '' @ file) (open_output file p) of
             None \<Rightarrow> None
           | Some p1 \<Rightarrow>
               (case context_text env a p1 of
                  Inr text \<Rightarrow> Some (write_output file (text @ [LF]) p1, Inr ())
                | Inl e \<Rightarrow>
                    if is_runtime e then map_option (\<lambda>p2. (p2, Inr ())) (report env e p1) else None))"

section \<open>The handlers\<close>

text \<open>
  An exception a handler does not catch leaves a function that is declared not to throw and ends the
  program, which is \<open>None\<close>.
\<close>

definition signalUSR1 ::
    "('w, 'd) environment \<Rightarrow> application \<Rightarrow> 'w process \<Rightarrow> ('w process \<times> unit outcome) option" where
  "signalUSR1 env a p = writeContext env (ai_output (pr_info p)) a p"

definition process_signalUSR2 :: "('w, 'd) environment \<Rightarrow> 'w process \<Rightarrow> 'w process option" where
  "process_signalUSR2 env p =
     (let (level, msg) = signalUSR2 (g_level (pr_logger p)); site = en_site env msg
      in map_option (with_trace p)
           (logger_write level msg (from_method site) (from_file site) (from_line site)
              ((pr_logger p)\<lparr>g_level := level\<rparr>) (pr_files p)))"

definition handlerUserSignal :: "('w, 'd) environment \<Rightarrow> bool \<Rightarrow> 'w process \<Rightarrow> 'w process option" where
  "handlerUserSignal env is_usr1 p =
     (case pr_this p of
        None \<Rightarrow> Some p
      | Some a \<Rightarrow>
          if is_usr1
          then (case signalUSR1 env a p of
                  None \<Rightarrow> None
                | Some (p1, Inr u) \<Rightarrow> Some p1
                | Some (p1, Inl e) \<Rightarrow> if is_runtime e then report env e p1 else None)
          else process_signalUSR2 env p)"

definition handlerSignalTerminate :: "('w, 'd) environment \<Rightarrow> 'w process \<Rightarrow> 'w process option" where
  "handlerSignalTerminate env p =
     (case pr_this p of
        None \<Rightarrow> Some p
      | Some a \<Rightarrow>
          (case log_at env Warning (application_as_string a @ '' | Received SIGTERM signal'') p of
             None \<Rightarrow> None
           | Some p1 \<Rightarrow>
               (case application_stop (en_stop env) a (pr_world p1) of
                  (a1, w1, r) \<Rightarrow>
                    (let p2 = p1\<lparr>pr_this := Some a1, pr_world := w1\<rparr>
                     in case r of
                          Inr b \<Rightarrow> Some p2
                        | Inl e \<Rightarrow>
                            if is_runtime e then map_option (\<lambda>p3. p3\<lparr>pr_exit := Some 0\<rparr>) (report env e p2)
                            else None))))"

text \<open>\<open>wait\<close> takes one child that has ended; it blocks while there are only others, and fails without any.\<close>

definition handlerChildTerminate :: "'w process \<Rightarrow> 'w process option" where
  "handlerChildTerminate p =
     (if 0 < pr_zombies p then Some (p\<lparr>pr_zombies := pr_zombies p - 1\<rparr>)
      else if pr_children p = 0 then Some p else None)"

section \<open>The trace leaves other files alone\<close>

fun writer_files :: "writer \<Rightarrow> string set" where
  "writer_files (Circular c) = {c_path c, old_path (c_path c)}"
| "writer_files (Backtrace b) = {c_path (b_circular b), old_path (c_path (b_circular b))}"
| "writer_files (Unlimited u) = {u_path u}"
| "writer_files x = {}"

definition same_file :: "string \<Rightarrow> log_world \<Rightarrow> log_world \<Rightarrow> bool" where
  "same_file f w w1 \<longleftrightarrow> files w1 f = files w f"

lemma same_file_trans: "same_file f w w1 \<Longrightarrow> same_file f w1 w2 \<Longrightarrow> same_file f w w2"
  by (simp add: same_file_def)

lemma append_same: "f \<noteq> p \<Longrightarrow> same_file f w (append_file p t w)"
  by (simp add: same_file_def append_file_def)

lemma check_size_same:
  "check_size c w = (c1, w1, r) \<Longrightarrow> f \<notin> writer_files (Circular c) \<Longrightarrow> same_file f w w1 \<and> c_path c1 = c_path c"
  by (auto simp: check_size_def renameFile_def openStream_def closeStream_def same_file_def append_file_def
      split: sum.splits bool.splits prod.splits if_splits)

lemma circular_same:
  assumes x: "circular_apply level line c w = (c1, w1)" and f: "f \<notin> writer_files (Circular c)"
  shows "same_file f w w1 \<and> c_path c1 = c_path c"
proof (cases "c_stream c")
  case False
  with x show ?thesis by (auto simp: circular_apply_def same_file_def split: if_splits)
next
  case True
  let ?c = "c\<lparr>c_lineno := c_lineno c + 1\<rparr>" and ?w = "append_file (c_path c) (line @ [LF]) w"
  have a: "same_file f w ?w" using f by (simp add: append_same)
  obtain c2 w2 r where k: "check_size ?c ?w = (c2, w2, r)" by (metis prod_cases3)
  have "same_file f ?w w2 \<and> c_path c2 = c_path c" using check_size_same [OF k] f by simp
  with a have "same_file f w w2" "same_file f w (w2\<lparr>cerr := es\<rparr>)" "c_path c2 = c_path c" for es
    by (auto simp: same_file_def)
  with x k a True show ?thesis by (auto simp: circular_apply_def Let_def split: if_splits sum.splits)
qed

lemma write_lines_same:
  "write_lines ls c w = (c1, w1) \<Longrightarrow> f \<notin> writer_files (Circular c) \<Longrightarrow> same_file f w w1 \<and> c_path c1 = c_path c"
proof (induction ls arbitrary: c w)
  case Nil
  then show ?case by (simp add: same_file_def)
next
  case (Cons l ls)
  obtain c2 w2 where a: "circular_apply (fst l) (snd l) c w = (c2, w2)" by force
  have c: "same_file f w w2 \<and> c_path c2 = c_path c" using circular_same [OF a Cons.prems(2)] .
  with Cons a have "same_file f w2 w1 \<and> c_path c1 = c_path c2" by simp
  with c show ?case using same_file_trans by metis
qed

lemma backtrace_same:
  assumes x: "backtrace_apply level line b w = Some (b1, w1)" and f: "f \<notin> writer_files (Backtrace b)"
  shows "same_file f w w1"
proof (cases "level \<le> Error")
  case True
  obtain c2 w2 where a: "write_lines (b_lines b) (b_circular b) w = (c2, w2)" by force
  obtain c3 w3 where c: "circular_apply level line c2 w2 = (c3, w3)" by force
  have "same_file f w w2" "c_path c2 = c_path (b_circular b)" using write_lines_same [OF a] f by simp_all
  moreover from this circular_same [OF c] f have "same_file f w2 w3" by simp
  moreover have "w1 = w3" using x True a c by (simp add: backtrace_apply_def backtrace_def)
  ultimately show ?thesis by (blast intro: same_file_trans)
next
  case False
  with x show ?thesis by (auto simp: backtrace_apply_def same_file_def split: if_splits list.splits)
qed

lemma writer_same:
  assumes "writer_apply level line x w = Some (x1, w1)" "f \<notin> writer_files x"
  shows "same_file f w w1"
  using assms
  by (cases x)
    (auto simp: unlimited_apply_def tty_apply_def syslog_apply_def append_file_def same_file_def
      dest: circular_same [unfolded same_file_def] backtrace_same [unfolded same_file_def] split: prod.splits if_splits)

lemma write_all_same:
  "write_all current level line xs w = Some (ys, w1) \<Longrightarrow> \<forall>x \<in> set xs. f \<notin> writer_files x \<Longrightarrow> same_file f w w1"
proof (induction xs arbitrary: w ys)
  case Nil
  then show ?case by (simp add: same_file_def)
next
  case (Cons x xs)
  from Cons.prems obtain x1 w2 zs where
    a: "(if writer_wants current level x then writer_apply level line x w else Some (x, w)) = Some (x1, w2)" and
    b: "write_all current level line xs w2 = Some (zs, w1)" by (auto split: option.splits)
  have "same_file f w w2"
    using a Cons.prems(2) writer_same by (auto simp: same_file_def split: if_splits)
  with Cons.IH [OF b] Cons.prems(2) show ?case by (auto intro: same_file_trans)
qed

lemma log_at_same:
  assumes "log_at env level text p = Some p1" "\<forall>x \<in> set (g_writers (pr_logger p)). f \<notin> writer_files x"
  shows "same_file f (pr_files p) (pr_files p1)"
  using assms write_all_same
  by (auto simp: log_at_def log_macro_def logger_write_def with_trace_def same_file_def split: if_splits option.splits)

lemma log_at_keeps:
  "log_at env level text p = Some p1 \<Longrightarrow>
   pr_this p1 = pr_this p \<and> pr_world p1 = pr_world p \<and> pr_info p1 = pr_info p \<and> pr_modules p1 = pr_modules p \<and>
   pr_exit p1 = pr_exit p"
  by (auto simp: log_at_def with_trace_def)

lemma report_keeps: "report env e p = Some p1 \<Longrightarrow> pr_this p1 = pr_this p"
  by (auto simp: report_def with_trace_def)

section \<open>The tree of the context\<close>

text \<open>What the context is meant to be: the version, the process, the modules and the trees of the services.\<close>

definition context_of :: "string \<Rightarrow> string \<Rightarrow> string list \<Rightarrow> xml_node list \<Rightarrow> xml_node" where
  "context_of version pid modules trees =
     XmlNode ''Context'' [] None
       [XmlNode ''app.Application'' [(''Version'', version), (''pid'', pid)] None
          [XmlNode ''Modules'' [] None (map (\<lambda>m. XmlNode ''Module'' [(''Name'', m)] None []) modules),
           XmlNode ''Services'' [] None trees]]"

lemma clean_c_str [simp]: "clean s \<Longrightarrow> c_str s = s"
  by (simp add: clean_def)

lemma clean_append [simp]: "clean (s @ t) \<longleftrightarrow> clean s \<and> clean t"
  by (auto simp: clean_def)

lemma digit_ascii: "isdigit c \<Longrightarrow> isascii c \<and> c \<noteq> NUL"
  by (auto simp: isdigit_def isascii_def)

lemma clean_digits: "\<forall>c \<in> set s. isdigit c \<Longrightarrow> clean s"
  using digit_ascii by (auto simp: clean_def list_all_iff)

lemma clean_int [simp]: "clean (as_string_int n)"
proof -
  have "clean (dec k)" for k by (rule clean_digits) (simp add: dec_digits)
  then show ?thesis by (simp add: as_string_int_def int_to_string_def clean_def isascii_def)
qed

lemma modules_Inr:
  "list_all clean modules \<Longrightarrow>
   map (\<lambda>m. create_attribute ''Name'' m (new_node ''Module'')) modules =
   map Inr (map (\<lambda>m. XmlNode ''Module'' [(''Name'', m)] None []) modules)"
  by (induction modules) (simp_all add: create_attribute_def new_node_def add_attribute_def)

lemma context_tree_is:
  assumes "clean (ai_version (pr_info p))" "list_all clean (pr_modules p)"
    and "map (en_tree env) (a_services a) = map Inr ts"
  shows "context_tree env a p =
    Inr (context_of (ai_version (pr_info p)) (as_string_int (ai_pid (pr_info p))) (pr_modules p) ts)"
proof -
  have ms: "add_children (map (\<lambda>m. create_attribute ''Name'' m (new_node ''Module'')) (pr_modules p)) (new_node ''Modules'')
      = Inr (XmlNode ''Modules'' [] None (map (\<lambda>m. XmlNode ''Module'' [(''Name'', m)] None []) (pr_modules p)))"
    unfolding modules_Inr [OF assms(2)] by (simp add: new_node_def add_children_Inr del: map_map)
  have ss: "add_children (map (en_tree env) (a_services a)) (new_node ''Services'') = Inr (XmlNode ''Services'' [] None ts)"
    unfolding assms(3) by (simp add: new_node_def add_children_Inr)
  have as: "create_attributes [(''Version'', ai_version (pr_info p)), (''pid'', as_string_int (ai_pid (pr_info p)))]
      (new_node ''app.Application'') =
      Inr (XmlNode ''app.Application'' [(''Version'', ai_version (pr_info p)), (''pid'', as_string_int (ai_pid (pr_info p)))]
        None [])"
    using assms(1) by (simp add: create_attribute_def new_node_def add_attribute_def ord_def)
  show ?thesis
    unfolding context_tree_def application_as_xml_def as ms ss by (simp add: context_of_def new_node_def)
qed

lemma context_of_plain:
  "clean v \<Longrightarrow> clean pid \<Longrightarrow> list_all clean ms \<Longrightarrow> list_all plain ts \<Longrightarrow> plain (context_of v pid ms ts)"
  by (simp add: context_of_def sorted_attributes_def list.pred_map comp_def clean_def isascii_def ord_def list_all_iff)

text \<open>The trees of the services that do not override \<open>asXML\<close>.\<close>

lemma requirement_plain:
  assumes "clean (q_implementation q)" "\<forall>k. q_selection q = Some k \<longrightarrow> clean (snd k)"
  shows "\<exists>n. requirement_as_xml q = Inr n \<and> plain n"
proof -
  have f: "clean (feature_as_string f)" for f by (cases f) (simp_all add: clean_def isascii_def)
  then have k: "clean (key_name k)" if "clean (snd k)" for k
    using that by (simp add: key_name_def) (simp add: clean_def isascii_def)
  show ?thesis
    using assms f k
    by (cases "q_selection q")
      (simp_all add: requirement_as_xml_def create_attribute_def new_node_def add_attribute_def sorted_attributes_def ord_def
        clean_def isascii_def)
qed

lemma requirements_plain:
  "\<forall>q \<in> set qs. clean (q_implementation q) \<and> (\<forall>k. q_selection q = Some k \<longrightarrow> clean (snd k)) \<Longrightarrow>
   \<exists>ns. map requirement_as_xml qs = map Inr ns \<and> list_all plain ns"
proof (induction qs)
  case Nil
  then show ?case by simp
next
  case (Cons q qs)
  have "\<exists>ns. map requirement_as_xml qs = map Inr ns \<and> list_all plain ns"
    by (rule Cons.IH) (use Cons.prems in simp)
  then obtain ns where ns: "map requirement_as_xml qs = map Inr ns" "list_all plain ns" by blast
  have "\<exists>n. requirement_as_xml q = Inr n \<and> plain n"
    by (rule requirement_plain) (use Cons.prems in simp_all)
  then obtain n where "requirement_as_xml q = Inr n" "plain n" by blast
  with ns show ?case by (intro exI [of _ "n # ns"]) simp
qed

lemma flags_clean: "clean (flagsAsString f)"
  by (simp add: flagsAsString_def clean_def isascii_def)

lemma service_plain:
  assumes "clean (s_implementation s)"
    and "\<forall>q \<in> set (s_requirements s). clean (q_implementation q) \<and> (\<forall>k. q_selection q = Some k \<longrightarrow> clean (snd k))"
  shows "\<exists>n. service_as_xml s = Inr n \<and> plain n"
proof -
  from requirements_plain [OF assms(2)] obtain ns where
    ns: "map requirement_as_xml (s_requirements s) = map Inr ns" "list_all plain ns" by blast
  have "clean (service_name s)"
    using assms(1) by (cases "s_feature s") (simp_all add: service_name_def service_key_of_def key_name_def clean_def isascii_def)
  then have "runnable_as_xml (service_name s) (s_flags s) =
      Inr (XmlNode ''Runnable'' [(''Name'', service_name s), (''Status'', flagsAsString (s_flags s))] None [])"
    "plain (XmlNode ''Runnable'' [(''Name'', service_name s), (''Status'', flagsAsString (s_flags s))] None [])"
    using flags_clean [of "s_flags s"]
    by (simp_all add: runnable_as_xml_def create_attribute_def new_node_def add_attribute_def ord_def sorted_attributes_def)
      (simp_all add: clean_def isascii_def)
  moreover have "add_children (map requirement_as_xml (s_requirements s)) (new_node ''Requirements'') =
      Inr (XmlNode ''Requirements'' [] None ns)"
    unfolding ns(1) by (simp add: new_node_def add_children_Inr)
  ultimately show ?thesis
    using ns(2) by (simp add: service_as_xml_def new_node_def sorted_attributes_def) (simp add: clean_def isascii_def)
qed

section \<open>The context comes back\<close>

lemma write_output_simps [simp]:
  "files (pr_files (write_output f t p)) f = Some (t @ drop (length t) (content f (pr_files p)))"
  "pr_this (write_output f t p) = pr_this p" "pr_world (write_output f t p) = pr_world p"
  "pr_info (write_output f t p) = pr_info p" "pr_modules (write_output f t p) = pr_modules p"
  by (simp_all add: write_output_def)

lemma open_output_simps [simp]:
  "files (pr_files (open_output f p)) f = Some []" "pr_logger (open_output f p) = pr_logger p"
  "pr_this (open_output f p) = pr_this p" "pr_world (open_output f p) = pr_world p"
  "pr_info (open_output f p) = pr_info p" "pr_modules (open_output f p) = pr_modules p"
  by (simp_all add: open_output_def)


section \<open>The level of the trace\<close>

fun usr2_levels :: "nat \<Rightarrow> level \<Rightarrow> level" where
  "usr2_levels 0 l = l"
| "usr2_levels (Suc n) l = usr2_levels n (fst (signalUSR2 l))"

text \<open>
  From the levels \<open>Error\<close> to \<open>Debug\<close> the signals go round these five levels; from the local levels
  the first signal goes to \<open>Error\<close>.
\<close>

lemma usr2_cycles:
  "Error \<le> l \<Longrightarrow> l \<le> Debug \<Longrightarrow> level_value (usr2_levels n l) = 3 + (level_value l - 3 + int n) mod 5"
proof (induction n arbitrary: l)
  case 0
  then show ?case by (cases l) (simp_all add: less_eq_level_def)
next
  case (Suc n)
  have "level_value (usr2_levels n (fst (signalUSR2 l))) = 3 + (level_value (fst (signalUSR2 l)) - 3 + int n) mod 5"
    by (rule Suc.IH) (use Suc.prems signalUSR2_range in auto)
  moreover have "(level_value (fst (signalUSR2 l)) - 3) mod 5 = (level_value l - 3 + 1) mod 5"
    using Suc.prems by (cases l) (simp_all add: signalUSR2_def level_of_def levels_def less_eq_level_def)
  ultimately show ?case using mod_add_cong [of "level_value (fst (signalUSR2 l)) - 3" 5 "level_value l - 3 + 1" "int n" "int n"]
    by (simp add: algebra_simps)
qed

lemma usr2_from_local: "Debug < l \<Longrightarrow> usr2_levels 1 l = Error"
  by (cases l) (simp_all add: signalUSR2_def level_of_def levels_def less_level_def)

section \<open>A stop that fails\<close>

definition failing_services :: "('w, 'd) environment \<Rightarrow> application \<Rightarrow> 'w \<Rightarrow> service list" where
  "failing_services env a w =
     map fst (filter (\<lambda>(s, v). stop_fails (en_stop env) s v) (stop_worlds (en_stop env) (a_services a) w))"

text \<open>
  C21: On \<open>SIGTERM\<close> the application and all its services are stopped.  When a service could not be
  stopped, the program ends at once: with the status of success, and before the thread that
  runs the application comes back from it.
\<close>

theorem failed_stop_exits_with_success:
  assumes "pr_this p = Some a" "\<not> isStopped (a_flags a)" "handlerSignalTerminate env p = Some p1"
  shows "\<exists>b. pr_this p1 = Some b \<and> isStopped (a_flags b) \<and> list_all (\<lambda>s. isStopped (s_flags s)) (a_services b) \<and>
    pr_exit p1 = (if failing_services env a (pr_world p) = [] then pr_exit p else Some 0)"
proof -
  obtain q where q: "log_at env Warning (application_as_string a @ '' | Received SIGTERM signal'') p = Some q"
    using assms by (auto simp: handlerSignalTerminate_def split: option.splits)
  have rest: "pr_world q = pr_world p" "pr_exit q = pr_exit p" using log_at_keeps [OF q] by simp_all
  obtain ts v names where s: "stop_services (en_stop env) (a_services a) (pr_world p) = (ts, v, names)"
    by (metis prod_cases3)
  note res = stop_services_result [OF s]
  have names: "names = [] \<longleftrightarrow> failing_services env a (pr_world p) = []" using res by (simp add: failing_services_def)
  have stop: "application_stop (en_stop env) a (pr_world q) =
      (a\<lparr>a_services := ts, a_flags := if names = [] then Stopped else StoppedWithError\<rparr>, v,
       if names = [] then Inr True
       else Inl (RuntimeException (''Some services do not accept the request stop { '' @
         concat (map (\<lambda>n. n @ '' '') names) @ ''}'')))"
    using s rest assms(2) by (simp add: application_stop_def application_do_stop_def runnable_stop_def)
  show ?thesis
  proof (cases "names = []")
    case True
    with assms(1,3) q stop have "p1 = q\<lparr>pr_this := Some (a\<lparr>a_services := ts, a_flags := Stopped\<rparr>), pr_world := v\<rparr>"
      by (simp add: handlerSignalTerminate_def)
    with True names rest res show ?thesis by simp
  next
    case False
    with assms(1,3) q stop obtain r where
      "report env (RuntimeException (''Some services do not accept the request stop { '' @
          concat (map (\<lambda>n. n @ '' '') names) @ ''}''))
        (q\<lparr>pr_this := Some (a\<lparr>a_services := ts, a_flags := StoppedWithError\<rparr>), pr_world := v\<rparr>) = Some r"
      "p1 = r\<lparr>pr_exit := Some 0\<rparr>"
      by (auto simp: handlerSignalTerminate_def Let_def)
    with report_keeps have "pr_this p1 = Some (a\<lparr>a_services := ts, a_flags := StoppedWithError\<rparr>)" "pr_exit p1 = Some 0"
      by fastforce+
    with False names res show ?thesis by simp
  qed
qed

section \<open>The application that receives the signals\<close>

text \<open>\<open>Inl i\<close> is the construction of application \<open>i\<close>, \<open>Inr i\<close> its destruction.\<close>

fun this_after :: "(nat + nat) list \<Rightarrow> nat option \<times> nat set \<Rightarrow> nat option \<times> nat set" where
  "this_after [] s = s"
| "this_after (Inl i # es) s = this_after es (this_constructed i (fst s), insert i (snd s))"
| "this_after (Inr i # es) s = this_after es (this_destroyed i (fst s), snd s - {i})"

lemma this_is_alive:
  assumes "this_after es (None, {}) = (Some i, alive)"
  shows "i \<in> alive"
proof -
  have "(\<forall>j. fst s = Some j \<longrightarrow> j \<in> snd s) \<Longrightarrow> this_after es s = (Some i, alive) \<Longrightarrow> i \<in> alive" for s
    by (induction es s rule: this_after.induct) (auto simp: this_constructed_def this_destroyed_def split: if_splits)
  from this [of "(None, {})"] assms show ?thesis by simp
qed

text \<open>When the first application is destroyed, the others receive no signal.\<close>

lemma second_receives_no_signal: "this_after [Inl 1, Inl 2, Inr 1] (None, {}) = (None, {2})"
  by (auto simp: this_constructed_def this_destroyed_def)

section \<open>A process to evaluate with\<close>

text \<open>It has a service that is running, which cannot be stopped, and traces to the terminal.\<close>

definition sample_service :: service where
  "sample_service = (service_new Timing ''wheel'')\<lparr>s_flags := Running\<rparr>"

definition sample_service_tree :: xml_node where
  "sample_service_tree = XmlNode ''app.Service'' [] None
     [XmlNode ''Runnable'' [(''Name'', ''Timing:wheel''), (''Status'', '' Running'')] None [],
      XmlNode ''Requirements'' [] None []]"

definition sample_context :: xml_node where
  "sample_context = context_of ''1'' ''7'' [''m''] [sample_service_tree]"

definition sample_context_doc :: xml_doc where
  "sample_context_doc = \<lparr>xd_url = None, xd_version = ''1.0'', xd_encoding = None, xd_name = ''Context'', xd_properties = [],
     xd_nodes = map dom_of (node_children sample_context)\<rparr>"

definition sample_environment :: "(unit, unit) environment" where
  "sample_environment =
     \<lparr>en_libxml =
        \<lparr>lx_exists = (\<lambda>f w. files w f \<noteq> None), lx_readable = (\<lambda>f w. True),
         lx_parse_file = (\<lambda>f w. if files w f = Some (''context'' @ [LF]) then Some sample_context_doc else None),
         lx_parse_memory = (\<lambda>b. None), lx_parse_dtd = (\<lambda>f w. None), lx_validate = (\<lambda>x t. (True, [])),
         lx_mkstemp = (\<lambda>w. (w, None)), lx_write_file = (\<lambda>f b w. w), lx_remove = (\<lambda>f w. w), lx_latin1 = (\<lambda>s. s),
         lx_encoder = (\<lambda>e. None),
         lx_render = (\<lambda>cs. if cs = map WriterCall (compile (\<lambda>s. s) (\<lambda>s. s) sample_context) then ''context'' else '''')\<rparr>,
      en_tree = service_as_xml, en_stop = (\<lambda>k w. (w, Some ''busy'')),
      en_site = (\<lambda>t. throw_at ''method'' ''file'' 1)\<rparr>"

definition sample_process :: "unit process" where
  "sample_process =
     \<lparr>pr_this = Some \<lparr>a_name = ''app'', a_flags = Running, a_services = [sample_service]\<rparr>,
      pr_info = \<lparr>ai_version = ''1'', ai_title = ''t'', ai_pid = 7, ai_output = ''out''\<rparr>, pr_modules = [''m''],
      pr_logger = \<lparr>g_level = Debug, g_writers = [Tty], g_formatter = Some (\<lambda>l t m f n. t)\<rparr>,
      pr_files = empty_world, pr_world = (), pr_zombies = 0, pr_children = 0, pr_exit = None\<rparr>"

lemma running_flags [simp]: "Running \<noteq> Stopped" "\<not> isStoppedWithError Running"
  by (simp_all add: isStoppedWithError_def flag_defs)

lemma sample_tree_is: "map service_as_xml [sample_service] = map Inr [sample_service_tree]"
  by (simp add: service_as_xml_def sample_service_def sample_service_tree_def service_new_def new_node_def runnable_as_xml_def
      create_attribute_def add_attribute_def service_name_def service_key_of_def key_name_def flagsAsString_def ord_def
      c_str_def)


lemma tty_writes:
  "g_writers g = [Tty] \<Longrightarrow> \<exists>g1 w1. logger_write level t m f n g w = Some (g1, w1) \<and> g_writers g1 = [Tty]"
  by (auto simp: logger_write_def split: option.splits)

lemma tty_logs:
  "g_writers (pr_logger p) = [Tty] \<Longrightarrow> \<exists>q. log_at env level t p = Some q \<and> g_writers (pr_logger q) = [Tty]"
  using tty_writes by (fastforce simp: log_at_def log_macro_def with_trace_def)

lemma tty_reports: "g_writers (pr_logger p) = [Tty] \<Longrightarrow> \<exists>q. report env e p = Some q"
  using tty_writes by (fastforce simp: report_def write_exception_def)

theorem failed_stop_exits_with_success_witness:
  "\<exists>p1. handlerSignalTerminate sample_environment sample_process = Some p1 \<and> pr_exit p1 = Some 0"
proof -
  let ?a = "\<lparr>a_name = ''app'', a_flags = Running, a_services = [sample_service]\<rparr>"
  have app: "pr_this sample_process = Some ?a" by (simp add: sample_process_def)
  have "g_writers (pr_logger sample_process) = [Tty]" by (simp add: sample_process_def)
  from tty_logs [OF this] obtain q where
    q: "log_at sample_environment Warning (application_as_string ?a @ '' | Received SIGTERM signal'') sample_process = Some q"
      "g_writers (pr_logger q) = [Tty]" by blast
  have "\<exists>e. application_stop (en_stop sample_environment) ?a (pr_world q) =
      (?a\<lparr>a_services := [sample_service\<lparr>s_flags := StoppedWithError\<rparr>], a_flags := StoppedWithError\<rparr>, (), Inl (RuntimeException e))"
    by (simp add: application_stop_def application_do_stop_def runnable_stop_def sample_environment_def sample_service_def)
  moreover have "\<exists>r. report sample_environment e (q\<lparr>pr_this := x, pr_world := w\<rparr>) = Some r" for e x w
    by (rule tty_reports) (simp add: q)
  ultimately have "\<exists>p1. handlerSignalTerminate sample_environment sample_process = Some p1"
    using app q by (auto simp: handlerSignalTerminate_def Let_def)
  then obtain p1 where p1: "handlerSignalTerminate sample_environment sample_process = Some p1" by blast
  have "failing_services sample_environment ?a (pr_world sample_process) = [sample_service]"
    by (simp add: failing_services_def stop_fails_def sample_environment_def sample_service_def)
  moreover have "\<not> isStopped (a_flags ?a)" by simp
  ultimately show ?thesis using failed_stop_exits_with_success [OF app _ p1] p1 by auto
qed

end
