(* ===== verification/Assembly.thy ===== *)
theory Assembly
  imports TimeWheel Sqlite Ldap HttpServer Networking Modules
begin

text \<open>
  Applications put together from the services of the library: the factory functions
  \<open>instantiate\<close>, which create a service and attach it, and the order in which the services of such an
  application are initialized.
\<close>

section \<open>Requirements of earlier features\<close>

text \<open>An application each of whose services requires services of earlier features only.\<close>

definition forward :: "application \<Rightarrow> bool" where
  "forward a \<longleftrightarrow> (\<forall>k \<in> set (keys a). \<forall>w \<in> set (map wanted (requirements_of k a)). fst w < fst k)"

definition lower_running :: "service_key \<Rightarrow> application \<Rightarrow> bool" where
  "lower_running k a \<longleftrightarrow> (\<forall>j \<in> set (keys a). fst j < fst k \<longrightarrow> isRunning (flags_of j a))"

definition same_specs :: "application \<Rightarrow> application \<Rightarrow> bool" where
  "same_specs a b \<longleftrightarrow> specs b = specs a \<and> (\<forall>j. flags_of j b = flags_of j a)"

lemma same_specs_trans: "same_specs a b \<Longrightarrow> same_specs b c \<Longrightarrow> same_specs a c"
  by (simp add: same_specs_def)

lemma forward_specs:
  assumes "specs b = specs a"
  shows "forward b = forward a"
  unfolding forward_def wanted_requirements [OF assms] specs_keys [OF assms] ..

lemma same_flags: "same_specs a b \<Longrightarrow> flags_of j b = flags_of j a"
  unfolding same_specs_def by blast

lemma lower_running_same:
  assumes "same_specs a b"
  shows "lower_running k b = lower_running k a"
  using assms specs_keys [of b a] unfolding lower_running_def same_flags [OF assms] same_specs_def by simp

lemma select_feature: "select f i a = Inr k \<Longrightarrow> fst k = f"
proof -
  assume s: "select f i a = Inr k"
  let ?ks = "filter (\<lambda>k. fst k = f) (keys a)"
  from s have "k \<in> set ?ks"
    unfolding select_keys by (cases ?ks) (auto split: if_splits option.splits dest: lookup_by_Some)
  then show ?thesis by simp
qed

text \<open>What the service requires runs already, so nothing else is initialized.\<close>

lemma forward_requirements:
  "forward a \<Longrightarrow> k \<in> set (keys a) \<Longrightarrow> lower_running k a \<Longrightarrow> \<forall>i \<in> set qs. i < length (requirements_of k a) \<Longrightarrow>
   \<exists>b r. initialize_requirements rec k qs a w = Some (b, w, r) \<and> same_specs a b"
proof (induction qs arbitrary: a)
  case Nil
  then show ?case by (simp add: same_specs_def)
next
  case (Cons i qs)
  let ?q = "requirements_of k a ! i"
  show ?case
  proof (cases "select (q_feature ?q) (q_implementation ?q) a")
    case (Inl e)
    then show ?thesis by (simp add: same_specs_def)
  next
    case (Inr j)
    let ?a = "set_selection k i j a"
    have "wanted ?q \<in> set (map wanted (requirements_of k a))" using Cons.prems(4) by simp
    then have "fst (wanted ?q) < fst k" using Cons.prems(1,2) unfolding forward_def by blast
    then have run: "isRunning (flags_of j a)"
      using select_feature [OF Inr] select_in_keys [OF Inr] Cons.prems(3) by (simp add: lower_running_def wanted_def)
    have same: "same_specs a ?a" by (simp add: same_specs_def)
    then have sp: "specs ?a = specs a" by (simp add: same_specs_def)
    have "\<exists>b r. initialize_requirements rec k qs ?a w = Some (b, w, r) \<and> same_specs ?a b"
    proof (rule Cons.IH)
      show "forward ?a" using Cons.prems(1) unfolding forward_specs [OF sp] .
      show "k \<in> set (keys ?a)" using Cons.prems(2) unfolding specs_keys [OF sp] .
      show "lower_running k ?a" using Cons.prems(3) unfolding lower_running_same [OF same] .
      show "\<forall>i \<in> set qs. i < length (requirements_of k ?a)" using Cons.prems(4) unfolding length_requirements [OF sp] by simp
    qed
    then obtain b r where "initialize_requirements rec k qs ?a w = Some (b, w, r)" "same_specs ?a b" by blast
    with Inr run same_specs_trans [OF same] show ?thesis by (auto simp: Let_def)
  qed
qed

text \<open>The initializations are recorded.\<close>

definition logging ::
    "(service_key \<Rightarrow> 'w \<Rightarrow> 'w \<times> string option) \<Rightarrow> service_key \<Rightarrow> service_key list \<times> 'w \<Rightarrow>
     (service_key list \<times> 'w) \<times> string option" where
  "logging do_initialize k lw = (case do_initialize k (snd lw) of (w, t) \<Rightarrow> ((fst lw @ [k], w), t))"

lemma forward_initialize:
  assumes a: "forward a" "k \<in> set (keys a)" "lower_running k a"
  shows "\<exists>b l1 w1 r. service_initialize (logging d) (Suc n) k a (l, w) = Some (b, (l1, w1), r) \<and> specs b = specs a \<and>
    (\<forall>j. j \<noteq> k \<longrightarrow> flags_of j b = flags_of j a) \<and>
    (if is_ok r then l1 = l @ [k] \<and> isRunning (flags_of k b) else l1 = l \<or> l1 = l @ [k])"
proof -
  let ?a = "set_flags k Starting a"
  have sp: "specs ?a = specs a" by simp
  have low: "lower_running k ?a" using a(2,3) by (auto simp: lower_running_def specs_keys [OF sp] flags_of_set_flags)
  have "\<exists>b r. initialize_requirements (service_initialize (logging d) n) k [0..<length (requirements_of k a)] ?a (l, w) =
      Some (b, (l, w), r) \<and> same_specs ?a b"
    by (rule forward_requirements) (use a low in \<open>simp_all add: forward_specs [OF sp] specs_keys [OF sp]\<close>)
  then obtain b r where b: "initialize_requirements (service_initialize (logging d) n) k
      [0..<length (requirements_of k a)] ?a (l, w) = Some (b, (l, w), r)" and same: "same_specs ?a b" by blast
  have k: "keys b = keys a" and spb: "specs b = specs a" using same specs_keys [of b a] by (simp_all add: same_specs_def)
  have fl: "flags_of j (set_flags k f b) = (if j = k then f else flags_of j a)" for j f
    using same_flags [OF same, of j] a(2) by (simp add: flags_of_set_flags k)
  have st: "flags_of k b = Starting" using same_flags [OF same, of k] a(2) by (simp add: flags_of_set_flags)
  show ?thesis
  proof (cases r)
    case (Inl e)
    with b show ?thesis by (simp add: fl spb)
  next
    case (Inr u)
    obtain w1 t where d: "d k w = (w1, t)" by force
    show ?thesis
      by (cases t) (use b Inr d in \<open>simp_all add: logging_def fl spb st\<close>)
  qed
qed

lemma forward_start:
  assumes "forward a" "sorted (map fst ks)" "distinct ks" "set ks \<subseteq> set (keys a)"
    and "\<forall>j \<in> set (keys a). j \<notin> set ks \<longrightarrow> isRunning (flags_of j a)"
  shows "\<exists>b l1 w1 r n. start_services (logging d) ks a (l, w) = Some (b, (l1, w1), r) \<and> l1 = l @ take n ks \<and>
    (is_ok r \<longrightarrow> l1 = l @ ks \<and> (\<forall>j \<in> set (keys a). isRunning (flags_of j b)))"
  using assms
proof (induction ks arbitrary: a l w)
  case Nil
  then show ?case by simp
next
  case (Cons k ks)
  have k: "k \<in> set (keys a)" using Cons.prems(4) by simp
  then obtain n where n: "init_fuel a = Suc n" by (cases "init_fuel a") (auto simp: init_fuel_def keys_def)
  have "lower_running k a"
    unfolding lower_running_def
  proof (intro ballI impI)
    fix j
    assume "j \<in> set (keys a)" "fst j < fst k"
    moreover from this(2) Cons.prems(2) have "j \<notin> set (k # ks)" by (auto simp: leD)
    ultimately show "isRunning (flags_of j a)" using Cons.prems(5) by blast
  qed
  from forward_initialize [OF Cons.prems(1) k this, of d n l w] obtain b l1 w1 r where
    b: "service_initialize (logging d) (init_fuel a) k a (l, w) = Some (b, (l1, w1), r)" "specs b = specs a"
      "\<And>j. j \<noteq> k \<Longrightarrow> flags_of j b = flags_of j a"
      "if is_ok r then l1 = l @ [k] \<and> isRunning (flags_of k b) else l1 = l \<or> l1 = l @ [k]"
    unfolding n by blast
  have kb: "keys b = keys a" by (rule specs_keys [OF b(2)])
  show ?case
  proof (cases r)
    case (Inl e)
    then have "l1 = l @ take 0 (k # ks) \<or> l1 = l @ take 1 (k # ks)" using b(4) by auto
    then obtain m where "l1 = l @ take m (k # ks)" by blast
    with b(1) Inl show ?thesis by (intro exI [of _ b] exI [of _ l1] exI [of _ w1] exI [of _ r] exI [of _ m]) simp
  next
    case (Inr u)
    have "\<exists>c l2 w2 r2 m. start_services (logging d) ks b (l1, w1) = Some (c, (l2, w2), r2) \<and> l2 = l1 @ take m ks \<and>
        (is_ok r2 \<longrightarrow> l2 = l1 @ ks \<and> (\<forall>j \<in> set (keys b). isRunning (flags_of j c)))"
    proof (rule Cons.IH)
      show "\<forall>j \<in> set (keys b). j \<notin> set ks \<longrightarrow> isRunning (flags_of j b)"
        using Cons.prems(5) b(3,4) Inr kb by (metis is_ok.simps(2) set_ConsD)
    qed (use Cons.prems kb forward_specs [OF b(2)] in simp_all)
    then obtain c l2 w2 r2 m where c: "start_services (logging d) ks b (l1, w1) = Some (c, (l2, w2), r2)"
      "l2 = l1 @ take m ks" "is_ok r2 \<longrightarrow> l2 = l1 @ ks \<and> (\<forall>j \<in> set (keys b). isRunning (flags_of j c))" by blast
    have "l2 = l @ take (Suc m) (k # ks)" using c(2) b(4) Inr by simp
    with b(1,4) c Inr kb show ?thesis
      by (intro exI [of _ c] exI [of _ l2] exI [of _ w2] exI [of _ r2] exI [of _ "Suc m"]) auto
  qed
qed

section \<open>The factory functions\<close>

text \<open>
  The application a service is attached to, the repository its module registers in, and the world of
  the services.  \<open>attach_new\<close> is the end of every \<open>instantiate\<close>: what \<open>attach\<close> returns is not looked at.
\<close>

record 'w assembly =
  as_application :: application
  as_modules :: "string list"
  as_world :: 'w

type_synonym 'w initializer = "service_key \<Rightarrow> 'w \<Rightarrow> 'w \<times> string option"

definition attach_new :: "'w initializer \<Rightarrow> service \<Rightarrow> 'o \<Rightarrow> 'w assembly \<Rightarrow> ('w assembly \<times> 'o outcome) option" where
  "attach_new d s obj x =
     (case attach d (Some s) (as_application x) (as_world x) of
        None \<Rightarrow> None
      | Some (a, w, r) \<Rightarrow>
          Some (x\<lparr>as_application := a, as_world := w\<rparr>, (case r of Inl e \<Rightarrow> Inl e | Inr b \<Rightarrow> Inr obj)))"

definition with_modules :: "(string list \<Rightarrow> string list) \<Rightarrow> 'w assembly \<Rightarrow> 'w assembly" where
  "with_modules f x = x\<lparr>as_modules := f (as_modules x)\<rparr>"

definition time_instantiate ::
    "addresses \<Rightarrow> 'w initializer \<Rightarrow> int \<Rightarrow> int \<Rightarrow> 'w assembly \<Rightarrow> ('w assembly \<times> time_service outcome) option" where
  "time_instantiate addr d maxTime resolution x =
     (case time_service_new maxTime resolution of
        None \<Rightarrow> None
      | Some t \<Rightarrow> attach_new d (t_service t) t (with_modules (sccs_time addr) x))"

definition networking_instantiate ::
    "'w initializer \<Rightarrow> 'w assembly \<Rightarrow> ('w assembly \<times> 'z networking outcome) option" where
  "networking_instantiate d x = attach_new d (nw_service (networking_new :: 'z networking)) networking_new x"

definition http_base :: "service outcome" where
  "http_base = require Networking WhateverImplementation (service_new UserDefined ''HTTP'')"

definition http_instantiate ::
    "addresses \<Rightarrow> 'w initializer \<Rightarrow> 'w assembly \<Rightarrow> ('w assembly \<times> (service \<times> http_service) outcome) option" where
  "http_instantiate addr d x =
     (case http_base of
        Inl e \<Rightarrow> Some (x, Inl e)
      | Inr s \<Rightarrow> attach_new d s (s, http_service_new) (with_modules (sccs_http addr) x))"

definition sqlite_instantiate ::
    "'s sqlite \<Rightarrow> addresses \<Rightarrow> 'w initializer \<Rightarrow> string \<Rightarrow> 'w assembly \<Rightarrow>
     ('w assembly \<times> 's sqlite_world database outcome) option" where
  "sqlite_instantiate sq addr d dbFile x =
     (let db = sqlite_database_new sq dbFile
      in attach_new d (db_service db) db (with_modules (sccs_sqlite addr \<circ> sccs_dbms addr) x))"

definition ldap_instantiate ::
    "'l ldap \<Rightarrow> addresses \<Rightarrow> 'w initializer \<Rightarrow> string \<Rightarrow> 'w assembly \<Rightarrow>
     ('w assembly \<times> 'l ldap_world database outcome) option" where
  "ldap_instantiate ld addr d url x =
     (let db = ldap_database_new ld url
      in attach_new d (db_service db) db (with_modules (sccs_ldap addr \<circ> sccs_dbms addr) x))"

text \<open>The servlets are in the order of their hash table; the name of the class of each comes from the compiler.\<close>

definition http_as_xml ::
    "((string \<times> servlet) list \<Rightarrow> (string \<times> servlet) list) \<Rightarrow> (servlet \<Rightarrow> string) \<Rightarrow> service \<Rightarrow> http_service \<Rightarrow>
     xml_node outcome" where
  "http_as_xml order class_name s h =
     (case service_as_xml s of
        Inl e \<Rightarrow> Inl e
      | Inr n \<Rightarrow>
          (case add_children
                  (map (\<lambda>(path, servlet). create_attributes [(''Path'', path), (''Operation'', class_name servlet)]
                     (new_node ''Servlet'')) (order (servlets h))) (new_node ''Servlets'') of
             Inl e \<Rightarrow> Inl e
           | Inr ss \<Rightarrow> Inr (add_child ss (add_child n (new_node ''http.Service'')))))"

section \<open>Assembled applications\<close>

datatype recipe =
    MakeTime int int
  | MakeNetworking
  | MakeHttp
  | MakeSqlite string
  | MakeLdap string

fun make :: "'s sqlite \<Rightarrow> 'l ldap \<Rightarrow> addresses \<Rightarrow> 'w initializer \<Rightarrow> recipe \<Rightarrow> 'w assembly \<Rightarrow> 'w assembly option" where
  "make sq ld addr d (MakeTime maxTime resolution) x = map_option fst (time_instantiate addr d maxTime resolution x)"
| "make sq ld addr d MakeNetworking x =
     map_option fst (networking_instantiate d x :: ('w assembly \<times> nat networking outcome) option)"
| "make sq ld addr d MakeHttp x = map_option fst (http_instantiate addr d x)"
| "make sq ld addr d (MakeSqlite dbFile) x = map_option fst (sqlite_instantiate sq addr d dbFile x)"
| "make sq ld addr d (MakeLdap url) x = map_option fst (ldap_instantiate ld addr d url x)"

fun make_all ::
    "'s sqlite \<Rightarrow> 'l ldap \<Rightarrow> addresses \<Rightarrow> 'w initializer \<Rightarrow> recipe list \<Rightarrow> 'w assembly \<Rightarrow> 'w assembly option" where
  "make_all sq ld addr d [] x = Some x"
| "make_all sq ld addr d (r # rs) x =
     (case make sq ld addr d r x of None \<Rightarrow> None | Some y \<Rightarrow> make_all sq ld addr d rs y)"

fun recipe_key :: "recipe \<Rightarrow> service_key" where
  "recipe_key (MakeTime maxTime resolution) = (Timing, ''native'')"
| "recipe_key MakeNetworking = (Networking, ''ZeroMQ'')"
| "recipe_key MakeHttp = (UserDefined, ''HTTP'')"
| "recipe_key (MakeSqlite dbFile) = (Database, ''SQLite3'')"
| "recipe_key (MakeLdap url) = (Database, ''ldap'')"

definition forward_service :: "service \<Rightarrow> bool" where
  "forward_service s \<longleftrightarrow> s_flags s = Stopped \<and> (\<forall>q \<in> set (s_requirements s). q_feature q < s_feature s)"

definition assembled :: "application \<Rightarrow> bool" where
  "assembled a \<longleftrightarrow> a_flags a = Stopped \<and> distinct_keys service_key_of (a_services a) \<and>
     sorted (map s_feature (a_services a)) \<and> list_all forward_service (a_services a)"

lemma attach_new_assembled:
  assumes "attach_new d s obj x = Some (y, r)" "assembled (as_application x)" "forward_service s"
  shows "assembled (as_application y) \<and>
    set (keys (as_application y)) = insert (service_key_of s) (set (keys (as_application x))) \<and> as_world y = as_world x"
proof (cases "multimap_put s (as_application x)")
  case None
  then have "service_key_of s \<in> set (keys (as_application x))" by (simp add: multimap_put_None keys_def)
  with None assms show ?thesis by (auto simp: attach_new_def attach_def)
next
  case (Some b)
  have "attach d (Some s) (as_application x) (as_world x) = Some (b, as_world x, Inr True)"
    using Some assms(2) multimap_put_Some [OF Some] by (simp add: attach_def assembled_def)
  then have y: "as_application y = b" "as_world y = as_world x" using assms(1) by (auto simp: attach_new_def)
  have b: "b = (as_application x)\<lparr>a_services := multimap_insert s (a_services (as_application x))\<rparr>"
    by (rule multimap_put_Some [OF Some])
  have "distinct_keys service_key_of (a_services b)"
    using services.put_keys_ok [OF Some] assms(2) by (simp add: assembled_def)
  then have "assembled b" using assms(2,3) sorted_multimap_insert by (auto simp: b assembled_def list_all_iff)
  moreover have "set (keys b) = insert (service_key_of s) (set (keys (as_application x)))" by (simp add: b keys_def)
  ultimately show ?thesis by (simp add: y)
qed

lemma make_assembled:
  assumes "make sq ld addr d r x = Some y" "assembled (as_application x)"
  shows "assembled (as_application y) \<and> set (keys (as_application y)) = insert (recipe_key r) (set (keys (as_application x))) \<and>
    as_world y = as_world x"
proof -
  have keep: "as_application (with_modules f x) = as_application x" "as_world (with_modules f x) = as_world x" for f
    by (simp_all add: with_modules_def)
  have new: "forward_service (service_new f i)" "service_key_of (service_new f i) = (f, i)" for f i
    by (simp_all add: forward_service_def service_new_def service_key_of_def)
  show ?thesis
  proof (cases r)
    case (MakeTime maxTime resolution)
    with assms(1) obtain t e where t: "time_service_new maxTime resolution = Some t"
      "attach_new d (t_service t) t (with_modules (sccs_time addr) x) = Some (y, e)"
      by (auto simp: time_instantiate_def split: option.splits)
    have "t_service t = service_new Timing ''native''"
      using t(1) by (auto simp: time_service_new_def split: option.splits if_splits)
    with attach_new_assembled [OF t(2)] assms(2) keep new MakeTime show ?thesis by simp
  next
    case MakeNetworking
    with assms(1) obtain e where
      e: "attach_new d (nw_service (networking_new :: nat networking)) (networking_new :: nat networking) x = Some (y, e)"
      by (auto simp: networking_instantiate_def)
    have "nw_service (networking_new :: nat networking) = service_new Networking ''ZeroMQ''" by (simp add: networking_new_def)
    with attach_new_assembled [OF e] assms(2) new MakeNetworking show ?thesis by simp
  next
    case MakeHttp
    obtain s where s: "http_base = Inr s" "forward_service s" "service_key_of s = (UserDefined, ''HTTP'')"
      by (simp add: http_base_def require_def service_new_def forward_service_def service_key_of_def less_feature_def)
    from assms(1) obtain e where
      e: "attach_new d s (s, http_service_new) (with_modules (sccs_http addr) x) = Some (y, e)"
      unfolding MakeHttp make.simps http_instantiate_def s(1) by auto
    from attach_new_assembled [OF e] assms(2) keep s MakeHttp show ?thesis by simp
  next
    case (MakeSqlite dbFile)
    with assms(1) obtain e where e: "attach_new d (service_new Database ''SQLite3'') (sqlite_database_new sq dbFile)
        (with_modules (sccs_sqlite addr \<circ> sccs_dbms addr) x) = Some (y, e)"
      by (auto simp: sqlite_instantiate_def sqlite_database_new_def database_new_def)
    from attach_new_assembled [OF e] assms(2) keep new MakeSqlite show ?thesis by simp
  next
    case (MakeLdap url)
    with assms(1) obtain e where e: "attach_new d (service_new Database ''ldap'') (ldap_database_new ld url)
        (with_modules (sccs_ldap addr \<circ> sccs_dbms addr) x) = Some (y, e)"
      by (auto simp: ldap_instantiate_def ldap_database_new_def database_new_def)
    from attach_new_assembled [OF e] assms(2) keep new MakeLdap show ?thesis by simp
  qed
qed

lemma make_all_assembled:
  "make_all sq ld addr d rs x = Some y \<Longrightarrow> assembled (as_application x) \<Longrightarrow>
   assembled (as_application y) \<and> set (keys (as_application y)) = recipe_key ` set rs \<union> set (keys (as_application x)) \<and>
   as_world y = as_world x"
proof (induction rs arbitrary: x)
  case Nil
  then show ?case by simp
next
  case (Cons r rs)
  then obtain z where z: "make sq ld addr d r x = Some z" "make_all sq ld addr d rs z = Some y"
    by (auto split: option.splits)
  from make_assembled [OF z(1) Cons.prems(2)] Cons.IH [OF z(2)] show ?case by simp
qed

lemma assembled_forward:
  assumes "assembled a"
  shows "forward a"
  unfolding forward_def
proof (intro ballI)
  fix k w
  assume k: "k \<in> set (keys a)" and w: "w \<in> set (map wanted (requirements_of k a))"
  then obtain s where s: "service_at k a = Some s" using service_at_None [of k a] by (cases "service_at k a") auto
  then have m: "s \<in> set (a_services a)" "service_key_of s = k" by (auto simp: service_at_def dest: lookup_by_Some)
  with w s obtain q where "q \<in> set (s_requirements s)" "w = wanted q" by (auto simp: requirements_of_def)
  with assms m show "fst w < fst k"
    by (auto simp: assembled_def list_all_iff forward_service_def wanted_def service_key_of_def)
qed

text \<open>A timing service can be created when its resolution is not zero and its wheel is not too long.\<close>

fun valid_recipe :: "recipe \<Rightarrow> bool" where
  "valid_recipe (MakeTime maxTime resolution) = (time_service_new maxTime resolution \<noteq> None)"
| "valid_recipe r = True"

lemma attach_new_total:
  assumes "assembled (as_application x)"
  shows "\<exists>y. attach_new d s obj x = Some y"
proof (cases "multimap_put s (as_application x)")
  case None
  then show ?thesis by (simp add: attach_new_def attach_def)
next
  case (Some b)
  from multimap_put_Some [OF this] this assms show ?thesis by (simp add: attach_new_def attach_def assembled_def)
qed

lemma map_fst_total: "\<exists>y. z = Some y \<Longrightarrow> \<exists>y. map_option fst z = Some y"
  by auto

lemma make_total:
  assumes "assembled (as_application x)" "valid_recipe r"
  shows "\<exists>y. make sq ld addr d r x = Some y"
proof -
  have "assembled (as_application (with_modules f x))" for f using assms(1) by (simp add: with_modules_def)
  note total = attach_new_total [OF this] attach_new_total [OF assms(1)]
  obtain s where http: "http_base = Inr s" by (simp add: http_base_def require_def service_new_def)
  show ?thesis
  proof (cases r)
    case (MakeTime maxTime resolution)
    with assms(2) obtain t where t: "time_service_new maxTime resolution = Some t" by auto
    show ?thesis
      unfolding MakeTime make.simps time_instantiate_def t option.case by (intro map_fst_total total)
  next
    case MakeNetworking
    show ?thesis unfolding MakeNetworking make.simps networking_instantiate_def by (intro map_fst_total total)
  next
    case MakeHttp
    show ?thesis unfolding MakeHttp make.simps http_instantiate_def http sum.case by (intro map_fst_total total)
  next
    case (MakeSqlite dbFile)
    show ?thesis unfolding MakeSqlite make.simps sqlite_instantiate_def Let_def by (intro map_fst_total total)
  next
    case (MakeLdap url)
    show ?thesis unfolding MakeLdap make.simps ldap_instantiate_def Let_def by (intro map_fst_total total)
  qed
qed

lemma make_all_total:
  "assembled (as_application x) \<Longrightarrow> list_all valid_recipe rs \<Longrightarrow> \<exists>y. make_all sq ld addr d rs x = Some y"
proof (induction rs arbitrary: x)
  case Nil
  then show ?case by simp
next
  case (Cons r rs)
  from Cons.prems make_total obtain y where y: "make sq ld addr d r x = Some y" by fastforce
  with make_assembled [OF y Cons.prems(1)] Cons.IH [of y] Cons.prems(2) show ?case by simp
qed

text \<open>
  C22: An application is put together from the services of the library, in any order and
  some of them repeatedly.  Starting it initializes each of its services at most once, in the
  order databases, timing, networking, HTTP, whatever the order in which they were
  instantiated, so that HTTP finds its networking running; on success each exactly once, and all run.
\<close>

theorem assembled_services_start_once:
  assumes "make_all sq ld addr d rs \<lparr>as_application = application_new name, as_modules = [], as_world = w\<rparr> = Some x"
  shows "\<exists>b called w1 r n. startServices (logging d) (as_application x) ([], as_world x) = Some (b, (called, w1), r) \<and>
    called = take n (keys (as_application x)) \<and>
    (is_ok r \<longrightarrow> called = keys (as_application x) \<and> (\<forall>k \<in> recipe_key ` set rs. isRunning (flags_of k b))) \<and>
    set (keys (as_application x)) = recipe_key ` set rs \<and> distinct (keys (as_application x)) \<and>
    sorted (map fst (keys (as_application x)))"
proof -
  let ?a = "as_application x"
  have "assembled (application_new name)" by (simp add: assembled_def application_new_def)
  with make_all_assembled [OF assms] have a: "assembled ?a" "set (keys ?a) = recipe_key ` set rs"
    by (simp_all add: keys_def application_new_def)
  have d: "distinct (keys ?a)" "sorted (map fst (keys ?a))"
    using a(1) by (simp_all add: assembled_def keys_def distinct_keys_def comp_def service_key_of_def)
  have "\<exists>b l1 w1 r n. start_services (logging d) (keys ?a) ?a ([], as_world x) = Some (b, (l1, w1), r) \<and>
      l1 = [] @ take n (keys ?a) \<and> (is_ok r \<longrightarrow> l1 = [] @ keys ?a \<and> (\<forall>j \<in> set (keys ?a). isRunning (flags_of j b)))"
    by (rule forward_start) (use a d assembled_forward in simp_all)
  then obtain b l1 w1 r n where b: "start_services (logging d) (keys ?a) ?a ([], as_world x) = Some (b, (l1, w1), r)"
    "l1 = take n (keys ?a)" "is_ok r \<longrightarrow> l1 = keys ?a \<and> (\<forall>j \<in> set (keys ?a). isRunning (flags_of j b))"
    unfolding append_Nil by blast
  have "startServices (logging d) ?a ([], as_world x) = Some (b, (l1, w1), r)"
    using b(1) by (simp add: startServices_def keys_def)
  with b(2,3) a(2) d show ?thesis by blast
qed

text \<open>HTTP comes first, and there is a second timing service, which is not attached.\<close>

definition sample_recipes :: "recipe list" where
  "sample_recipes = [MakeHttp, MakeTime 1000 300, MakeNetworking, MakeTime 500 100]"

theorem assembled_services_start_once_witness:
  "\<exists>x b called w1 r. make_all memory_sqlite directory_ldap (\<lambda>s. 0) (\<lambda>k w. (w, None)) sample_recipes
      \<lparr>as_application = application_new ''app'', as_modules = [], as_world = ()\<rparr> = Some x \<and>
    startServices (logging (\<lambda>k w. (w, None))) (as_application x) ([], as_world x) = Some (b, (called, w1), r) \<and>
    set (keys (as_application x)) = {(UserDefined, ''HTTP''), (Timing, ''native''), (Networking, ''ZeroMQ'')}"
proof -
  have "time_service_new 1000 300 \<noteq> None" "time_service_new 500 100 \<noteq> None"
    using quantum_loop_rounds_up [of 300 1000] quantum_loop_rounds_up [of 100 500] by (simp_all add: time_service_new_def)
  then have "list_all valid_recipe sample_recipes" by (simp add: sample_recipes_def)
  moreover have "assembled (as_application \<lparr>as_application = application_new ''app'', as_modules = [], as_world = ()\<rparr>)"
    by (simp add: assembled_def application_new_def)
  ultimately obtain x where x: "make_all memory_sqlite directory_ldap (\<lambda>s. 0) (\<lambda>k w. (w, None)) sample_recipes
      \<lparr>as_application = application_new ''app'', as_modules = [], as_world = ()\<rparr> = Some x"
    using make_all_total by blast
  from assembled_services_start_once [OF x] obtain b called w1 r where
    "startServices (logging (\<lambda>k w. (w, None))) (as_application x) ([], as_world x) = Some (b, (called, w1), r)"
    "set (keys (as_application x)) = recipe_key ` set sample_recipes" by blast
  with x show ?thesis by (auto simp: sample_recipes_def)
qed

text \<open>
  A second service of the same feature and implementation is returned by its factory function, but
  the application does not have it: it is never initialized.
\<close>

lemma second_instance_is_not_attached:
  assumes "service_key_of s \<in> set (keys (as_application x))"
  shows "attach_new d s obj x = Some (x, Inr obj)"
  using assms by (simp add: attach_new_def attach_def multimap_put_None [THEN iffD2] keys_def)

end
