(* ===== verification/BalanceXml.thy ===== *)
theory BalanceXml
  imports Balance AppCore
begin

text \<open>
  How the resources of \<open>balance\<close> and the strategies over them describe themselves as XML.  A range
  holds the identity of its strategy, whose name is given by \<open>strategy_name\<close>.
\<close>

definition resource_as_xml :: "resource \<Rightarrow> xml_node outcome" where
  "resource_as_xml r =
     create_attributes [(''Name'', r_name r), (''IsAvailable'', as_string_bool (r_available r))]
       (new_node ''balance.Resource'')"

definition resource_list_as_xml :: "resource_list \<Rightarrow> xml_node outcome" where
  "resource_list_as_xml l = add_children (map resource_as_xml (l_resources l)) (new_node (l_name l))"

definition indexed_as_xml :: "resource_list \<Rightarrow> xml_node outcome" where
  "indexed_as_xml l = add_children [resource_list_as_xml l] (new_node ''StrategyIndexed'')"

definition round_robin_as_xml :: "resource_list \<Rightarrow> xml_node outcome" where
  "round_robin_as_xml l = add_children [resource_list_as_xml l] (new_node ''StrategyRoundRobin'')"

definition range_as_xml :: "(nat \<Rightarrow> string) \<Rightarrow> range \<Rightarrow> xml_node outcome" where
  "range_as_xml strategy_name r =
     (case r of (low, high, sub) \<Rightarrow>
        create_attributes
          [(''Begin'', as_string_int low), (''End'', as_string_int high), (''Strategy'', strategy_name sub)]
          (new_node ''Range''))"

definition by_range_as_xml :: "(nat \<Rightarrow> string) \<Rightarrow> range list \<Rightarrow> xml_node outcome" where
  "by_range_as_xml strategy_name ranges =
     (case add_children (map (range_as_xml strategy_name) ranges) (new_node ''Ranges'') of
        Inl e \<Rightarrow> Inl e
      | Inr n \<Rightarrow> Inr (add_child n (new_node ''StrategyByRange'')))"

section \<open>The descriptions are complete\<close>

text \<open>No description throws, and each resource is shown in order, with its name and whether it is available.\<close>

lemma resource_list_described:
  "resource_list_as_xml l = Inr (XmlNode (c_str (l_name l)) [] None
     (map (\<lambda>r. XmlNode ''balance.Resource''
        [(''IsAvailable'', as_string_bool (r_available r)), (''Name'', c_str (r_name r))] None []) (l_resources l)))"
proof -
  have "resource_as_xml r = Inr (XmlNode ''balance.Resource''
      [(''IsAvailable'', as_string_bool (r_available r)), (''Name'', c_str (r_name r))] None [])" for r
    by (cases "r_available r")
      (simp_all add: resource_as_xml_def create_attribute_def add_attribute_def new_node_def ord_def as_string_bool_def)
  then have "map resource_as_xml (l_resources l) = map Inr (map (\<lambda>r. XmlNode ''balance.Resource''
      [(''IsAvailable'', as_string_bool (r_available r)), (''Name'', c_str (r_name r))] None []) (l_resources l))"
    by simp
  then show ?thesis by (simp only: resource_list_as_xml_def new_node_def add_children_Inr append_Nil)
qed

lemma by_range_described:
  "\<exists>n. by_range_as_xml strategy_name ranges = Inr (XmlNode ''StrategyByRange'' [] None [n]) \<and>
     map node_attributes (node_children n) =
       map (\<lambda>(low, high, sub). [(''Begin'', c_str (as_string_int low)), (''End'', c_str (as_string_int high)),
          (''Strategy'', c_str (strategy_name sub))]) ranges"
proof -
  let ?as = "\<lambda>(low, high, sub). [(''Begin'', c_str (as_string_int low)), (''End'', c_str (as_string_int high)),
      (''Strategy'', c_str (strategy_name sub))]"
  have "range_as_xml strategy_name r = Inr (XmlNode ''Range'' (?as r) None [])" for r
    by (cases r) (simp add: range_as_xml_def create_attribute_def add_attribute_def new_node_def ord_def)
  then have m: "map (range_as_xml strategy_name) ranges = map Inr (map (\<lambda>r. XmlNode ''Range'' (?as r) None []) ranges)"
    by simp
  have "by_range_as_xml strategy_name ranges = Inr (XmlNode ''StrategyByRange'' [] None
      [XmlNode ''Ranges'' [] None (map (\<lambda>r. XmlNode ''Range'' (?as r) None []) ranges)])"
    unfolding by_range_as_xml_def m by (simp add: new_node_def add_children_Inr del: map_map)
  then show ?thesis by (intro exI [of _ "XmlNode ''Ranges'' [] None (map (\<lambda>r. XmlNode ''Range'' (?as r) None []) ranges)"])
      (simp add: comp_def)
qed

end
