(* ===== verification/Spec2Isabelle.thy ===== *)
theory Spec2Isabelle
  imports LruCache HttpServer XmlNode Balance AppCore Logging TimeWheel DbmsOrder DbmsWork Persist Observers Backtracking Broker Sqlite Ldap XmlDocument Customers TimeThreads Signals Assembly BalanceXml
begin

text \<open>
  A model of coffee, a C++ framework for network services, with the theorems that make its parts
  correct.  Paths are relative to \<open>source/\<close>; a component \<open>x\<close> has its headers in
  \<open>include/coffee/x\<close> and its bodies in \<open>src/x\<close>.

  \<^bold>\<open>The program.\<close>  An \<open>app::Application\<close> owns services (\<open>app::Service\<close>), one for each feature and
  implementation.  Starting it initializes every service after the services it requires.  A service
  is one of: the timing wheel (\<open>time\<close>), the sockets and their broker (\<open>networking\<close>, on ZeroMQ), HTTP
  over the server sockets (\<open>http\<close>), or a database (\<open>dbms\<close>), whose connections execute statements
  in units of work, through the drivers for SQLite (\<open>dbms.sqlite\<close>) and LDAP (\<open>dbms.ldap\<close>).  On top of
  a database, \<open>persistence\<close> maps objects to statements and keeps the most recently used ones in an
  LRU cache; \<open>balance\<close> chooses among resources that may be unavailable, as connections and sockets are;
  \<open>logger\<close> writes traces; \<open>xml\<close> is the tree in which every part describes itself; \<open>basis\<close> holds what
  they share, with the patterns observer, cache and backtracking.

  \<^bold>\<open>Conventions.\<close>  A function that may throw returns \<open>exn + 'a\<close>.  An operation with undefined
  behaviour, one that blocks for ever, and one that ends the program have no result (\<open>None\<close>), except
  in the drivers, where the flag \<open>crashed\<close> of their state records undefined behaviour.  Integers
  keep their width where the code may overflow (\<open>cint\<close>, \<open>cuint\<close>, \<open>clong\<close>).  Strings are
  lists of bytes.  A shared pointer is a reference into a heap where aliasing matters, and the key of
  the object otherwise.  An order that a hash table chooses is an argument.  Code that is not in
  the repository is an argument as well: \<open>zmq\<close>, \<open>sqlite\<close>, \<open>ldap\<close>, \<open>libxml\<close>, the
  clock and the C library's dates and floats, and the virtual functions an application overrides.
  Each use of a law of such code is a named hypothesis, with an instance that satisfies it.

  \<^bold>\<open>The theories.\<close>
  \<^item> \<open>Prelude\<close>, \<open>Registry\<close>: exceptions, C strings, \<open>std::string\<close> searches, number rendering; the
    interface \<open>registry\<close> of the containers with distinct keys, which is interpreted by the resources,
    requirements, services, connections, statements, data sets, storages, servlets, URL components and
    observers.
  \<^item> \<open>Basis\<close>, \<open>LruCache\<close>, \<open>Observers\<close>, \<open>Backtracking\<close>: \<open>basis\<close>.  The cache keeps the list and the hash
    table of the class, iterators being identities of list nodes, and refines the list of the most
    recently used pairs.  Subjects and observers: an observer has one subject at most.  The solver is
    a partial function, as nothing in the code ends it; it returns on problems whose extensions end, with
    all the solutions.
  \<^item> \<open>XmlNode\<close>, \<open>XmlDocument\<close>: \<open>xml\<close>.  \<open>Node\<close>, \<open>Attribute\<close> and \<open>Content\<close>: the calls to the text
    writer determine the tree.  \<open>Document\<close>, \<open>DTD\<close> and \<open>Compiler\<close> over libxml's functions: a tree that is
    compiled and parsed comes back, unless the text is indented, when it loses children.
  \<^item> \<open>HttpUrl\<close>, \<open>HttpMessage\<close>, \<open>HttpCodec\<close>, \<open>HttpServer\<close>: \<open>http\<close>.  The parser and builder of URLs, the
    message with its indexed headers, the encoder, the decoder with its four states, the
    service and the client.  Round trips of both codecs; one answer for every block received.
  \<^item> \<open>Balance\<close>, \<open>BalanceXml\<close>: \<open>balance\<close>.  The strategies are interpreted as one contract: the resource chosen is the
    first available one of a circle.
  \<^item> \<open>AppCore\<close>: \<open>app\<close>.  \<open>initialize\<close> recurses through the requirements with fuel, \<open>init_fuel\<close>, the
    number of services: each level marks a service as running before it goes deeper,
    so the fuel is enough, which is part of the theorem that it returns.
  \<^item> \<open>Modules\<close>: \<open>config\<close>, the tags every part registers with those of the parts it is built on.
  \<^item> \<open>Logging\<close>: \<open>logger\<close> over a file system.
  \<^item> \<open>Signals\<close>: the handlers of an application's signals on the state of its process, where \<open>app\<close>, \<open>config\<close>,
    \<open>xml\<close> and \<open>logger\<close> meet: the file of the context comes back as the tree it was written from, and
    what \<open>SIGTERM\<close> leaves.
  \<^item> \<open>TimeWheel\<close>: \<open>time\<close>.  The wheel of quanta refines a multiset of countdowns; an event fires on
    the tick its timeout says.
  \<^item> \<open>TimeThreads\<close>: the threads of \<open>TimeService\<close>.  An execution (\<open>run_threads\<close>) is a list of steps of the
    producer, the consumer, the thread that owns the service and its clients, one for each
    critical section and each access to the status outside; \<open>clock_reaches\<close> are the states
    of all executions.  Ticks are handled in order and a running clock goes on; but the threads may end
    before the status says that the service runs, and a stop may wait for ever.  The length of the
    ticks: the clock does not drift unless a round is late by more than a tick.
  \<^item> \<open>DbmsData\<close>, \<open>DbmsOrder\<close>: \<open>dbms/datatype\<close>, typed values, sets of them and their orders, as the
    interface \<open>comparison\<close>.
  \<^item> \<open>DbmsConn\<close>, \<open>DbmsWork\<close>: \<open>dbms\<close>, over the record \<open>driver\<close> of the virtual functions a concrete database
    overrides; units of work under the interface \<open>transactional\<close>, interpreted on the in-memory database
    of \<open>test/dbms.mock\<close>; the lock.
  \<^item> \<open>Sqlite\<close>, \<open>Ldap\<close>: the two drivers, as values of \<open>driver\<close>.  On SQLite a unit of work is all or
    nothing and leaves the connection ready for the next one, and values come back as they were bound,
    under SQLite's documented laws; on LDAP the fetch loop reads every entry of a search.
  \<^item> \<open>Persist\<close>: \<open>persistence\<close>, over any driver, with a cache by its interface; loading refines the list
    of the most recently used objects.
  \<^item> \<open>Customers\<close>: the loader, recorder and eraser of \<open>test/persistence\<close> on the in-memory database, where
    \<open>persistence\<close>, \<open>dbms\<close> and \<open>basis\<close> meet: what is saved is loaded, what is erased is gone, and an object that
    was loaded follows the key of its loader.
  \<^item> \<open>Networking\<close>, \<open>Broker\<close>: \<open>networking\<close>.  A turn of the broker's loop is \<open>broker_turn\<close>, and
    \<open>broker_turns n\<close> its first \<open>n\<close> turns: \<open>n\<close> is any number, so the statements hold of every moment of a
    loop that runs until the service stops.  With \<open>HttpServer\<close> this gives that every request is answered.
  \<^item> \<open>Assembly\<close>: the factory functions of the services, and applications put together with them.

  \<^bold>\<open>What the lemmas show.\<close>  For each component: its invariant and that the operations keep it; what each
  operation does on every branch; and the contract its clients rely on, as a locale or a refinement.
  Where the code does not do what it means to, a theorem says so in general or on an example: a
  required service is initialized twice, a lost connection or a refused commit splits a unit of work
  or blocks the connection, a write that contains the word ``select'' is undone, a connection without TLS
  passes for an available one, a cancelled timer may have moved.

  \<^bold>\<open>Not modelled.\<close>  Threads as such, outside \<open>TimeThreads\<close>: the code that runs in them is modelled as steps
  under the mutex that protects them, and the start and end of a thread as flags; data races nowhere.
  The trace the operations write, unless it is the object (\<open>logger\<close>, \<open>Signals\<close>).  The namespaces of XML
  and a text writer that fails.  The translators of statements, whose call is.  Iterators and other accessors
  of the headers that return a member.  The tests, apart from the in-memory database, the statements
  they run on it and the accessors of customers.
\<close>

end
